(* ===== verification/Prelude.thy ===== *)
theory Prelude
  imports Main "HOL-Library.Word" "HOL-Library.List_Lexorder" "HOL-Library.Char_ord"
    "HOL-Library.Product_Lexorder"
begin

text \<open>
  Shared vocabulary of the development: Go strings and byte slices as HOL strings (a
  \<open>char\<close> is one byte), Go's 64-bit integers as \<open>int\<close> with the wrap-around written out,
  decimal and hexadecimal rendering, \<open>strings.TrimSpace\<close>, and the list facts the
  components share.
\<close>

named_theorems store_defs \<open>unfoldings of the store operations\<close>

type_synonym bytes = string

abbreviation byte_val :: "char \<Rightarrow> nat" where
  "byte_val c \<equiv> of_char c"

section \<open>64-bit integers\<close>

definition wrap64 :: "int \<Rightarrow> int" where
  "wrap64 x = (x + 2 ^ 63) mod 2 ^ 64 - 2 ^ 63"

definition int64 :: "int \<Rightarrow> bool" where
  "int64 x \<longleftrightarrow> - (2 ^ 63) \<le> x \<and> x < 2 ^ 63"

definition int32 :: "int \<Rightarrow> bool" where
  "int32 x \<longleftrightarrow> - (2 ^ 31) \<le> x \<and> x < 2 ^ 31"

definition go_div :: "int \<Rightarrow> int \<Rightarrow> int" where
  "go_div a b = sgn a * sgn b * (\<bar>a\<bar> div \<bar>b\<bar>)"

definition go_mod :: "int \<Rightarrow> int \<Rightarrow> int" where
  "go_mod a b = a - go_div a b * b"

lemma wrap64_id [simp]: "int64 x \<Longrightarrow> wrap64 x = x"
  by (simp add: wrap64_def int64_def)

lemma wrap64_add [simp]: "wrap64 (wrap64 a + b) = wrap64 (a + b)"
proof -
  have "(a + 2 ^ 63) mod 2 ^ 64 - 2 ^ 63 + b + 2 ^ 63 = (a + 2 ^ 63) mod 2 ^ 64 + b" by simp
  then have "((a + 2 ^ 63) mod 2 ^ 64 - 2 ^ 63 + b + 2 ^ 63) mod (2::int) ^ 64 = (a + 2 ^ 63 + b) mod 2 ^ 64"
    by (metis mod_add_left_eq)
  then show ?thesis by (simp add: wrap64_def algebra_simps)
qed

lemma wrap64_range: "int64 (wrap64 x)"
  by (simp add: wrap64_def int64_def)

lemma go_div_nonneg: "0 \<le> a \<Longrightarrow> 0 < b \<Longrightarrow> go_div a b = a div b"
  by (cases "a = 0") (auto simp: go_div_def)

lemma go_mod_nonneg: "0 \<le> a \<Longrightarrow> 0 < b \<Longrightarrow> go_mod a b = a mod b"
  by (simp add: go_mod_def go_div_nonneg minus_div_mult_eq_mod)

section \<open>Decimal rendering and parsing\<close>

definition digit :: "nat \<Rightarrow> char" where
  "digit n = char_of (48 + n)"

definition is_digit :: "char \<Rightarrow> bool" where
  "is_digit c \<longleftrightarrow> 48 \<le> byte_val c \<and> byte_val c \<le> 57"

definition digit_val :: "char \<Rightarrow> nat" where
  "digit_val c = byte_val c - 48"

fun dec_of_nat :: "nat \<Rightarrow> string" where
  "dec_of_nat n = (if n < 10 then [digit n] else dec_of_nat (n div 10) @ [digit (n mod 10)])"

declare dec_of_nat.simps [simp del]

definition dec_of_int :: "int \<Rightarrow> string" where
  "dec_of_int i = (if i < 0 then CHR ''-'' # dec_of_nat (nat (- i)) else dec_of_nat (nat i))"

definition nat_of_dec :: "string \<Rightarrow> nat" where
  "nat_of_dec s = foldl (\<lambda>a c. 10 * a + digit_val c) 0 s"

lemma digit_props [simp]:
  assumes "n < 10"
  shows "is_digit (digit n)" and "digit_val (digit n) = n" and "byte_val (digit n) = 48 + n"
  using assms by (auto simp: digit_def is_digit_def digit_val_def)

lemma dec_of_nat_nonempty [simp]: "dec_of_nat n \<noteq> []"
  by (subst dec_of_nat.simps) simp

lemma dec_of_nat_digits: "list_all is_digit (dec_of_nat n)"
proof (induction n rule: dec_of_nat.induct)
  case (1 n)
  then show ?case
    by (subst dec_of_nat.simps) (auto simp: list_all_iff)
qed

lemma nat_of_dec_snoc [simp]: "nat_of_dec (s @ [c]) = 10 * nat_of_dec s + digit_val c"
  by (simp add: nat_of_dec_def)

lemma nat_of_dec_Nil [simp]: "nat_of_dec [] = 0"
  by (simp add: nat_of_dec_def)

lemma nat_of_dec_of_nat [simp]: "nat_of_dec (dec_of_nat n) = n"
proof (induction n rule: dec_of_nat.induct)
  case (1 n)
  show ?case
  proof (cases "n < 10")
    case True
    then show ?thesis
      using nat_of_dec_snoc [of "[]" "digit n"] by (subst dec_of_nat.simps) simp
  next
    case False
    with "1.IH" show ?thesis
      by (subst dec_of_nat.simps) simp
  qed
qed

lemma dec_of_nat_inject [simp]: "dec_of_nat m = dec_of_nat n \<longleftrightarrow> m = n"
  by (metis nat_of_dec_of_nat)

section \<open>Hexadecimal rendering\<close>

definition hex_digit :: "nat \<Rightarrow> char" where
  "hex_digit n = (if n < 10 then char_of (48 + n) else char_of (87 + n))"

definition is_lower_hex :: "char \<Rightarrow> bool" where
  "is_lower_hex c \<longleftrightarrow> is_digit c \<or> (97 \<le> byte_val c \<and> byte_val c \<le> 102)"

definition hexEncode :: "bytes \<Rightarrow> string" where
  "hexEncode s = concat (map (\<lambda>c. [hex_digit (byte_val c div 16), hex_digit (byte_val c mod 16)]) s)"

lemma byte_val_bound [simp]: "byte_val c < 256"
  using of_char_mod_256 [of c] by (metis mod_less_divisor zero_less_numeral)

lemma hex_digit_val: "n < 16 \<Longrightarrow> byte_val (hex_digit n) = (if n < 10 then 48 + n else 87 + n)"
  by (simp add: hex_digit_def)

lemma hex_digit_inject:
  assumes "m < 16" and "n < 16"
  shows "hex_digit m = hex_digit n \<longleftrightarrow> m = n"
proof
  assume "hex_digit m = hex_digit n"
  then have "byte_val (hex_digit m) = byte_val (hex_digit n)" by simp
  with assms show "m = n" by (auto simp: hex_digit_val split: if_splits)
qed simp

lemma hex_digit_lower: "n < 16 \<Longrightarrow> is_lower_hex (hex_digit n)"
  by (auto simp: hex_digit_def is_lower_hex_def is_digit_def)

lemma hexEncode_Nil [simp]: "hexEncode [] = []"
  by (simp add: hexEncode_def)

lemma hexEncode_Cons [simp]:
  "hexEncode (c # s) = hex_digit (byte_val c div 16) # hex_digit (byte_val c mod 16) # hexEncode s"
  by (simp add: hexEncode_def)

lemma hexEncode_append [simp]: "hexEncode (s @ t) = hexEncode s @ hexEncode t"
  by (induction s) auto

lemma length_hexEncode [simp]: "length (hexEncode s) = 2 * length s"
  by (induction s) auto

lemma byte_val_inject [simp]: "byte_val c = byte_val d \<longleftrightarrow> c = d"
  by (metis char_of_char)

lemma byte_nibbles: "byte_val c div 16 = byte_val d div 16 \<Longrightarrow> byte_val c mod 16 = byte_val d mod 16 \<Longrightarrow> c = d"
  by (metis byte_val_inject div_mult_mod_eq)

lemma byte_div_bound [simp]: "byte_val c div 16 < 16"
  using byte_val_bound [of c] by (simp add: div_less_iff_less_mult)

lemma hexEncode_inject [simp]: "hexEncode s = hexEncode t \<longleftrightarrow> s = t"
proof (induction s arbitrary: t)
  case Nil
  show ?case by (cases t) auto
next
  case (Cons c s)
  show ?case
    by (cases t) (auto simp: hex_digit_inject Cons.IH intro: byte_nibbles)
qed

lemma hexEncode_lower: "list_all is_lower_hex (hexEncode s)"
  by (induction s) (auto simp: hex_digit_lower)

section \<open>Prefixes and white space\<close>

definition hasPrefix :: "string \<Rightarrow> string \<Rightarrow> bool" where
  "hasPrefix s p \<longleftrightarrow> take (length p) s = p"

lemma hasPrefix_append [simp]: "hasPrefix (p @ s) p"
  by (simp add: hasPrefix_def)

lemma hasPrefix_Cons: "hasPrefix s (c # p) \<Longrightarrow> \<exists>t. s = c # t"
  by (cases s) (auto simp: hasPrefix_def)

text \<open>
  \<open>strings.TrimSpace\<close> removes leading and trailing Unicode white space. \<open>space_rune\<close> is the
  byte length of the white-space code point a string starts with (0 if none), in UTF-8;
  \<open>space_rune_end\<close> is the same for the code point it ends with, on the reversed string.
\<close>

fun space_rune :: "nat list \<Rightarrow> nat" where
  "space_rune (a # rest) =
     (if a \<in> {9, 10, 11, 12, 13, 32} then 1
      else case rest of
        [] \<Rightarrow> 0
      | b # rest' \<Rightarrow>
          if a = 194 \<and> (b = 133 \<or> b = 160) then 2
          else case rest' of
            [] \<Rightarrow> 0
          | c # _ \<Rightarrow>
              if (a = 225 \<and> b = 154 \<and> c = 128)
                \<or> (a = 226 \<and> b = 128 \<and> (128 \<le> c \<and> c \<le> 138 \<or> c = 168 \<or> c = 169 \<or> c = 175))
                \<or> (a = 226 \<and> b = 129 \<and> c = 159)
                \<or> (a = 227 \<and> b = 128 \<and> c = 128) then 3 else 0)"
| "space_rune [] = 0"

fun space_rune_end :: "nat list \<Rightarrow> nat" where
  "space_rune_end (a # rest) =
     (if a \<in> {9, 10, 11, 12, 13, 32} then 1
      else case rest of
        [] \<Rightarrow> 0
      | b # rest' \<Rightarrow>
          if space_rune [b, a] = 2 then 2
          else case rest' of
            [] \<Rightarrow> 0
          | c # _ \<Rightarrow> if space_rune [c, b, a] = 3 then 3 else 0)"
| "space_rune_end [] = 0"

function trimLeftBy :: "(nat list \<Rightarrow> nat) \<Rightarrow> string \<Rightarrow> string" where
  "trimLeftBy w s =
     (if s = [] \<or> w (map byte_val s) = 0 then s else trimLeftBy w (drop (w (map byte_val s)) s))"
  by pat_completeness auto
termination
  by (relation "measure (\<lambda>(w, s). length s)") auto

declare trimLeftBy.simps [simp del]

definition trimSpace :: "string \<Rightarrow> string" where
  "trimSpace s = rev (trimLeftBy space_rune_end (rev (trimLeftBy space_rune s)))"

lemma trimLeftBy_digit:
  assumes "is_digit c"
  shows "trimLeftBy space_rune (c # s) = c # s" and "trimLeftBy space_rune_end (c # s) = c # s"
proof -
  from assms have "byte_val c \<notin> {9, 10, 11, 12, 13, 32}" and "byte_val c < 64"
    by (auto simp: is_digit_def)
  then have "space_rune (map byte_val (c # s)) = 0" and "space_rune_end (map byte_val (c # s)) = 0"
    by (auto split: list.split)
  then show "trimLeftBy space_rune (c # s) = c # s" and "trimLeftBy space_rune_end (c # s) = c # s"
    by (simp_all add: trimLeftBy.simps [of _ "c # s"])
qed

lemma trimSpace_digits:
  assumes "list_all is_digit s"
  shows "trimSpace s = s"
proof (cases s)
  case Nil
  then show ?thesis by (simp add: trimSpace_def trimLeftBy.simps)
next
  case (Cons c s')
  with assms have "trimLeftBy space_rune s = s" by (simp add: trimLeftBy_digit)
  moreover obtain d s'' where d: "rev s = d # s''" using Cons by (cases "rev s") auto
  with assms have "is_digit d" by (metis list.pred_set list.set_intros(1) set_rev)
  with d have "trimLeftBy space_rune_end (rev s) = rev s" by (simp add: trimLeftBy_digit)
  ultimately show ?thesis by (simp add: trimSpace_def)
qed

text \<open>PostgreSQL's \<open>btrim(text)\<close> removes the space character only.\<close>

definition btrim :: "string \<Rightarrow> string" where
  "btrim s = rev (dropWhile (\<lambda>c. c = CHR '' '') (rev (dropWhile (\<lambda>c. c = CHR '' '') s)))"

section \<open>Lists\<close>

lemma distinct_map_filter_upd:
  assumes "distinct (map k rows)" and "\<And>r. k (u r) = k r"
  shows "distinct (map k (map (\<lambda>r. if p r then u r else r) rows))"
proof -
  have "map k (map (\<lambda>r. if p r then u r else r) rows) = map k rows"
    using assms(2) by simp
  with assms(1) show ?thesis by metis
qed

lemma filter_eq_single: "distinct xs \<Longrightarrow> filter (\<lambda>k. k = key) xs = (if key \<in> set xs then [key] else [])"
  by (induction xs) (auto simp: filter_empty_conv)

lemma updated_in_map: "r \<in> set rows \<Longrightarrow> p r \<Longrightarrow> u r \<in> set (map (\<lambda>r. if p r then u r else r) rows)"
  by (simp add: rev_image_eqI)

lemma distinct_count_list: "distinct xs \<Longrightarrow> x \<in> set xs \<Longrightarrow> count_list xs x = 1"
  by (induction xs) (auto simp: count_list_0_iff)

lemma filter_unique_key:
  assumes "distinct (map k rows)" and "r \<in> set rows"
  shows "filter (\<lambda>x. k x = k r) rows = [r]"
  using assms by (induction rows) (auto simp: filter_empty_conv image_iff)

end
