(* ===== verification/Lifecycle.thy ===== *)
theory Lifecycle
  imports Prelude
begin

text \<open>
  The persistence-neutral lifecycle API of \<open>postgres/internal/app/lifecycle.go\<close> (re-exported
  unchanged by \<open>postgres/lifecycle/lifecycle.go\<close>): the typed errors, the string-valued
  enumerations and the commands, results and events the store and the worker exchange.
  A Go type declared as \<open>string\<close> stays a \<open>string\<close> here with its declared constants; only
  types whose values the code never reads from outside become datatypes. Durations are
  \<open>int\<close> nanoseconds, instants are \<open>int\<close> microseconds (PostgreSQL's resolution).
\<close>

section \<open>Errors\<close>

text \<open>
  \<open>ErrMsg\<close> is an \<open>errors.New\<close>/\<open>fmt.Errorf\<close> value that callers do not match on,
  \<open>ErrContext\<close> a context cancellation or deadline, \<open>ErrDatabase\<close> the wrapped
  \<open>database operation: ...\<close> error of \<open>mapError\<close>.
\<close>

datatype go_error =
    ErrSchemaVersion
  | ErrConflict
  | ErrNotFound
  | ErrInvalidTransition
  | ErrStaleClaim
  | ErrInvariant
  | ErrContext
  | ErrDatabase
  | ErrMsg string

type_synonym 'a result = "go_error + 'a"

definition RequiredSchemaVersion :: int where
  "RequiredSchemaVersion = 1"

section \<open>String enumerations\<close>

definition RulesetNEC2025V1 :: string where
  "RulesetNEC2025V1 = ''nec-2025-v1''"

definition ReasonTINMissing :: string where [simp]: "ReasonTINMissing = ''TIN_MISSING''"
definition ReasonTINMalformed :: string where [simp]: "ReasonTINMalformed = ''TIN_MALFORMED''"
definition ReasonTINInvalid :: string where [simp]: "ReasonTINInvalid = ''TIN_INVALID''"
definition ReasonAmountInvalid :: string where [simp]: "ReasonAmountInvalid = ''AMOUNT_INVALID''"

definition ExcludedPaymentProcessor :: string where
  [simp]: "ExcludedPaymentProcessor = ''PAYMENT_PROCESSOR_REPORTED''"
definition ExcludedThirdPartyNetwork :: string where
  [simp]: "ExcludedThirdPartyNetwork = ''THIRD_PARTY_NETWORK_REPORTED''"

definition ActionSubmit :: string where [simp]: "ActionSubmit = ''submit''"
definition ActionLookupByUTID :: string where [simp]: "ActionLookupByUTID = ''lookup_by_utid''"
definition ActionPollStatus :: string where [simp]: "ActionPollStatus = ''poll_status''"

definition OperationSubmit :: string where [simp]: "OperationSubmit = ''submit''"
definition OperationStatus :: string where [simp]: "OperationStatus = ''status''"

definition CallCompleted :: string where [simp]: "CallCompleted = ''completed''"
definition CallAmbiguous :: string where [simp]: "CallAmbiguous = ''ambiguous''"
definition CallRetryableError :: string where [simp]: "CallRetryableError = ''retryable_error''"
definition CallTerminalError :: string where [simp]: "CallTerminalError = ''terminal_error''"

datatype HeadlineState =
    HeadlineNeedsAttention
  | HeadlineAwaitingIRS
  | HeadlineFullyFiled
  | HeadlinePartiallyFiled

section \<open>Import and determination\<close>

record PaymentRow =
  SourceRowNumber :: int
  pr_ClientID :: string
  pr_VendorName :: string
  pr_VendorTIN :: string
  pr_PaymentDate :: string
  pr_Amount :: string
  pr_PaymentMethod :: string
  pr_BackupWithholding :: string
  pr_Memo :: string

record ImportDatasetCommand =
  imp_FirmID :: string
  imp_TaxYear :: int

record DatasetResult =
  ds_DatasetID :: int
  ds_ContentSHA256 :: bytes
  ds_RowCount :: int
  ds_Existing :: bool

record DetermineDatasetCommand =
  det_FirmID :: string
  det_DatasetID :: int
  det_RulesetVersion :: string

record DeterminationResult =
  dr_DeterminationID :: int
  dr_ReadyCount :: int
  dr_BlockedCount :: int
  dr_Existing :: bool

record PaymentExplanationQuery =
  pq_FirmID :: string
  pq_DeterminationID :: int
  pq_ClientID :: string
  pq_VendorIdentity :: string

record ExplainedPayment =
  ep_SourceRowNumber :: int
  ep_VendorName :: string
  ep_PaymentDate :: string
  ep_AmountCents :: int
  ep_PaymentMethod :: string
  ep_WithholdingCents :: int
  ep_Counted :: bool
  ep_ExclusionReason :: string

record PaymentExplanation =
  pe_Payments :: "ExplainedPayment list"
  pe_ReportableCents :: int
  pe_WithholdingCents :: int

section \<open>Planning, claims and events\<close>

record PlanBatchesCommand =
  plan_FirmID :: string
  plan_DeterminationID :: int

record BatchPlanResult =
  ExistingBatchCount :: int
  CreatedBatchCount :: int

record ClaimBatchCommand =
  clm_FirmID :: string
  clm_WorkerID :: string
  clm_LeaseDuration :: int

record Claim =
  c_batchID :: int
  c_firmID :: string
  c_token :: string

definition NewStoreClaim :: "int \<Rightarrow> string \<Rightarrow> string \<Rightarrow> Claim" where
  "NewStoreClaim batchID firmID token = \<lparr>c_batchID = batchID, c_firmID = firmID, c_token = token\<rparr>"

definition StoreClaimParts :: "Claim \<Rightarrow> int \<times> string \<times> string" where
  "StoreClaimParts claim = (c_batchID claim, c_firmID claim, c_token claim)"

lemma StoreClaimParts_New [simp]: "StoreClaimParts (NewStoreClaim b f t) = (b, f, t)"
  by (simp add: StoreClaimParts_def NewStoreClaim_def)

record BatchWork =
  w_Claim :: Claim
  w_BatchID :: int
  w_FirmID :: string
  w_ClientID :: string
  w_TaxYear :: int
  w_AttemptCount :: int
  w_NextAction :: string
  w_UTID :: string
  w_CanonicalXML :: bytes
  w_PayloadSHA256 :: bytes
  w_ReceiptID :: string

record SubmitAccepted =
  sa_ReceiptID :: string
  sa_PollDelay :: int

record ReferenceFound =
  rf_ReceiptID :: string
  rf_PollDelay :: int

record RetrySchedule =
  rs_Delay :: int
  rs_FailureCode :: string

record FilingOutcome =
  FilingKey :: string
  IRSRecordID :: string
  RejectionReason :: string

section \<open>Call permits and status\<close>

record AcquireCallCommand =
  acq_FirmID :: string
  acq_BatchID :: int
  acq_Operation :: string

record CallResult =
  cr_Outcome :: string
  cr_HTTPStatus :: int
  cr_ErrorCode :: string

record StatusCounts =
  Required :: int
  Blocked :: int
  Ready :: int
  Pending :: int
  Accepted :: int
  Rejected :: int

record ClientStatus =
  cs_FirmID :: string
  cs_ClientID :: string
  cs_Counts :: StatusCounts
  cs_Headline :: HeadlineState

record FirmStatus =
  fs_FirmID :: string
  fs_Counts :: StatusCounts
  fs_Headline :: HeadlineState
  fs_Clients :: "ClientStatus list"

record ExceptionItem =
  ei_ClientID :: string
  ei_FilingID :: int
  ei_BatchID :: int
  ei_VendorDisplayName :: string
  ei_FailureCode :: string

record ExceptionGroup =
  eg_Type :: string
  eg_Count :: int
  eg_Items :: "ExceptionItem list"

section \<open>Durations\<close>

definition microsecond :: int where "microsecond = 1000"
definition second :: int where "second = 1000000000"
definition minute :: int where "minute = 60 * second"
definition hour :: int where "hour = 60 * minute"

text \<open>\<open>time.Duration.Microseconds\<close>: integer division of nanoseconds, truncated.\<close>

definition Microseconds :: "int \<Rightarrow> int" where
  "Microseconds d = go_div d microsecond"

lemmas duration_defs = microsecond_def second_def minute_def hour_def

lemma Microseconds_nonneg: "0 \<le> d \<Longrightarrow> 0 \<le> Microseconds d"
  by (simp add: Microseconds_def go_div_nonneg microsecond_def)

end
