(* ===== verification/Schema.thy ===== *)
theory Schema
  imports Lifecycle
begin

text \<open>
  The PostgreSQL schema of \<open>postgres/db/migrations/000001_initial.sql\<close> as the store uses it:
  one record type per table, a database of row lists, the CHECK and UNIQUE constraints as
  predicates, the immutability triggers as relations between the old and the new row, and
  UPDATE and INSERT with the SQLSTATE they fail with. Instants are microseconds; the
  bookkeeping columns no query reads (\<open>created_at\<close>, \<open>imported_at\<close>, \<open>updated_at\<close>) are left out.
  A bigint identity column is a counter; a rolled back transaction gives its numbers back
  here, where PostgreSQL would leave a gap.
\<close>

section \<open>Rows\<close>

datatype filing_state = FBlockedPreflight | FReady | FBatched | FAccepted | FRejected

datatype batch_state =
    BPlanned | BSubmitting | BSubmitUnknown | BSubmitted | BAwaitingAck | BAcknowledged | BInvariantFailed

text \<open>A \<open>timestamptz\<close> that may be \<open>'-infinity'\<close>.\<close>

datatype timestamptz = NegInfinity | At int

instantiation timestamptz :: linorder
begin

fun less_eq_timestamptz :: "timestamptz \<Rightarrow> timestamptz \<Rightarrow> bool" where
  "less_eq_timestamptz NegInfinity _ = True"
| "less_eq_timestamptz (At a) NegInfinity = False"
| "less_eq_timestamptz (At a) (At b) = (a \<le> b)"

definition less_timestamptz :: "timestamptz \<Rightarrow> timestamptz \<Rightarrow> bool" where
  "less_timestamptz x y = (x \<le> y \<and> \<not> y \<le> x)"

instance
proof
  fix x y z :: timestamptz
  show "(x < y) = (x \<le> y \<and> \<not> y \<le> x)" by (simp add: less_timestamptz_def)
  show "x \<le> x" by (cases x) auto
  show "x \<le> z" if "x \<le> y" "y \<le> z" using that by (cases x; cases y; cases z) auto
  show "x = y" if "x \<le> y" "y \<le> x" using that by (cases x; cases y) auto
  show "x \<le> y \<or> y \<le> x" by (cases x; cases y) auto
qed

end

record dataset_row =
  d_id :: int
  d_firm :: string
  d_tax_year :: int
  d_hash :: bytes
  d_row_count :: int

record payment_row =
  p_dataset :: int
  p_source_row :: int
  p_firm :: string
  p_client :: string
  p_vendor_name :: string
  p_vendor_tin :: "string option"
  p_vendor_identity :: string
  p_date :: string
  p_amount_cents :: int
  p_method :: string
  p_withholding_cents :: int
  p_memo :: string

record determination_row =
  dt_id :: int
  dt_dataset :: int
  dt_firm :: string
  dt_ruleset :: string

record filing_row =
  f_id :: int
  f_firm :: string
  f_client :: string
  f_determination :: int
  f_tax_year :: int
  f_vendor_identity :: string
  f_vendor_display_name :: string
  f_recipient_tin :: "string option"
  f_key :: bytes
  f_reportable_cents :: int
  f_withholding_cents :: int
  f_state :: filing_state
  f_preflight_reason :: "string option"
  f_irs_record_id :: "string option"
  f_rejection_reason :: "string option"
  f_acknowledged_at :: "int option"

record batch_row =
  b_id :: int
  b_firm :: string
  b_client :: string
  b_tax_year :: int
  b_utid :: string
  b_xml :: bytes
  b_hash :: bytes
  b_state :: batch_state
  b_receipt :: "string option"
  b_next_action_at :: int
  b_attempts :: int
  b_lease_owner :: "string option"
  b_lease_expires :: "int option"
  b_token :: "string option"
  b_submitted_at :: "int option"
  b_acknowledged_at :: "int option"
  b_retry_exhausted_at :: "int option"
  b_last_error :: "string option"

record batch_filing_row =
  bf_batch :: int
  bf_filing :: int
  bf_firm :: string
  bf_client :: string
  bf_slot :: int

record gate_row =
  g_firm :: string
  g_next_call_at :: timestamptz
  g_crash_fence_until :: timestamptz

record call_row =
  l_id :: int
  l_firm :: string
  l_batch :: int
  l_operation :: string
  l_started_at :: int
  l_completed_at :: "int option"
  l_outcome :: "string option"
  l_http_status :: "int option"
  l_error_code :: "string option"

record db =
  db_firms :: "string list"
  db_clients :: "(string \<times> string) list"
  db_datasets :: "dataset_row list"
  db_payments :: "payment_row list"
  db_determinations :: "determination_row list"
  db_filings :: "filing_row list"
  db_batches :: "batch_row list"
  db_batch_filings :: "batch_filing_row list"
  db_gates :: "gate_row list"
  db_calls :: "call_row list"

text \<open>An identity column's next number: one more than the largest in use.\<close>

definition nextId :: "int list \<Rightarrow> int" where
  "nextId ids = foldr max ids 0 + 1"

lemma nextId_pos: "0 < nextId ids"
proof -
  have "0 \<le> foldr max ids 0" by (induction ids) auto
  then show ?thesis by (simp add: nextId_def)
qed

section \<open>Constraints\<close>

text \<open>\<open>submission_batches\<close>: the CHECKs on one row (the integer range of \<open>attempt_count\<close> included).\<close>

definition receiptStates :: "batch_state list" where
  "receiptStates = [BSubmitted, BAwaitingAck, BAcknowledged, BInvariantFailed]"

definition batch_row_ok :: "batch_row \<Rightarrow> bool" where
  "batch_row_ok b \<longleftrightarrow>
     length (b_hash b) = 32 \<and> 0 < length (b_xml b)
     \<and> (b_lease_owner b = None) = (b_lease_expires b = None)
     \<and> (b_lease_owner b = None) = (b_token b = None)
     \<and> 0 \<le> b_attempts b \<and> int32 (b_attempts b)
     \<and> (b_receipt b = None \<or> b_state b \<in> set receiptStates)
     \<and> (b_state b = BAcknowledged) = (b_acknowledged_at b \<noteq> None)
     \<and> (b_retry_exhausted_at b = None \<or> b_state b = BInvariantFailed)"

definition nonNull :: "'a option list \<Rightarrow> 'a list" where
  "nonNull xs = concat (map (\<lambda>x. case x of None \<Rightarrow> [] | Some a \<Rightarrow> [a]) xs)"

definition batch_table_ok :: "batch_row list \<Rightarrow> bool" where
  "batch_table_ok bs \<longleftrightarrow>
     distinct (map b_id bs) \<and> distinct (map (\<lambda>b. (b_firm b, b_utid b)) bs)
     \<and> distinct (nonNull (map b_receipt bs))"

text \<open>Trigger \<open>protect_batch_immutability\<close>.\<close>

definition batch_update_ok :: "batch_row \<Rightarrow> batch_row \<Rightarrow> bool" where
  "batch_update_ok old new \<longleftrightarrow>
     b_firm old = b_firm new \<and> b_client old = b_client new \<and> b_tax_year old = b_tax_year new
     \<and> b_utid old = b_utid new \<and> b_xml old = b_xml new \<and> b_hash old = b_hash new
     \<and> (b_state old \<in> {BAcknowledged, BInvariantFailed} \<longrightarrow> old = new)"

definition preflightReasons :: "string list" where
  "preflightReasons = [ReasonTINMissing, ReasonTINMalformed, ReasonTINInvalid, ReasonAmountInvalid]"

definition optIn :: "'a option \<Rightarrow> 'a list \<Rightarrow> bool" where
  "optIn x xs \<longleftrightarrow> (case x of None \<Rightarrow> True | Some a \<Rightarrow> a \<in> set xs)"

text \<open>\<open>filings\<close>: key length, reasons, withholding and the result shape of each state.\<close>

definition filing_row_ok :: "filing_row \<Rightarrow> bool" where
  "filing_row_ok f \<longleftrightarrow>
     length (f_key f) = 32
     \<and> optIn (f_preflight_reason f) preflightReasons \<and> optIn (f_rejection_reason f) preflightReasons
     \<and> 0 \<le> f_withholding_cents f
     \<and> (case f_state f of
          FBlockedPreflight \<Rightarrow> f_preflight_reason f \<noteq> None \<and> f_irs_record_id f = None
            \<and> f_rejection_reason f = None \<and> f_acknowledged_at f = None
        | FReady \<Rightarrow> f_preflight_reason f = None \<and> f_irs_record_id f = None
            \<and> f_rejection_reason f = None \<and> f_acknowledged_at f = None
        | FBatched \<Rightarrow> f_preflight_reason f = None \<and> f_irs_record_id f = None
            \<and> f_rejection_reason f = None \<and> f_acknowledged_at f = None
        | FAccepted \<Rightarrow> f_preflight_reason f = None \<and> f_irs_record_id f \<noteq> None
            \<and> f_rejection_reason f = None \<and> f_acknowledged_at f \<noteq> None
        | FRejected \<Rightarrow> f_preflight_reason f = None \<and> f_irs_record_id f = None
            \<and> f_rejection_reason f \<noteq> None \<and> f_acknowledged_at f \<noteq> None)"

definition filing_table_ok :: "filing_row list \<Rightarrow> bool" where
  "filing_table_ok fs \<longleftrightarrow>
     distinct (map f_id fs) \<and> distinct (map f_key fs)
     \<and> distinct (map (\<lambda>f. (f_firm f, f_client f, f_tax_year f, f_vendor_identity f)) fs)"

text \<open>Trigger \<open>protect_filing_immutability\<close>.\<close>

definition filing_update_ok :: "filing_row \<Rightarrow> filing_row \<Rightarrow> bool" where
  "filing_update_ok old new \<longleftrightarrow>
     f_firm old = f_firm new \<and> f_client old = f_client new
     \<and> f_determination old = f_determination new \<and> f_tax_year old = f_tax_year new
     \<and> f_vendor_identity old = f_vendor_identity new
     \<and> f_vendor_display_name old = f_vendor_display_name new
     \<and> f_recipient_tin old = f_recipient_tin new \<and> f_key old = f_key new
     \<and> f_reportable_cents old = f_reportable_cents new
     \<and> f_withholding_cents old = f_withholding_cents new
     \<and> (f_state old \<in> {FAccepted, FRejected} \<longrightarrow> old = new)"

definition batch_filing_table_ok :: "batch_filing_row list \<Rightarrow> bool" where
  "batch_filing_table_ok bfs \<longleftrightarrow>
     distinct (map bf_filing bfs) \<and> distinct (map (\<lambda>x. (bf_batch x, bf_slot x)) bfs)"

definition batch_filing_row_ok :: "batch_filing_row \<Rightarrow> bool" where
  "batch_filing_row_ok x \<longleftrightarrow> 1 \<le> bf_slot x \<and> bf_slot x \<le> 100"

text \<open>The composite foreign keys of \<open>batch_filings\<close>.\<close>

definition linkRef_ok :: "db \<Rightarrow> batch_filing_row \<Rightarrow> bool" where
  "linkRef_ok d x \<longleftrightarrow>
     (bf_batch x, bf_firm x, bf_client x) \<in> set (map (\<lambda>b. (b_id b, b_firm b, b_client b)) (db_batches d))
     \<and> (bf_filing x, bf_firm x, bf_client x) \<in> set (map (\<lambda>f. (f_id f, f_firm f, f_client f)) (db_filings d))"

definition call_row_ok :: "call_row \<Rightarrow> bool" where
  "call_row_ok l \<longleftrightarrow>
     l_operation l \<in> {OperationSubmit, OperationStatus}
     \<and> optIn (l_outcome l) [CallCompleted, CallAmbiguous, CallRetryableError, CallTerminalError]
     \<and> (case l_http_status l of None \<Rightarrow> True | Some h \<Rightarrow> 100 \<le> h \<and> h \<le> 599)
     \<and> (l_completed_at l = None) = (l_outcome l = None)"

text \<open>Trigger \<open>protect_call_log\<close>.\<close>

definition call_update_ok :: "call_row \<Rightarrow> call_row \<Rightarrow> bool" where
  "call_update_ok old new \<longleftrightarrow>
     l_firm old = l_firm new \<and> l_batch old = l_batch new \<and> l_operation old = l_operation new
     \<and> l_started_at old = l_started_at new \<and> l_completed_at old = None"

section \<open>UPDATE and INSERT\<close>

text \<open>
  \<open>UPDATE t SET ... WHERE p\<close>: every matching row is replaced; a trigger, CHECK or UNIQUE
  violation fails the statement with its SQLSTATE and changes nothing. The result is the new
  table and \<open>RowsAffected\<close>.
\<close>

definition sql_update ::
  "('r \<Rightarrow> 'r \<Rightarrow> bool) \<Rightarrow> ('r \<Rightarrow> bool) \<Rightarrow> ('r list \<Rightarrow> bool) \<Rightarrow> ('r \<Rightarrow> bool) \<Rightarrow> ('r \<Rightarrow> 'r) \<Rightarrow> 'r list
     \<Rightarrow> string + ('r list \<times> nat)" where
  "sql_update trigger_ok row_ok table_ok p u rows =
     (if list_ex (\<lambda>r. p r \<and> \<not> trigger_ok r (u r)) rows then Inl ''55000''
      else if list_ex (\<lambda>r. p r \<and> \<not> row_ok (u r)) rows then Inl ''23514''
      else if \<not> table_ok (map (\<lambda>r. if p r then u r else r) rows) then Inl ''23505''
      else Inr (map (\<lambda>r. if p r then u r else r) rows, length (filter p rows)))"

definition sql_insert ::
  "('r \<Rightarrow> bool) \<Rightarrow> ('r \<Rightarrow> bool) \<Rightarrow> ('r list \<Rightarrow> bool) \<Rightarrow> 'r list \<Rightarrow> 'r list \<Rightarrow> string + 'r list" where
  "sql_insert row_ok fk_ok table_ok new rows =
     (if \<not> list_all row_ok new then Inl ''23514''
      else if \<not> table_ok (rows @ new) then Inl ''23505''
      else if \<not> list_all fk_ok new then Inl ''23503''
      else Inr (rows @ new))"

lemma sql_update_Inr:
  assumes "sql_update trig row tab p u rows = Inr (rows', n)"
  shows "rows' = map (\<lambda>r. if p r then u r else r) rows" and "n = length (filter p rows)"
    and "\<And>r. r \<in> set rows \<Longrightarrow> p r \<Longrightarrow> trig r (u r) \<and> row (u r)" and "tab rows'"
  using assms by (auto simp: sql_update_def list_ex_iff split: if_splits)

lemma sql_update_integrity:
  assumes "sql_update trig row tab p u rows = Inr (rows', n)" and "\<forall>r \<in> set rows. row r"
  shows "(\<forall>r \<in> set rows'. row r) \<and> tab rows'"
  using sql_update_Inr [OF assms(1)] assms(2) by auto

lemma sql_insert_Inr:
  assumes "sql_insert row fk tab new rows = Inr rows'"
  shows "rows' = rows @ new" and "\<And>r. r \<in> set new \<Longrightarrow> row r \<and> fk r" and "tab rows'"
  using assms by (auto simp: sql_insert_def list_all_iff split: if_splits)

section \<open>Integrity of a database\<close>

text \<open>The foreign key of \<open>filings\<close> to \<open>determinations\<close>, and the keys of the latter.\<close>

definition determination_table_ok :: "determination_row list \<Rightarrow> bool" where
  "determination_table_ok dts \<longleftrightarrow>
     distinct (map dt_id dts) \<and> distinct (map (\<lambda>x. (dt_dataset x, dt_ruleset x)) dts)"

definition filingRefs_ok :: "db \<Rightarrow> bool" where
  "filingRefs_ok d \<longleftrightarrow>
     determination_table_ok (db_determinations d)
     \<and> (\<forall>f \<in> set (db_filings d).
          (f_determination f, f_firm f) \<in> set (map (\<lambda>x. (dt_id x, dt_firm x)) (db_determinations d)))"

definition schema_ok :: "db \<Rightarrow> bool" where
  "schema_ok d \<longleftrightarrow>
     (\<forall>b \<in> set (db_batches d). batch_row_ok b) \<and> batch_table_ok (db_batches d)
     \<and> (\<forall>f \<in> set (db_filings d). filing_row_ok f) \<and> filing_table_ok (db_filings d)
     \<and> (\<forall>x \<in> set (db_batch_filings d). batch_filing_row_ok x) \<and> batch_filing_table_ok (db_batch_filings d)
     \<and> (\<forall>x \<in> set (db_batch_filings d). linkRef_ok d x)
     \<and> filingRefs_ok d
     \<and> (\<forall>l \<in> set (db_calls d). call_row_ok l) \<and> distinct (map l_id (db_calls d))
     \<and> distinct (map g_firm (db_gates d))"

text \<open>Operations that touch only the call log and the gates.\<close>

lemma schema_ok_calls:
  assumes "schema_ok d" and "db_batches d' = db_batches d" and "db_filings d' = db_filings d"
    and "db_batch_filings d' = db_batch_filings d" and "db_determinations d' = db_determinations d"
    and "\<forall>l \<in> set (db_calls d'). call_row_ok l" and "distinct (map l_id (db_calls d'))"
    and "distinct (map g_firm (db_gates d'))"
  shows "schema_ok d'"
  using assms by (simp add: schema_ok_def linkRef_ok_def filingRefs_ok_def)

lemma filingRefs_ok_map:
  assumes "filingRefs_ok d" and "db_determinations d' = db_determinations d"
    and "map (\<lambda>f. (f_determination f, f_firm f)) (db_filings d')
          = map (\<lambda>f. (f_determination f, f_firm f)) (db_filings d)"
  shows "filingRefs_ok d'"
proof -
  have "(\<lambda>f. (f_determination f, f_firm f)) ` set (db_filings d')
      = (\<lambda>f. (f_determination f, f_firm f)) ` set (db_filings d)"
    using assms(3) by (metis set_map)
  moreover have "(\<lambda>f. (f_determination f, f_firm f)) ` set (db_filings d)
      \<subseteq> set (map (\<lambda>x. (dt_id x, dt_firm x)) (db_determinations d))"
    using assms(1) unfolding filingRefs_ok_def by (simp add: image_subset_iff)
  ultimately have "(\<lambda>f. (f_determination f, f_firm f)) ` set (db_filings d')
      \<subseteq> set (map (\<lambda>x. (dt_id x, dt_firm x)) (db_determinations d'))"
    using assms(2) by simp
  then have "\<forall>f \<in> set (db_filings d'). (f_determination f, f_firm f)
      \<in> set (map (\<lambda>x. (dt_id x, dt_firm x)) (db_determinations d'))"
    unfolding image_subset_iff .
  then show ?thesis using assms(1,2) unfolding filingRefs_ok_def by simp
qed

end
