(* ===== verification/Sha256.thy ===== *)
theory Sha256
  imports Prelude
begin

text \<open>
  \<open>crypto/sha256.Sum256\<close> of the Go standard library, executable on byte strings: the padding,
  the message schedule and the compression function of FIPS 180-4 on 32-bit words.
  The program's properties use only that a digest has 32 bytes and is a function of its input.
\<close>

unbundle bit_operations_syntax

type_synonym word32 = "32 word"

definition rotr :: "nat \<Rightarrow> word32 \<Rightarrow> word32" where
  "rotr n x = (drop_bit n x) OR (push_bit (32 - n) x)"

text \<open>
  The constants of FIPS 180-4 by their definition: the first 32 bits of the fractional parts
  of the cube roots (round constants) and square roots (initial hash) of the first primes.
  \<open>rootBits k n b acc\<close> extends \<open>acc\<close> by the \<open>b\<close> low bits of the integer \<open>k\<close>-th root of \<open>n\<close>.
\<close>

fun rootBits :: "nat \<Rightarrow> nat \<Rightarrow> nat \<Rightarrow> nat \<Rightarrow> nat" where
  "rootBits k n 0 acc = acc"
| "rootBits k n (Suc b) acc = rootBits k n b (if (acc + 2 ^ b) ^ k \<le> n then acc + 2 ^ b else acc)"

definition rootFraction :: "nat \<Rightarrow> nat \<Rightarrow> word32" where
  "rootFraction k p = of_nat (rootBits k (p * 2 ^ (32 * k)) 40 0)"

definition first_primes :: "nat list" where
  "first_primes = filter (\<lambda>p. list_all (\<lambda>q. p mod q \<noteq> 0) [2 ..< p]) [2 ..< 312]"

definition round_constants :: "word32 list" where
  "round_constants = map (rootFraction 3) first_primes"

type_synonym hash_state = "word32 \<times> word32 \<times> word32 \<times> word32 \<times> word32 \<times> word32 \<times> word32 \<times> word32"

definition initial_hash :: hash_state where
  "initial_hash = (rootFraction 2 2, rootFraction 2 3, rootFraction 2 5, rootFraction 2 7,
                   rootFraction 2 11, rootFraction 2 13, rootFraction 2 17, rootFraction 2 19)"

definition word_bytes :: "word32 \<Rightarrow> bytes" where
  "word_bytes w = map (\<lambda>n. char_of (uint (drop_bit n w))) [24, 16, 8, 0]"

definition bytes_word :: "bytes \<Rightarrow> word32" where
  "bytes_word bs = foldl (\<lambda>a c. push_bit 8 a OR of_nat (byte_val c)) 0 bs"

fun chunks :: "nat \<Rightarrow> 'a list \<Rightarrow> 'a list list" where
  "chunks n [] = []"
| "chunks n (x # xs) = (if n = 0 then [] else take n (x # xs) # chunks n (drop n (x # xs)))"

definition nat_bytes_be :: "nat \<Rightarrow> nat \<Rightarrow> bytes" where
  "nat_bytes_be k n = map (\<lambda>i. char_of (n div 256 ^ i)) (rev [0..<k])"

definition pad_message :: "bytes \<Rightarrow> bytes" where
  "pad_message m =
     m @ [char_of (128::nat)] @ replicate ((119 - length m mod 64) mod 64) (char_of (0::nat))
       @ nat_bytes_be 8 (8 * length m)"

text \<open>The schedule is built newest word first: the list's head is \<open>W\<^sub>t\<^sub>-\<^sub>1\<close>.\<close>

fun extend_schedule :: "nat \<Rightarrow> word32 list \<Rightarrow> word32 list" where
  "extend_schedule 0 ws = ws"
| "extend_schedule (Suc n) ws =
     (let w15 = ws ! 14; w2 = ws ! 1;
          s0 = rotr 7 w15 XOR rotr 18 w15 XOR drop_bit 3 w15;
          s1 = rotr 17 w2 XOR rotr 19 w2 XOR drop_bit 10 w2
      in extend_schedule n ((ws ! 15 + s0 + ws ! 6 + s1) # ws))"

definition sha_round :: "hash_state \<Rightarrow> word32 \<times> word32 \<Rightarrow> hash_state" where
  "sha_round st kw = (case st of (a, b, c, d, e, f, g, h) \<Rightarrow>
     (let s1 = rotr 6 e XOR rotr 11 e XOR rotr 25 e;
          ch = (e AND f) XOR (NOT e AND g);
          t1 = h + s1 + ch + fst kw + snd kw;
          s0 = rotr 2 a XOR rotr 13 a XOR rotr 22 a;
          maj = (a AND b) XOR (a AND c) XOR (b AND c);
          t2 = s0 + maj
      in (t1 + t2, a, b, c, d + t1, e, f, g)))"

definition compress :: "hash_state \<Rightarrow> bytes \<Rightarrow> hash_state" where
  "compress st block =
     (let ws = rev (extend_schedule 48 (rev (map bytes_word (chunks 4 block))));
          r = foldl sha_round st (zip round_constants ws)
      in case (st, r) of ((a, b, c, d, e, f, g, h), (a', b', c', d', e', f', g', h')) \<Rightarrow>
        (a + a', b + b', c + c', d + d', e + e', f + f', g + g', h + h'))"

definition sha256 :: "bytes \<Rightarrow> bytes" where
  "sha256 m =
     (case foldl compress initial_hash (chunks 64 (pad_message m)) of (a, b, c, d, e, f, g, h) \<Rightarrow>
        concat (map word_bytes [a, b, c, d, e, f, g, h]))"

lemma length_sha256 [simp]: "length (sha256 m) = 32"
  by (simp add: sha256_def word_bytes_def split: prod.split)

lemma length_nat_bytes_be [simp]: "length (nat_bytes_be k n) = k"
  by (simp add: nat_bytes_be_def)

end
