(* ===== verification/Xml.thy ===== *)
theory Xml
  imports Prelude
begin

text \<open>
  What the program uses of \<open>encoding/xml\<close>: documents without attributes or namespaces as
  trees of named elements and character data, the byte rendering \<open>xml.Marshal\<close> gives such a
  tree (with \<open>EscapeText\<close>'s escaping, UTF-8 decoding included), and the reading side
  \<open>xml.Unmarshal\<close> has for string, integer and repeated struct fields.
\<close>

datatype xml_node = Element (elem_name: string) (elem_children: "xml_node list") | CharData string

section \<open>Rendering\<close>

text \<open>\<open>utf8.DecodeRune\<close>: the code point a byte string starts with and its width;
  an invalid encoding is U+FFFD of width 1.\<close>

definition cont_byte :: "nat \<Rightarrow> bool" where
  "cont_byte b \<longleftrightarrow> 128 \<le> b \<and> b \<le> 191"

definition RuneError :: nat where "RuneError = 65533"

definition decodeRune :: "nat list \<Rightarrow> nat \<times> nat" where
  "decodeRune bs =
     (case bs of
        [] \<Rightarrow> (RuneError, 0)
      | a # r1 \<Rightarrow>
          if a < 128 then (a, 1)
          else case r1 of
            [] \<Rightarrow> (RuneError, 1)
          | b # r2 \<Rightarrow>
              if 194 \<le> a \<and> a \<le> 223 then
                (if cont_byte b then ((a - 192) * 64 + (b - 128), 2) else (RuneError, 1))
              else case r2 of
                [] \<Rightarrow> (RuneError, 1)
              | c # r3 \<Rightarrow>
                  if 224 \<le> a \<and> a \<le> 239 then
                    (if cont_byte b \<and> (a = 224 \<longrightarrow> 160 \<le> b) \<and> (a = 237 \<longrightarrow> b \<le> 159) \<and> cont_byte c
                     then ((a - 224) * 4096 + (b - 128) * 64 + (c - 128), 3) else (RuneError, 1))
                  else case r3 of
                    [] \<Rightarrow> (RuneError, 1)
                  | d # _ \<Rightarrow>
                      if 240 \<le> a \<and> a \<le> 244 \<and> cont_byte b \<and> (a = 240 \<longrightarrow> 144 \<le> b)
                         \<and> (a = 244 \<longrightarrow> b \<le> 143) \<and> cont_byte c \<and> cont_byte d
                      then ((a - 240) * 262144 + (b - 128) * 4096 + (c - 128) * 64 + (d - 128), 4)
                      else (RuneError, 1))"

definition isInCharacterRange :: "nat \<Rightarrow> bool" where
  "isInCharacterRange r \<longleftrightarrow>
     r = 9 \<or> r = 10 \<or> r = 13 \<or> (32 \<le> r \<and> r \<le> 55295) \<or> (57344 \<le> r \<and> r \<le> 65533)
     \<or> (65536 \<le> r \<and> r \<le> 1114111)"

definition escapeRune :: "nat \<times> nat \<Rightarrow> string \<Rightarrow> string" where
  "escapeRune rw raw =
     (let r = fst rw in
      if r = 34 then ''&#34;''
      else if r = 39 then ''&#39;''
      else if r = 38 then ''&amp;''
      else if r = 60 then ''&lt;''
      else if r = 62 then ''&gt;''
      else if r = 9 then ''&#x9;''
      else if r = 10 then ''&#xA;''
      else if r = 13 then ''&#xD;''
      else if \<not> isInCharacterRange r \<or> (r = RuneError \<and> snd rw = 1)
      then [char_of (239::nat), char_of (191::nat), char_of (189::nat)]
      else raw)"

fun escapeText :: "string \<Rightarrow> string" where
  "escapeText [] = []"
| "escapeText (c # s) =
     (let rw = decodeRune (map byte_val (take 4 (c # s)))
      in escapeRune rw (take (snd rw) (c # s)) @ escapeText (drop (snd rw - 1) s))"

fun renderXML :: "xml_node \<Rightarrow> string" where
  "renderXML (CharData s) = escapeText s"
| "renderXML (Element n cs) =
     ''<'' @ n @ ''>'' @ concat (map renderXML cs) @ ''</'' @ n @ ''>''"

definition xmlHeader :: string where
  "xmlHeader = ''<?xml version=\"1.0\" encoding=\"UTF-8\"?>'' @ [char_of (10::nat)]"

definition textElement :: "string \<Rightarrow> string \<Rightarrow> xml_node" where
  "textElement n s = Element n (if s = [] then [] else [CharData s])"

lemma renderXML_nonempty: "renderXML (Element n cs) \<noteq> []"
  by simp

section \<open>Reading\<close>

text \<open>The children with a given name, in document order (a slice field collects them all).\<close>

definition childrenNamed :: "string \<Rightarrow> xml_node list \<Rightarrow> xml_node list list" where
  "childrenNamed n cs = concat (map (\<lambda>c. case c of
      Element m gs \<Rightarrow> (if m = n then [gs] else []) | CharData _ \<Rightarrow> []) cs)"

text \<open>A string field holds the concatenated direct character data of the last such child.\<close>

definition charDataOf :: "xml_node list \<Rightarrow> string" where
  "charDataOf cs = concat (map (\<lambda>c. case c of CharData s \<Rightarrow> s | Element _ _ \<Rightarrow> []) cs)"

definition stringField :: "string \<Rightarrow> xml_node list \<Rightarrow> string" where
  "stringField n cs = (case rev (childrenNamed n cs) of [] \<Rightarrow> [] | gs # _ \<Rightarrow> charDataOf gs)"

lemma childrenNamed_Nil [simp]: "childrenNamed n [] = []"
  by (simp add: childrenNamed_def)

lemma childrenNamed_Cons [simp]:
  "childrenNamed n (Element m gs # cs) = (if m = n then gs # childrenNamed n cs else childrenNamed n cs)"
  "childrenNamed n (CharData s # cs) = childrenNamed n cs"
  by (simp_all add: childrenNamed_def)

lemma childrenNamed_append [simp]:
  "childrenNamed n (cs @ ds) = childrenNamed n cs @ childrenNamed n ds"
  by (simp add: childrenNamed_def)

lemma childrenNamed_textElement [simp]:
  "childrenNamed n (textElement m s # cs) =
     (if m = n then (if s = [] then [] else [CharData s]) # childrenNamed n cs else childrenNamed n cs)"
  by (simp add: textElement_def)

lemma charDataOf_simps [simp]:
  "charDataOf [] = []" "charDataOf [CharData s] = s"
  by (simp_all add: charDataOf_def)

end
