(* ===== verification/Identity.thy ===== *)
theory Identity
  imports Xml Sha256 Lifecycle
begin

text \<open>
  \<open>postgres/internal/store/identity.go\<close>: the length-prefixed hash behind filing keys and
  batch references, the deterministic UTID, the rendering of cents as dollars, and the
  canonical XML payload of a batch.
\<close>

section \<open>Hash identities\<close>

text \<open>The bytes written to the hash: each value after its 4-byte big-endian length
  (\<open>uint32(len(value))\<close>, so lengths are taken modulo \<open>2 ^ 32\<close>).\<close>

definition frameValues :: "string list \<Rightarrow> bytes" where
  "frameValues values = concat (map (\<lambda>v. nat_bytes_be 4 (length v) @ v) values)"

definition hashSequence :: "string list \<Rightarrow> bytes" where
  "hashSequence values = sha256 (frameValues values)"

definition filingKeyValues :: "string \<Rightarrow> string \<Rightarrow> int \<Rightarrow> string \<Rightarrow> string list" where
  "filingKeyValues firmID clientID taxYear vendorIdentity =
     [''filing-key-v1'', firmID, clientID, dec_of_int taxYear, ''1099-NEC'', vendorIdentity, ''0'']"

definition filingKey :: "string \<Rightarrow> string \<Rightarrow> int \<Rightarrow> string \<Rightarrow> bytes" where
  "filingKey firmID clientID taxYear vendorIdentity =
     hashSequence (filingKeyValues firmID clientID taxYear vendorIdentity)"

definition filingKeyString :: "bytes \<Rightarrow> string" where
  "filingKeyString key = hexEncode key"

text \<open>
  \<open>uuidBytes\<close> is a slice of the array \<open>digest\<close>, so setting the version and variant bits
  also changes the digest that is returned (and from which the SubmissionId is cut).
\<close>

definition setUUIDBits :: "bytes \<Rightarrow> bytes" where
  "setUUIDBits digest =
     digest[6 := char_of (or (and (byte_val (digest ! 6)) 15) 64),
            8 := char_of (or (and (byte_val (digest ! 8)) 63) 128)]"

definition slice :: "nat \<Rightarrow> nat \<Rightarrow> 'a list \<Rightarrow> 'a list" where
  "slice from to xs = take (to - from) (drop from xs)"

definition uuidString :: "bytes \<Rightarrow> string" where
  "uuidString b =
     hexEncode (slice 0 4 b) @ ''-'' @ hexEncode (slice 4 6 b) @ ''-'' @ hexEncode (slice 6 8 b)
     @ ''-'' @ hexEncode (slice 8 10 b) @ ''-'' @ hexEncode (slice 10 16 b)"

definition batchIdentity :: "string \<Rightarrow> string \<Rightarrow> int \<Rightarrow> bytes list \<Rightarrow> bytes \<times> string" where
  "batchIdentity firmID clientID taxYear filingKeys =
     (let values = [''batch-ref-v1'', firmID, clientID, dec_of_int taxYear] @ map hexEncode filingKeys;
          digest = setUUIDBits (hashSequence values)
      in (digest, uuidString digest @ '':IRIS:'' @ firmID @ ''::A''))"

section \<open>Money\<close>

text \<open>\<open>fmt.Sprintf("%02d", i)\<close>\<close>

definition fmt02d :: "int \<Rightarrow> string" where
  "fmt02d i =
     (let s = dec_of_nat (nat \<bar>i\<bar>)
      in if i < 0 then CHR ''-'' # replicate (1 - length s) CHR ''0'' @ s
         else replicate (2 - length s) CHR ''0'' @ s)"

definition formatCents :: "int \<Rightarrow> string" where
  "formatCents cents =
     (let sign = (if cents < 0 then ''-'' else '''');
          value = (if cents < 0 then wrap64 (wrap64 (- wrap64 (cents + 1)) + 1) else cents)
      in sign @ dec_of_int (go_div value 100) @ ''.'' @ fmt02d (go_mod value 100))"

section \<open>The canonical payload\<close>

record xmlDetail =
  xd_RecordID :: string
  xd_RecipientName :: string
  xd_RecipientTIN :: string
  xd_Compensation :: string
  xd_Withholding :: string

record xmlHeaderRec =
  xh_SubmissionID :: string
  xh_ClientID :: string
  xh_FormType :: string
  xh_Count :: int

record xmlManifest =
  xm_UTID :: string
  xm_Transmitter :: string
  xm_TransmissionType :: string
  xm_TaxYear :: int

record xmlTransmission =
  xt_Manifest :: xmlManifest
  xt_Header :: xmlHeaderRec
  xt_Details :: "xmlDetail list"

definition detailNode :: "xmlDetail \<Rightarrow> xml_node" where
  "detailNode d = Element ''Form1099NECDetail''
     [textElement ''RecordId'' (xd_RecordID d),
      textElement ''RecipientNm'' (xd_RecipientName d),
      textElement ''RecipientTIN'' (xd_RecipientTIN d),
      textElement ''NonemployeeCompensationAmt'' (xd_Compensation d),
      textElement ''FederalIncomeTaxWithheldAmt'' (xd_Withholding d)]"

definition transmissionNode :: "xmlTransmission \<Rightarrow> xml_node" where
  "transmissionNode t = Element ''IRTransmission''
     [Element ''IRTransmissionManifest''
        [textElement ''UniqueTransmissionId'' (xm_UTID (xt_Manifest t)),
         textElement ''TransmitterControlCd'' (xm_Transmitter (xt_Manifest t)),
         textElement ''TransmissionTypeCd'' (xm_TransmissionType (xt_Manifest t)),
         textElement ''TaxYr'' (dec_of_int (xm_TaxYear (xt_Manifest t)))],
      Element ''IRSubmission1Grp''
        (Element ''IRSubmission1Header''
           [textElement ''SubmissionId'' (xh_SubmissionID (xt_Header t)),
            textElement ''ClientId'' (xh_ClientID (xt_Header t)),
            textElement ''FormTypeCd'' (xh_FormType (xt_Header t)),
            textElement ''ReportedRcpntFormCnt'' (dec_of_int (xh_Count (xt_Header t)))]
         # map detailNode (xt_Details t))]"

text \<open>\<open>strings.ToUpper\<close> on hexadecimal text.\<close>

definition toUpperASCII :: "string \<Rightarrow> string" where
  "toUpperASCII = map (\<lambda>c. if 97 \<le> byte_val c \<and> byte_val c \<le> 122 then char_of (byte_val c - 32) else c)"

definition canonicalTransmission ::
  "string \<Rightarrow> string \<Rightarrow> int \<Rightarrow> string \<Rightarrow> xmlDetail list \<Rightarrow> bytes \<Rightarrow> xmlTransmission" where
  "canonicalTransmission firmID clientID taxYear utid details digest =
     \<lparr>xt_Manifest = \<lparr>xm_UTID = utid, xm_Transmitter = firmID, xm_TransmissionType = ''O'',
                     xm_TaxYear = taxYear\<rparr>,
      xt_Header = \<lparr>xh_SubmissionID = ''SUB-'' @ toUpperASCII (hexEncode (slice 0 12 digest)),
                   xh_ClientID = clientID, xh_FormType = ''1099-NEC'', xh_Count = int (length details)\<rparr>,
      xt_Details = details\<rparr>"

text \<open>\<open>xml.Marshal\<close> cannot fail on these structs (strings, integers and slices of structs),
  so the error branch of the code is never taken and the payload is returned as it is.\<close>

definition canonicalXML ::
  "string \<Rightarrow> string \<Rightarrow> int \<Rightarrow> string \<Rightarrow> xmlDetail list \<Rightarrow> bytes \<Rightarrow> bytes" where
  "canonicalXML firmID clientID taxYear utid details digest =
     xmlHeader @ renderXML (transmissionNode
       (canonicalTransmission firmID clientID taxYear utid details digest))"

end
