(* ===== verification/Store_Base.thy ===== *)
theory Store_Base
  imports Schema Sha256 Identity
begin

text \<open>
  \<open>postgres/internal/store/store.go\<close>: the firm check every transaction starts with and the
  translation of database errors. A store operation is a function from the database to the
  database and a result; returning an error rolls back, so the database comes back unchanged
  unless the code commits first. Losing the connection is not modelled: a statement fails
  only for the reasons the schema gives.
\<close>

datatype db_error = Canceled | DeadlineExceeded | PgError string | OtherError

definition containsAny :: "string \<Rightarrow> char list \<Rightarrow> bool" where
  "containsAny s cs \<longleftrightarrow> list_ex (\<lambda>c. c \<in> set cs) s"

definition validateFirmID :: "string \<Rightarrow> unit result" where
  "validateFirmID firmID =
     (if trimSpace firmID = '''' \<or> 128 < length firmID
         \<or> containsAny firmID [char_of (0::nat), char_of (13::nat), char_of (10::nat)]
      then Inl (ErrMsg ''invalid firm identity'') else Inr ())"

text \<open>\<open>beginFirm\<close> opens a transaction whose row-level security context is the firm.\<close>

definition beginFirm :: "string \<Rightarrow> unit result" where
  "beginFirm firmID = validateFirmID firmID"

definition mapError :: "db_error \<Rightarrow> go_error" where
  "mapError err =
     (case err of
        Canceled \<Rightarrow> ErrContext
      | DeadlineExceeded \<Rightarrow> ErrContext
      | PgError code \<Rightarrow>
          (if code = ''23505'' then ErrConflict
           else if code = ''23503'' then ErrNotFound
           else if code \<in> {''23514'', ''22000'', ''22001'', ''22003'', ''22007'', ''22P02'', ''55000''}
           then ErrInvariant
           else ErrDatabase)
      | OtherError \<Rightarrow> ErrDatabase)"

lemma mapError_simps [simp]:
  "mapError (PgError ''23505'') = ErrConflict"
  "mapError (PgError ''23503'') = ErrNotFound"
  "mapError (PgError ''23514'') = ErrInvariant"
  "mapError (PgError ''55000'') = ErrInvariant"
  "mapError (PgError ''22003'') = ErrInvariant"
  by (simp_all add: mapError_def)

text \<open>\<open>Open\<close>: the database is usable only at the schema version the program needs.\<close>

definition checkSchemaVersion :: "int list \<Rightarrow> unit result" where
  "checkSchemaVersion versions =
     (if foldr max versions 0 \<noteq> RequiredSchemaVersion then Inl ErrSchemaVersion else Inr ())"

end
