(* ===== verification/Batches.thy ===== *)
theory Batches
  imports Store_Base
begin

text \<open>
  The batch state machine of \<open>postgres/internal/store/filing.go\<close>: claiming the next due
  batch and recording the outcome of the IRS call under the claim's token. Every
  operation is one transaction. \<open>clock_timestamp()\<close> is an argument per statement
  (\<open>t1\<close> for the UPDATE, \<open>t2\<close> for the SELECT of \<open>claimMiss\<close>); the rows that concurrent
  transactions hold locked (\<open>SKIP LOCKED\<close>) are the argument \<open>locked\<close>.
\<close>

section \<open>Claiming\<close>

text \<open>\<open>newClaimToken\<close>: 16 random bytes in hexadecimal; \<open>None\<close> is a failing \<open>rand.Read\<close>.\<close>

definition newClaimToken :: "bytes option \<Rightarrow> string option" where
  "newClaimToken entropy = map_option hexEncode entropy"

definition claimDue :: "int \<Rightarrow> string \<Rightarrow> int list \<Rightarrow> batch_row \<Rightarrow> bool" where
  "claimDue now firmID locked b \<longleftrightarrow>
     b_firm b = firmID \<and> b_next_action_at b \<le> now
     \<and> b_state b \<notin> {BAcknowledged, BInvariantFailed}
     \<and> (case b_lease_expires b of None \<Rightarrow> True | Some e \<Rightarrow> e \<le> now)
     \<and> b_id b \<notin> set locked"

text \<open>\<open>ORDER BY next_action_at, id FOR UPDATE SKIP LOCKED LIMIT 1\<close>\<close>

definition claimCandidate :: "int \<Rightarrow> string \<Rightarrow> int list \<Rightarrow> batch_row list \<Rightarrow> batch_row option" where
  "claimCandidate now firmID locked rows =
     (case sort_key (\<lambda>b. (b_next_action_at b, b_id b)) (filter (claimDue now firmID locked) rows) of
        [] \<Rightarrow> None
      | b # _ \<Rightarrow> Some b)"

definition claimState :: "batch_state \<Rightarrow> batch_state" where
  "claimState st =
     (case st of BPlanned \<Rightarrow> BSubmitting | BSubmitting \<Rightarrow> BSubmitUnknown
      | BSubmitted \<Rightarrow> BAwaitingAck | _ \<Rightarrow> st)"

definition claimRow :: "int \<Rightarrow> string \<Rightarrow> int \<Rightarrow> string \<Rightarrow> batch_row \<Rightarrow> batch_row" where
  "claimRow now worker leaseMicros token b =
     b\<lparr>b_state := claimState (b_state b), b_lease_owner := Some worker,
       b_lease_expires := Some (now + leaseMicros), b_token := Some token,
       b_attempts := b_attempts b + 1\<rparr>"

text \<open>The payload-hash mismatch branch: the batch becomes \<open>invariant_failed\<close> and is released.\<close>

definition hashMismatchRow :: "batch_row \<Rightarrow> batch_row" where
  "hashMismatchRow b =
     b\<lparr>b_state := BInvariantFailed, b_last_error := Some ''PAYLOAD_HASH_MISMATCH'',
       b_lease_owner := None, b_lease_expires := None, b_token := None\<rparr>"

definition updateBatches ::
  "(batch_row \<Rightarrow> bool) \<Rightarrow> (batch_row \<Rightarrow> batch_row) \<Rightarrow> db \<Rightarrow> (db \<times> nat) result" where
  "updateBatches p u d =
     (case sql_update batch_update_ok batch_row_ok batch_table_ok p u (db_batches d) of
        Inl code \<Rightarrow> Inl (mapError (PgError code))
      | Inr (rows, n) \<Rightarrow> Inr (d\<lparr>db_batches := rows\<rparr>, n))"

definition claimAction :: "batch_state \<Rightarrow> string result" where
  "claimAction st =
     (case st of BSubmitting \<Rightarrow> Inr ActionSubmit | BSubmitUnknown \<Rightarrow> Inr ActionLookupByUTID
      | BSubmitted \<Rightarrow> Inr ActionPollStatus | BAwaitingAck \<Rightarrow> Inr ActionPollStatus
      | _ \<Rightarrow> Inl ErrInvariant)"

definition coalesce :: "string option \<Rightarrow> string" where
  "coalesce x = (case x of None \<Rightarrow> '''' | Some s \<Rightarrow> s)"

definition claimWork :: "string \<Rightarrow> string \<Rightarrow> string \<Rightarrow> batch_row \<Rightarrow> BatchWork" where
  "claimWork action firmID token b =
     \<lparr>w_Claim = NewStoreClaim (b_id b) (b_firm b) token, w_BatchID = b_id b, w_FirmID = b_firm b,
      w_ClientID = b_client b, w_TaxYear = b_tax_year b, w_AttemptCount = b_attempts b,
      w_NextAction = action, w_UTID = b_utid b, w_CanonicalXML = b_xml b,
      w_PayloadSHA256 = b_hash b, w_ReceiptID = coalesce (b_receipt b)\<rparr>"

definition ClaimNextBatch ::
  "int \<Rightarrow> int list \<Rightarrow> bytes option \<Rightarrow> ClaimBatchCommand \<Rightarrow> db \<Rightarrow> db \<times> BatchWork option result" where
  "ClaimNextBatch now locked entropy command d =
     (let firmID = clm_FirmID command in
      if clm_WorkerID command = '''' \<or> clm_LeaseDuration command \<le> 0
      then (d, Inl (ErrMsg ''invalid claim command''))
      else case newClaimToken entropy of
        None \<Rightarrow> (d, Inl (ErrMsg ''create claim token''))
      | Some token \<Rightarrow>
        (case beginFirm firmID of
           Inl e \<Rightarrow> (d, Inl e)
         | Inr _ \<Rightarrow>
           (case claimCandidate now firmID locked (db_batches d) of
              None \<Rightarrow> (d, Inr None)
            | Some candidate \<Rightarrow>
              (let b = claimRow now (clm_WorkerID command) (Microseconds (clm_LeaseDuration command))
                         token candidate
               in case updateBatches (\<lambda>r. b_id r = b_id candidate)
                         (claimRow now (clm_WorkerID command)
                            (Microseconds (clm_LeaseDuration command)) token) d of
                 Inl e \<Rightarrow> (d, Inl e)
               | Inr (d1, _) \<Rightarrow>
                 if length (b_hash b) \<noteq> 32 then (d, Inl ErrInvariant)
                 else if sha256 (b_xml b) \<noteq> b_hash b
                 then (case updateBatches (\<lambda>r. b_id r = b_id b \<and> b_firm r = firmID)
                              hashMismatchRow d1 of
                         Inl e \<Rightarrow> (d, Inl e)
                       | Inr (d2, _) \<Rightarrow> (d2, Inl ErrInvariant))
                 else (case claimAction (b_state b) of
                         Inl e \<Rightarrow> (d, Inl e)
                       | Inr action \<Rightarrow> (d1, Inr (Some (claimWork action firmID token b))))))))"

section \<open>Recording outcomes\<close>

definition validDelay :: "int \<Rightarrow> bool" where
  "validDelay delay \<longleftrightarrow> 0 \<le> delay \<and> delay \<le> 30 * 24 * hour"

definition failureChar :: "char \<Rightarrow> bool" where
  "failureChar c \<longleftrightarrow> (65 \<le> byte_val c \<and> byte_val c \<le> 90) \<or> is_digit c \<or> c \<in> set ''_.-''"

definition validFailureCode :: "string \<Rightarrow> bool" where
  "validFailureCode code \<longleftrightarrow> length code \<le> 64 \<and> list_all failureChar code"

text \<open>Why an UPDATE matched no row.\<close>

definition claimMiss :: "int \<Rightarrow> int \<Rightarrow> string \<Rightarrow> string \<Rightarrow> db \<Rightarrow> go_error" where
  "claimMiss t2 batchID firmID token d =
     (case filter (\<lambda>b. b_id b = batchID \<and> b_firm b = firmID) (db_batches d) of
        [] \<Rightarrow> ErrNotFound
      | b # _ \<Rightarrow>
          (let live = (case b_lease_expires b of None \<Rightarrow> False | Some e \<Rightarrow> t2 < e)
           in if coalesce (b_token b) \<noteq> token \<or> \<not> live then ErrStaleClaim
              else ErrInvalidTransition))"

text \<open>The WHERE clause all outcome UPDATEs share: the row, the live claim, and the legal states.\<close>

definition claimedBy :: "int \<Rightarrow> int \<Rightarrow> string \<Rightarrow> string \<Rightarrow> batch_state list \<Rightarrow> batch_row \<Rightarrow> bool" where
  "claimedBy t1 batchID firmID token states b \<longleftrightarrow>
     b_id b = batchID \<and> b_firm b = firmID \<and> b_token b = Some token
     \<and> (case b_lease_expires b of None \<Rightarrow> False | Some e \<Rightarrow> t1 < e)
     \<and> b_state b \<in> set states"

text \<open>One transaction: the UPDATE, and \<open>claimMiss\<close> unless it changed exactly one row.\<close>

definition recordOutcome ::
  "int \<Rightarrow> int \<Rightarrow> Claim \<Rightarrow> batch_state list \<Rightarrow> (batch_row \<Rightarrow> batch_row) \<Rightarrow> db \<Rightarrow> db \<times> unit result" where
  "recordOutcome t1 t2 claim states u d =
     (case StoreClaimParts claim of (batchID, firmID, token) \<Rightarrow>
       (case beginFirm firmID of
          Inl e \<Rightarrow> (d, Inl e)
        | Inr _ \<Rightarrow>
          (case updateBatches (claimedBy t1 batchID firmID token states) u d of
             Inl e \<Rightarrow> (d, Inl e)
           | Inr (d', n) \<Rightarrow>
               if n \<noteq> 1 then (d, Inl (claimMiss t2 batchID firmID token d)) else (d', Inr ()))))"

definition nullIfEmpty :: "string \<Rightarrow> string option" where
  "nullIfEmpty s = (if s = '''' then None else Some s)"

definition eventRow :: "int \<Rightarrow> batch_state \<Rightarrow> int \<Rightarrow> string \<Rightarrow> string \<Rightarrow> bool \<Rightarrow> batch_row \<Rightarrow> batch_row" where
  "eventRow t1 newState delay receiptID failureCode setSubmitted b =
     b\<lparr>b_state := newState,
       b_receipt := (if receiptID = '''' then b_receipt b else Some receiptID),
       b_next_action_at := t1 + Microseconds delay,
       b_submitted_at :=
         (if setSubmitted then (case b_submitted_at b of None \<Rightarrow> Some t1 | Some s \<Rightarrow> Some s)
          else b_submitted_at b),
       b_last_error := nullIfEmpty failureCode,
       b_lease_owner := None, b_lease_expires := None, b_token := None\<rparr>"

definition eventTransition ::
  "int \<Rightarrow> int \<Rightarrow> Claim \<Rightarrow> batch_state list \<Rightarrow> batch_state \<Rightarrow> int \<Rightarrow> string \<Rightarrow> string \<Rightarrow> bool
     \<Rightarrow> db \<Rightarrow> db \<times> unit result" where
  "eventTransition t1 t2 claim states newState delay receiptID failureCode setSubmitted d =
     (if c_batchID claim \<le> 0 \<or> \<not> validDelay delay \<or> \<not> validFailureCode failureCode
         \<or> 256 < length receiptID
      then (d, Inl (ErrMsg ''invalid transition event''))
      else recordOutcome t1 t2 claim states
             (eventRow t1 newState delay receiptID failureCode setSubmitted) d)"

definition RecordSubmitAccepted :: "int \<Rightarrow> int \<Rightarrow> Claim \<Rightarrow> SubmitAccepted \<Rightarrow> db \<Rightarrow> db \<times> unit result" where
  "RecordSubmitAccepted t1 t2 claim event d =
     (if sa_ReceiptID event = '''' then (d, Inl (ErrMsg ''missing receipt identity''))
      else eventTransition t1 t2 claim [BSubmitting] BSubmitted (sa_PollDelay event)
             (sa_ReceiptID event) '''' True d)"

definition RecordSubmitUnknown :: "int \<Rightarrow> int \<Rightarrow> Claim \<Rightarrow> RetrySchedule \<Rightarrow> db \<Rightarrow> db \<times> unit result" where
  "RecordSubmitUnknown t1 t2 claim schedule d =
     eventTransition t1 t2 claim [BSubmitting] BSubmitUnknown (rs_Delay schedule) ''''
       (rs_FailureCode schedule) False d"

definition RecordReferenceFound :: "int \<Rightarrow> int \<Rightarrow> Claim \<Rightarrow> ReferenceFound \<Rightarrow> db \<Rightarrow> db \<times> unit result" where
  "RecordReferenceFound t1 t2 claim event d =
     (if rf_ReceiptID event = '''' then (d, Inl (ErrMsg ''missing receipt identity''))
      else eventTransition t1 t2 claim [BSubmitUnknown] BSubmitted (rf_PollDelay event)
             (rf_ReceiptID event) '''' True d)"

definition RecordReferenceNotFound :: "int \<Rightarrow> int \<Rightarrow> Claim \<Rightarrow> RetrySchedule \<Rightarrow> db \<Rightarrow> db \<times> unit result" where
  "RecordReferenceNotFound t1 t2 claim schedule d =
     eventTransition t1 t2 claim [BSubmitUnknown] BPlanned (rs_Delay schedule) ''''
       (rs_FailureCode schedule) False d"

definition RecordAcknowledgmentPending :: "int \<Rightarrow> int \<Rightarrow> Claim \<Rightarrow> RetrySchedule \<Rightarrow> db \<Rightarrow> db \<times> unit result" where
  "RecordAcknowledgmentPending t1 t2 claim schedule d =
     eventTransition t1 t2 claim [BSubmitted, BAwaitingAck] BAwaitingAck (rs_Delay schedule) ''''
       (rs_FailureCode schedule) False d"

definition statusRetryRow :: "int \<Rightarrow> int \<Rightarrow> string \<Rightarrow> batch_row \<Rightarrow> batch_row" where
  "statusRetryRow t1 delay failureCode b =
     b\<lparr>b_next_action_at := t1 + Microseconds delay, b_last_error := nullIfEmpty failureCode,
       b_lease_owner := None, b_lease_expires := None, b_token := None\<rparr>"

definition RecordStatusUnavailable :: "int \<Rightarrow> int \<Rightarrow> Claim \<Rightarrow> RetrySchedule \<Rightarrow> db \<Rightarrow> db \<times> unit result" where
  "RecordStatusUnavailable t1 t2 claim schedule d =
     (if c_batchID claim \<le> 0 \<or> \<not> validDelay (rs_Delay schedule)
         \<or> \<not> validFailureCode (rs_FailureCode schedule)
      then (d, Inl (ErrMsg ''invalid status retry event''))
      else recordOutcome t1 t2 claim [BSubmitUnknown, BAwaitingAck]
             (statusRetryRow t1 (rs_Delay schedule) (rs_FailureCode schedule)) d)"

definition terminalRow :: "int \<Rightarrow> string \<Rightarrow> bool \<Rightarrow> batch_row \<Rightarrow> batch_row" where
  "terminalRow t1 code exhausted b =
     b\<lparr>b_state := BInvariantFailed, b_last_error := Some code,
       b_retry_exhausted_at := (if exhausted then Some t1 else None),
       b_lease_owner := None, b_lease_expires := None, b_token := None\<rparr>"

text \<open>The states outside \<open>('acknowledged','invariant_failed')\<close>.\<close>

definition activeStates :: "batch_state list" where
  "activeStates = [BPlanned, BSubmitting, BSubmitUnknown, BSubmitted, BAwaitingAck]"

definition terminalTransition :: "int \<Rightarrow> int \<Rightarrow> Claim \<Rightarrow> string \<Rightarrow> bool \<Rightarrow> db \<Rightarrow> db \<times> unit result" where
  "terminalTransition t1 t2 claim code exhausted d =
     (if c_batchID claim \<le> 0 \<or> code = '''' \<or> \<not> validFailureCode code
      then (d, Inl (ErrMsg ''invalid terminal event''))
      else recordOutcome t1 t2 claim activeStates (terminalRow t1 code exhausted) d)"

definition RecordRetryExhausted :: "int \<Rightarrow> int \<Rightarrow> Claim \<Rightarrow> string \<Rightarrow> db \<Rightarrow> db \<times> unit result" where
  "RecordRetryExhausted t1 t2 claim code d = terminalTransition t1 t2 claim code True d"

definition FailBatchInvariant :: "int \<Rightarrow> int \<Rightarrow> Claim \<Rightarrow> string \<Rightarrow> db \<Rightarrow> db \<times> unit result" where
  "FailBatchInvariant t1 t2 claim code d = terminalTransition t1 t2 claim code False d"

section \<open>Completing an acknowledgment\<close>

definition isRejectionReason :: "string \<Rightarrow> bool" where
  "isRejectionReason reason \<longleftrightarrow>
     reason = ReasonTINMissing \<or> reason = ReasonTINMalformed \<or> reason = ReasonTINInvalid
     \<or> reason = ReasonAmountInvalid"

text \<open>The filings of a batch in slot order, each with its key as the hexadecimal record ID.\<close>

definition batchFilings :: "int \<Rightarrow> string \<Rightarrow> db \<Rightarrow> (string \<times> int) list" where
  "batchFilings batchID firmID d =
     [(hexEncode (f_key f), f_id f).
        x \<leftarrow> sort_key bf_slot (filter (\<lambda>x. bf_batch x = batchID \<and> bf_firm x = firmID) (db_batch_filings d)),
        f \<leftarrow> filter (\<lambda>f. f_id f = bf_filing x \<and> f_firm f = bf_firm x) (db_filings d)]"

definition outcomeRow :: "int \<Rightarrow> FilingOutcome \<Rightarrow> filing_row \<Rightarrow> filing_row" where
  "outcomeRow t outcome f =
     (if IRSRecordID outcome = '''' \<and> isRejectionReason (RejectionReason outcome)
      then f\<lparr>f_state := FRejected, f_irs_record_id := None,
             f_rejection_reason := Some (RejectionReason outcome), f_acknowledged_at := Some t\<rparr>
      else f\<lparr>f_state := FAccepted, f_irs_record_id := Some (IRSRecordID outcome),
             f_rejection_reason := None, f_acknowledged_at := Some t\<rparr>)"

definition validOutcome :: "FilingOutcome \<Rightarrow> bool" where
  "validOutcome outcome \<longleftrightarrow>
     (IRSRecordID outcome \<noteq> '''' \<and> RejectionReason outcome = '''')
     \<or> (IRSRecordID outcome = '''' \<and> isRejectionReason (RejectionReason outcome))"

text \<open>The loop over the outcomes: \<open>expected\<close> maps a filing key to its filing (a later row wins),
  \<open>seen\<close> holds the keys already used.\<close>

fun settleOutcomes ::
  "int \<Rightarrow> string \<Rightarrow> (string \<times> int) list \<Rightarrow> string list \<Rightarrow> FilingOutcome list \<Rightarrow> filing_row list
     \<Rightarrow> filing_row list result" where
  "settleOutcomes t firmID expected seen [] fs = Inr fs"
| "settleOutcomes t firmID expected seen (outcome # rest) fs =
     (case map_of (rev expected) (FilingKey outcome) of
        None \<Rightarrow> Inl ErrInvariant
      | Some filingID \<Rightarrow>
          if FilingKey outcome \<in> set seen then Inl ErrInvariant
          else if \<not> validOutcome outcome then Inl ErrInvariant
          else (case sql_update filing_update_ok filing_row_ok filing_table_ok
                       (\<lambda>f. f_id f = filingID \<and> f_firm f = firmID \<and> f_state f = FBatched)
                       (outcomeRow t outcome) fs of
                  Inl code \<Rightarrow> Inl (mapError (PgError code))
                | Inr (fs', n) \<Rightarrow>
                    if n \<noteq> 1 then Inl ErrInvariant
                    else settleOutcomes t firmID expected (FilingKey outcome # seen) rest fs'))"

definition acknowledgedRow :: "int \<Rightarrow> batch_row \<Rightarrow> batch_row" where
  "acknowledgedRow t1 b =
     b\<lparr>b_state := BAcknowledged, b_acknowledged_at := Some t1,
       b_lease_owner := None, b_lease_expires := None, b_token := None, b_last_error := None\<rparr>"

definition CompleteAcknowledgment ::
  "int \<Rightarrow> int \<Rightarrow> Claim \<Rightarrow> FilingOutcome list \<Rightarrow> db \<Rightarrow> db \<times> unit result" where
  "CompleteAcknowledgment t1 t2 claim outcomes d =
     (case StoreClaimParts claim of (batchID, firmID, token) \<Rightarrow>
        if batchID \<le> 0 \<or> outcomes = [] then (d, Inl ErrInvariant)
        else (case beginFirm firmID of
          Inl e \<Rightarrow> (d, Inl e)
        | Inr _ \<Rightarrow>
          (let expected = batchFilings batchID firmID d
           in if length (remdups (map fst expected)) \<noteq> length outcomes then (d, Inl ErrInvariant)
              else (case settleOutcomes t1 firmID expected [] outcomes (db_filings d) of
                 Inl e \<Rightarrow> (d, Inl e)
               | Inr fs \<Rightarrow>
                 (case updateBatches (claimedBy t1 batchID firmID token [BSubmitted, BAwaitingAck])
                         (acknowledgedRow t1) (d\<lparr>db_filings := fs\<rparr>) of
                    Inl e \<Rightarrow> (d, Inl e)
                  | Inr (d', n) \<Rightarrow>
                      if n \<noteq> 1 then (d, Inl (claimMiss t2 batchID firmID token d))
                      else (d', Inr ()))))))"

end
