(* ===== verification/Batch_Lifecycle.thy ===== *)
theory Batch_Lifecycle
  imports Batches
begin

text \<open>
  What the batch operations promise: a claim fences every event and is spent by the first
  one that succeeds, a failing operation changes nothing, each row moves along the batch
  state machine, payload and identity never change, receipts are written once, and the
  schema's constraints survive every operation.
\<close>

section \<open>Events as data\<close>

text \<open>The nine outcome methods of \<open>FilingLifecycle\<close>, as one type and its dispatch.\<close>

datatype lifecycle_event =
    EvSubmitAccepted SubmitAccepted
  | EvSubmitUnknown RetrySchedule
  | EvReferenceFound ReferenceFound
  | EvReferenceNotFound RetrySchedule
  | EvAcknowledgmentPending RetrySchedule
  | EvStatusUnavailable RetrySchedule
  | EvCompleteAcknowledgment "FilingOutcome list"
  | EvRetryExhausted string
  | EvFailInvariant string

fun applyEvent :: "int \<Rightarrow> int \<Rightarrow> Claim \<Rightarrow> lifecycle_event \<Rightarrow> db \<Rightarrow> db \<times> unit result" where
  "applyEvent t1 t2 c (EvSubmitAccepted e) d = RecordSubmitAccepted t1 t2 c e d"
| "applyEvent t1 t2 c (EvSubmitUnknown s) d = RecordSubmitUnknown t1 t2 c s d"
| "applyEvent t1 t2 c (EvReferenceFound e) d = RecordReferenceFound t1 t2 c e d"
| "applyEvent t1 t2 c (EvReferenceNotFound s) d = RecordReferenceNotFound t1 t2 c s d"
| "applyEvent t1 t2 c (EvAcknowledgmentPending s) d = RecordAcknowledgmentPending t1 t2 c s d"
| "applyEvent t1 t2 c (EvStatusUnavailable s) d = RecordStatusUnavailable t1 t2 c s d"
| "applyEvent t1 t2 c (EvCompleteAcknowledgment os) d = CompleteAcknowledgment t1 t2 c os d"
| "applyEvent t1 t2 c (EvRetryExhausted code) d = RecordRetryExhausted t1 t2 c code d"
| "applyEvent t1 t2 c (EvFailInvariant code) d = FailBatchInvariant t1 t2 c code d"

text \<open>The row an event writes and the states it accepts.\<close>

fun eventUpdate :: "int \<Rightarrow> lifecycle_event \<Rightarrow> batch_row \<Rightarrow> batch_row" where
  "eventUpdate t1 (EvSubmitAccepted e) = eventRow t1 BSubmitted (sa_PollDelay e) (sa_ReceiptID e) '''' True"
| "eventUpdate t1 (EvSubmitUnknown s) = eventRow t1 BSubmitUnknown (rs_Delay s) '''' (rs_FailureCode s) False"
| "eventUpdate t1 (EvReferenceFound e) = eventRow t1 BSubmitted (rf_PollDelay e) (rf_ReceiptID e) '''' True"
| "eventUpdate t1 (EvReferenceNotFound s) = eventRow t1 BPlanned (rs_Delay s) '''' (rs_FailureCode s) False"
| "eventUpdate t1 (EvAcknowledgmentPending s) = eventRow t1 BAwaitingAck (rs_Delay s) '''' (rs_FailureCode s) False"
| "eventUpdate t1 (EvStatusUnavailable s) = statusRetryRow t1 (rs_Delay s) (rs_FailureCode s)"
| "eventUpdate t1 (EvCompleteAcknowledgment os) = acknowledgedRow t1"
| "eventUpdate t1 (EvRetryExhausted code) = terminalRow t1 code True"
| "eventUpdate t1 (EvFailInvariant code) = terminalRow t1 code False"

fun eventStates :: "lifecycle_event \<Rightarrow> batch_state list" where
  "eventStates (EvSubmitAccepted e) = [BSubmitting]"
| "eventStates (EvSubmitUnknown s) = [BSubmitting]"
| "eventStates (EvReferenceFound e) = [BSubmitUnknown]"
| "eventStates (EvReferenceNotFound s) = [BSubmitUnknown]"
| "eventStates (EvAcknowledgmentPending s) = [BSubmitted, BAwaitingAck]"
| "eventStates (EvStatusUnavailable s) = [BSubmitUnknown, BAwaitingAck]"
| "eventStates (EvCompleteAcknowledgment os) = [BSubmitted, BAwaitingAck]"
| "eventStates (EvRetryExhausted code) = activeStates"
| "eventStates (EvFailInvariant code) = activeStates"

text \<open>The receipt an event must carry.\<close>

fun eventWellFormed :: "lifecycle_event \<Rightarrow> bool" where
  "eventWellFormed (EvSubmitAccepted e) = (sa_ReceiptID e \<noteq> '''')"
| "eventWellFormed (EvReferenceFound e) = (rf_ReceiptID e \<noteq> '''')"
| "eventWellFormed _ = True"

section \<open>The shape of a successful event\<close>

lemma updateBatches_Inr:
  assumes "updateBatches p u d = Inr (d', n)"
  shows "d' = d\<lparr>db_batches := map (\<lambda>r. if p r then u r else r) (db_batches d)\<rparr>"
    and "n = length (filter p (db_batches d))"
    and "\<And>r. r \<in> set (db_batches d) \<Longrightarrow> p r \<Longrightarrow> batch_update_ok r (u r) \<and> batch_row_ok (u r)"
    and "batch_table_ok (db_batches d')"
  using assms by (auto simp: updateBatches_def split: sum.splits dest: sql_update_Inr)

definition claimRowOf :: "int \<Rightarrow> Claim \<Rightarrow> batch_state list \<Rightarrow> batch_row \<Rightarrow> bool" where
  "claimRowOf t1 c states = claimedBy t1 (c_batchID c) (c_firmID c) (c_token c) states"

lemma recordOutcome_Inr:
  assumes "recordOutcome t1 t2 c states u d = (d', Inr ())"
  shows "updateBatches (claimRowOf t1 c states) u d = Inr (d', 1)"
  using assms
  by (auto simp: recordOutcome_def StoreClaimParts_def claimRowOf_def split: sum.splits if_splits)

lemma recordOutcome_Inl:
  "recordOutcome t1 t2 c states u d = (d', Inl e) \<Longrightarrow> d' = d"
  by (auto simp: recordOutcome_def StoreClaimParts_def split: sum.splits if_splits)

lemmas event_defs = RecordSubmitAccepted_def RecordSubmitUnknown_def RecordReferenceFound_def
  RecordReferenceNotFound_def RecordAcknowledgmentPending_def RecordStatusUnavailable_def
  RecordRetryExhausted_def FailBatchInvariant_def eventTransition_def terminalTransition_def

lemma CompleteAcknowledgment_Inr:
  assumes "CompleteAcknowledgment t1 t2 c outcomes d = (d', Inr ())"
  obtains fs where
    "settleOutcomes t1 (c_firmID c) (batchFilings (c_batchID c) (c_firmID c) d) [] outcomes (db_filings d) = Inr fs"
    "length (remdups (map fst (batchFilings (c_batchID c) (c_firmID c) d))) = length outcomes"
    "updateBatches (claimRowOf t1 c [BSubmitted, BAwaitingAck]) (acknowledgedRow t1)
       (d\<lparr>db_filings := fs\<rparr>) = Inr (d', 1)"
  using assms
  by (auto simp: CompleteAcknowledgment_def StoreClaimParts_def claimRowOf_def Let_def
      split: sum.splits if_splits)

lemma CompleteAcknowledgment_Inl:
  "CompleteAcknowledgment t1 t2 c outcomes d = (d', Inl e) \<Longrightarrow> d' = d"
  by (auto simp: CompleteAcknowledgment_def StoreClaimParts_def Let_def split: sum.splits if_splits)

lemma applyEvent_Inl: "applyEvent t1 t2 c ev d = (d', Inl e) \<Longrightarrow> d' = d"
  by (cases ev) (auto simp: event_defs split: if_splits dest: recordOutcome_Inl CompleteAcknowledgment_Inl)

text \<open>Every event succeeds only through one UPDATE of exactly one claimed row.\<close>

lemma applyEvent_Inr:
  assumes "applyEvent t1 t2 c ev d = (d', Inr ())"
  obtains d1 where "db_batches d1 = db_batches d"
    "d1 = d\<lparr>db_filings := db_filings d'\<rparr>"
    "updateBatches (claimRowOf t1 c (eventStates ev)) (eventUpdate t1 ev) d1 = Inr (d', 1)"
    "eventWellFormed ev"
proof (cases ev)
  case (EvCompleteAcknowledgment os)
  with assms have "CompleteAcknowledgment t1 t2 c os d = (d', Inr ())" by simp
  then obtain fs where fs: "updateBatches (claimRowOf t1 c [BSubmitted, BAwaitingAck]) (acknowledgedRow t1)
       (d\<lparr>db_filings := fs\<rparr>) = Inr (d', 1)"
    by (rule CompleteAcknowledgment_Inr)
  then have "db_filings d' = fs" by (auto dest: updateBatches_Inr(1))
  with fs EvCompleteAcknowledgment show thesis by (intro that [of "d\<lparr>db_filings := fs\<rparr>"]) auto
qed (use assms in \<open>auto simp: event_defs split: if_splits
       dest!: recordOutcome_Inr intro!: that dest: updateBatches_Inr(1)\<close>)

lemma eventUpdate_id [simp]: "b_id (eventUpdate t1 ev b) = b_id b"
  by (cases ev) (auto simp: eventRow_def statusRetryRow_def acknowledgedRow_def terminalRow_def)

lemma eventUpdate_releases [simp]:
  "b_token (eventUpdate t1 ev b) = None"
  "b_lease_owner (eventUpdate t1 ev b) = None"
  "b_lease_expires (eventUpdate t1 ev b) = None"
  by (cases ev; simp add: eventRow_def statusRetryRow_def acknowledgedRow_def terminalRow_def)+

lemma unique_row:
  assumes "distinct (map b_id rows)" and "b \<in> set rows" and "b' \<in> set rows" and "b_id b = b_id b'"
  shows "b = b'"
  using assms by (auto simp: distinct_map dest: inj_onD)

lemma applyEvent_row:
  assumes "applyEvent t1 t2 c ev d = (d', Inr ())"
  obtains b fs where "b \<in> set (db_batches d)" "claimRowOf t1 c (eventStates ev) b"
    "batch_update_ok b (eventUpdate t1 ev b)" "batch_row_ok (eventUpdate t1 ev b)"
    "db_batches d' = map (\<lambda>r. if b_id r = b_id b then eventUpdate t1 ev r else r) (db_batches d)"
    "distinct (map b_id (db_batches d))" "batch_table_ok (db_batches d')" "eventWellFormed ev"
    "d' = d\<lparr>db_filings := fs,
       db_batches := map (\<lambda>r. if b_id r = b_id b then eventUpdate t1 ev r else r) (db_batches d)\<rparr>"
proof -
  from assms obtain d1 where d1: "db_batches d1 = db_batches d" "d1 = d\<lparr>db_filings := db_filings d'\<rparr>"
    and u: "updateBatches (claimRowOf t1 c (eventStates ev)) (eventUpdate t1 ev) d1 = Inr (d', 1)"
    and wf: "eventWellFormed ev"
    by (rule applyEvent_Inr)
  let ?p = "claimRowOf t1 c (eventStates ev)"
  note facts = updateBatches_Inr [OF u, unfolded d1(1)]
  from facts(1) d1(2) obtain fs where
    d': "d' = d\<lparr>db_filings := fs, db_batches := map (\<lambda>r. if ?p r then eventUpdate t1 ev r else r) (db_batches d)\<rparr>"
    by metis
  then have rows: "db_batches d' = map (\<lambda>r. if ?p r then eventUpdate t1 ev r else r) (db_batches d)"
    by simp
  from facts(2) have "filter ?p (db_batches d) \<noteq> []" by auto
  then obtain b where b: "b \<in> set (db_batches d)" "?p b" by (auto simp: filter_empty_conv)
  have "map b_id (db_batches d') = map b_id (db_batches d)" using rows by simp
  with facts(4) have dist: "distinct (map b_id (db_batches d))" by (metis batch_table_ok_def)
  have "?p r \<longleftrightarrow> b_id r = b_id b" if "r \<in> set (db_batches d)" for r
    using unique_row [OF dist that b(1)] b(2) by (auto simp: claimRowOf_def claimedBy_def)
  then have same: "map (\<lambda>r. if ?p r then eventUpdate t1 ev r else r) (db_batches d)
      = map (\<lambda>r. if b_id r = b_id b then eventUpdate t1 ev r else r) (db_batches d)"
    by simp
  show thesis
    by (rule that [of b fs, OF b _ _ rows [unfolded same] dist facts(4) wf d' [unfolded same]])
      (use facts(3) [OF b] in auto)
qed

section \<open>Fencing\<close>

locale fenced_events =
  fixes fire :: "'t \<Rightarrow> 'c \<Rightarrow> 'e \<Rightarrow> 's \<Rightarrow> 's \<times> unit result"
    and holds :: "'s \<Rightarrow> 'c \<Rightarrow> bool"
  assumes failed_unchanged: "fire t c e s = (s', Inl err) \<Longrightarrow> s' = s"
    and needs_claim: "fire t c e s = (s', Inr ()) \<Longrightarrow> holds s c"
    and spends_claim: "fire t c e s = (s', Inr ()) \<Longrightarrow> \<not> holds s' c"

text \<open>A history of one claim: events fired under it, and steps of the rest of the system. The
  result counts the events that succeed.\<close>

datatype ('s, 't, 'e) claim_step = Env "'s \<Rightarrow> 's" | Fire 't 'e

fun fireAll :: "('t \<Rightarrow> 'c \<Rightarrow> 'e \<Rightarrow> 's \<Rightarrow> 's \<times> unit result) \<Rightarrow> 'c \<Rightarrow> ('s, 't, 'e) claim_step list \<Rightarrow> 's \<Rightarrow> 's \<times> nat" where
  "fireAll fire c [] s = (s, 0)"
| "fireAll fire c (Env g # rest) s = fireAll fire c rest (g s)"
| "fireAll fire c (Fire t e # rest) s =
     (case fire t c e s of
        (s', Inl _) \<Rightarrow> fireAll fire c rest s'
      | (s', Inr _) \<Rightarrow> (case fireAll fire c rest s' of (s'', n) \<Rightarrow> (s'', Suc n)))"

text \<open>The rest of the system never takes the claim again once it is spent.\<close>

definition neverTakes :: "('s \<Rightarrow> 'c \<Rightarrow> bool) \<Rightarrow> 'c \<Rightarrow> ('s, 't, 'e) claim_step list \<Rightarrow> bool" where
  "neverTakes holds c steps \<longleftrightarrow> (\<forall>g s. Env g \<in> set steps \<longrightarrow> holds (g s) c \<longrightarrow> holds s c)"

context fenced_events
begin

lemma stale_no_effect: "\<not> holds s c \<Longrightarrow> \<exists>err. fire t c e s = (s, Inl err)"
proof -
  assume "\<not> holds s c"
  obtain s' r where r: "fire t c e s = (s', r)" by (cases "fire t c e s") auto
  with \<open>\<not> holds s c\<close> needs_claim obtain err where "r = Inl err" by (cases r) fastforce+
  with r failed_unchanged show ?thesis by blast
qed

lemma fireAll_stale:
  "\<not> holds s c \<Longrightarrow> neverTakes holds c steps \<Longrightarrow> snd (fireAll fire c steps s) = 0"
proof (induction steps arbitrary: s)
  case (Cons x steps)
  then have rest: "neverTakes holds c steps" by (auto simp: neverTakes_def)
  show ?case
  proof (cases x)
    case (Env g)
    with Cons.prems have "\<not> holds (g s) c" by (auto simp: neverTakes_def)
    with Cons.IH rest Env show ?thesis by simp
  next
    case (Fire t e)
    obtain err where "fire t c e s = (s, Inl err)" using stale_no_effect [OF Cons.prems(1)] by blast
    with Cons.IH [OF Cons.prems(1) rest] Fire show ?thesis by simp
  qed
qed simp

lemma claim_used_at_most_once:
  "neverTakes holds c steps \<Longrightarrow> snd (fireAll fire c steps s) \<le> 1"
proof (induction steps arbitrary: s)
  case (Cons x steps)
  then have rest: "neverTakes holds c steps" by (auto simp: neverTakes_def)
  show ?case
  proof (cases x)
    case (Env g)
    with Cons.IH [OF rest] show ?thesis by simp
  next
    case (Fire t e)
    obtain s' r where r: "fire t c e s = (s', r)" by (cases "fire t c e s") auto
    show ?thesis
    proof (cases r)
      case (Inl err)
      with Cons.IH [OF rest] Fire r show ?thesis by simp
    next
      case (Inr u)
      with r have "fire t c e s = (s', Inr ())" by simp
      then have "\<not> holds s' c" by (rule spends_claim)
      then have "snd (fireAll fire c steps s') = 0" using rest by (rule fireAll_stale)
      with Inr Fire r show ?thesis by (cases "fireAll fire c steps s'") simp
    qed
  qed
qed simp

end

definition holdsClaim :: "db \<Rightarrow> Claim \<Rightarrow> bool" where
  "holdsClaim d c \<longleftrightarrow>
     (\<exists>b \<in> set (db_batches d). b_id b = c_batchID c \<and> b_firm b = c_firmID c \<and> b_token b = Some (c_token c))"

lemma applyEvent_spends:
  assumes "applyEvent t1 t2 c ev d = (d', Inr ())"
  shows "holdsClaim d c \<and> \<not> holdsClaim d' c"
proof -
  from assms obtain b where b: "b \<in> set (db_batches d)" "claimRowOf t1 c (eventStates ev) b"
    and rows: "db_batches d' = map (\<lambda>r. if b_id r = b_id b then eventUpdate t1 ev r else r) (db_batches d)"
    by (rule applyEvent_row)
  from b have "holdsClaim d c" by (auto simp: holdsClaim_def claimRowOf_def claimedBy_def)
  moreover from b(2) have "b_id b = c_batchID c" by (simp add: claimRowOf_def claimedBy_def)
  with rows have "\<not> holdsClaim d' c" by (auto simp: holdsClaim_def)
  ultimately show ?thesis ..
qed

interpretation lifecycle: fenced_events "\<lambda>(t1, t2). applyEvent t1 t2" holdsClaim
  by unfold_locales (auto dest: applyEvent_Inl applyEvent_spends)

section \<open>The state machine\<close>

inductive batch_next :: "batch_state \<Rightarrow> batch_state \<Rightarrow> bool" where
  claim_planned: "batch_next BPlanned BSubmitting"
| claim_lost: "batch_next BSubmitting BSubmitUnknown"
| submit_accepted: "batch_next BSubmitting BSubmitted"
| reference_found: "batch_next BSubmitUnknown BSubmitted"
| reference_absent: "batch_next BSubmitUnknown BPlanned"
| lookup_again: "batch_next BSubmitUnknown BSubmitUnknown"
| poll: "batch_next BSubmitted BAwaitingAck"
| poll_again: "batch_next BAwaitingAck BAwaitingAck"
| acknowledged: "st \<in> {BSubmitted, BAwaitingAck} \<Longrightarrow> batch_next st BAcknowledged"
| failed: "st \<notin> {BAcknowledged, BInvariantFailed} \<Longrightarrow> batch_next st BInvariantFailed"

inductive_simps batch_next_simps [simp]:
  "batch_next st BPlanned" "batch_next st BSubmitting" "batch_next st BSubmitUnknown"
  "batch_next st BSubmitted" "batch_next st BAwaitingAck" "batch_next st BAcknowledged"
  "batch_next st BInvariantFailed"

inductive_cases from_terminal: "batch_next BAcknowledged st" "batch_next BInvariantFailed st"

text \<open>One row before and after any number of operations.\<close>

definition terminalState :: "batch_state \<Rightarrow> bool" where
  "terminalState st \<longleftrightarrow> st \<in> {BAcknowledged, BInvariantFailed}"

definition rowEvolves :: "batch_row \<Rightarrow> batch_row \<Rightarrow> bool" where
  "rowEvolves b b' \<longleftrightarrow>
     b_id b' = b_id b \<and> b_firm b' = b_firm b \<and> b_client b' = b_client b \<and> b_tax_year b' = b_tax_year b
     \<and> b_utid b' = b_utid b \<and> b_xml b' = b_xml b \<and> b_hash b' = b_hash b
     \<and> batch_next\<^sup>*\<^sup>* (b_state b) (b_state b')
     \<and> (\<forall>r. b_receipt b = Some r \<longrightarrow> b_receipt b' = Some r)
     \<and> b_attempts b \<le> b_attempts b'
     \<and> (terminalState (b_state b) \<longrightarrow> b' = b)"

lemma rowEvolves_refl [simp]: "rowEvolves b b"
  by (simp add: rowEvolves_def)

lemma rowEvolves_trans: "rowEvolves a b \<Longrightarrow> rowEvolves b c \<Longrightarrow> rowEvolves a c"
  unfolding rowEvolves_def by (auto elim: rtranclp_trans)

definition batchesEvolve :: "batch_row list \<Rightarrow> batch_row list \<Rightarrow> bool" where
  "batchesEvolve bs bs' \<longleftrightarrow> (\<forall>b \<in> set bs. \<exists>b' \<in> set bs'. rowEvolves b b')"

lemma batchesEvolve_refl [simp]: "batchesEvolve bs bs"
  by (auto simp: batchesEvolve_def intro: rowEvolves_refl)

lemma batchesEvolve_trans: "batchesEvolve as bs \<Longrightarrow> batchesEvolve bs cs \<Longrightarrow> batchesEvolve as cs"
  unfolding batchesEvolve_def by (meson rowEvolves_trans)

lemma batchesEvolve_append [simp]: "batchesEvolve bs (bs @ new)"
  by (auto simp: batchesEvolve_def intro: rowEvolves_refl)

lemma batchesEvolve_map:
  assumes "\<And>r. r \<in> set bs \<Longrightarrow> p r \<Longrightarrow> rowEvolves r (u r)"
  shows "batchesEvolve bs (map (\<lambda>r. if p r then u r else r) bs)"
  unfolding batchesEvolve_def
proof
  fix b assume b: "b \<in> set bs"
  let ?b' = "if p b then u b else b"
  have "rowEvolves b ?b'" using assms b by simp
  moreover have "?b' \<in> set (map (\<lambda>r. if p r then u r else r) bs)" using b by auto
  ultimately show "\<exists>b' \<in> set (map (\<lambda>r. if p r then u r else r) bs). rowEvolves b b'" by blast
qed

lemma receipt_states:
  "batch_row_ok b \<Longrightarrow> b_state b \<in> {BPlanned, BSubmitting, BSubmitUnknown} \<Longrightarrow> b_receipt b = None"
  by (auto simp: batch_row_ok_def receiptStates_def)

lemma eventUpdate_next:
  "b_state b \<in> set (eventStates ev) \<Longrightarrow> batch_next (b_state b) (b_state (eventUpdate t1 ev b))"
  by (cases ev) (auto simp: eventRow_def statusRetryRow_def acknowledgedRow_def terminalRow_def activeStates_def)

lemma eventUpdate_receipt:
  assumes "batch_row_ok b" and "b_state b \<in> set (eventStates ev)" and "b_receipt b = Some r"
  shows "b_receipt (eventUpdate t1 ev b) = Some r"
  using assms receipt_states [of b]
  by (cases ev) (auto simp: eventRow_def statusRetryRow_def acknowledgedRow_def terminalRow_def)

lemma eventUpdate_attempts [simp]: "b_attempts (eventUpdate t1 ev b) = b_attempts b"
  by (cases ev) (auto simp: eventRow_def statusRetryRow_def acknowledgedRow_def terminalRow_def)

lemma eventStates_active: "b_state b \<in> set (eventStates ev) \<Longrightarrow> \<not> terminalState (b_state b)"
  by (cases ev) (auto simp: terminalState_def activeStates_def)

lemma eventUpdate_evolves:
  assumes "batch_row_ok b" and "b_state b \<in> set (eventStates ev)"
    and "batch_update_ok b (eventUpdate t1 ev b)"
  shows "rowEvolves b (eventUpdate t1 ev b)"
  using assms eventUpdate_next [OF assms(2), of t1] eventUpdate_receipt [OF assms(1,2)]
    eventStates_active [OF assms(2)]
  by (auto simp: rowEvolves_def batch_update_ok_def)

lemma applyEvent_evolves:
  assumes "\<forall>b \<in> set (db_batches d). batch_row_ok b" and "applyEvent t1 t2 c ev d = (d', r)"
  shows "batchesEvolve (db_batches d) (db_batches d')"
proof (cases r)
  case (Inl e)
  with assms(2) show ?thesis by (auto dest: applyEvent_Inl)
next
  case (Inr u)
  with assms(2) have "applyEvent t1 t2 c ev d = (d', Inr ())" by simp
  then obtain b where b: "b \<in> set (db_batches d)" "claimRowOf t1 c (eventStates ev) b"
    "batch_update_ok b (eventUpdate t1 ev b)" and dist: "distinct (map b_id (db_batches d))"
    and rows: "db_batches d' = map (\<lambda>r. if b_id r = b_id b then eventUpdate t1 ev r else r) (db_batches d)"
    by (rule applyEvent_row)
  from b(2) have "b_state b \<in> set (eventStates ev)" by (simp add: claimRowOf_def claimedBy_def)
  with b assms(1) have ev: "rowEvolves b (eventUpdate t1 ev b)" by (auto intro: eventUpdate_evolves)
  show ?thesis unfolding rows
  proof (rule batchesEvolve_map)
    fix r assume "r \<in> set (db_batches d)" "b_id r = b_id b"
    with unique_row [OF dist _ b(1)] ev show "rowEvolves r (eventUpdate t1 ev r)" by blast
  qed
qed

section \<open>Claims\<close>

lemma claimCandidate_Some:
  assumes "claimCandidate now firmID locked rows = Some b"
  shows "b \<in> set rows" and "claimDue now firmID locked b"
    and "\<And>x. x \<in> set rows \<Longrightarrow> claimDue now firmID locked x \<Longrightarrow>
           (b_next_action_at b, b_id b) \<le> (b_next_action_at x, b_id x)"
proof -
  let ?k = "\<lambda>b. (b_next_action_at b, b_id b)"
  let ?s = "sort_key ?k (filter (claimDue now firmID locked) rows)"
  from assms obtain rest where s: "?s = b # rest"
    by (auto simp: claimCandidate_def split: list.splits)
  have members: "set (b # rest) = set (filter (claimDue now firmID locked) rows)"
    using s by (metis set_sort)
  then have "b \<in> set (filter (claimDue now firmID locked) rows)" by (metis list.set_intros(1))
  then show "b \<in> set rows" and "claimDue now firmID locked b" by simp_all
  show "?k b \<le> ?k x" if "x \<in> set rows" "claimDue now firmID locked x" for x
  proof -
    have "sorted (map ?k ?s)" by (rule sorted_sort_key)
    with s have "\<forall>y \<in> set rest. ?k b \<le> ?k y" by simp
    moreover from that members have "x \<in> set (b # rest)" by simp
    ultimately show ?thesis by auto
  qed
qed

lemma claimCandidate_None:
  "claimCandidate now firmID locked rows = None \<longleftrightarrow> (\<forall>b \<in> set rows. \<not> claimDue now firmID locked b)"
proof -
  let ?s = "sort_key (\<lambda>b. (b_next_action_at b, b_id b)) (filter (claimDue now firmID locked) rows)"
  have "set ?s = set (filter (claimDue now firmID locked) rows)" by (rule set_sort)
  then have "?s = [] \<longleftrightarrow> (\<forall>b \<in> set rows. \<not> claimDue now firmID locked b)"
    by (metis (no_types, lifting) filter_empty_conv set_empty)
  moreover have "claimCandidate now firmID locked rows = None \<longleftrightarrow> ?s = []"
    by (simp add: claimCandidate_def split: list.split)
  ultimately show ?thesis by blast
qed

text \<open>What a claim can do to the database and what it returns.\<close>

lemma ClaimNextBatch_cases:
  assumes "ClaimNextBatch now locked entropy cmd d = (d', r)"
  obtains
    (unchanged) "d' = d" "(\<exists>e. r = Inl e) \<or> (r = Inr None
                   \<and> (\<forall>b \<in> set (db_batches d). \<not> claimDue now (clm_FirmID cmd) locked b))"
  | (claimed) b token action where
      "b \<in> set (db_batches d)" "claimDue now (clm_FirmID cmd) locked b" "newClaimToken entropy = Some token"
      "updateBatches (\<lambda>x. b_id x = b_id b)
         (claimRow now (clm_WorkerID cmd) (Microseconds (clm_LeaseDuration cmd)) token) d = Inr (d', 1)"
      "sha256 (b_xml b) = b_hash b" "claimAction (claimState (b_state b)) = Inr action"
      "r = Inr (Some (claimWork action (clm_FirmID cmd) token
             (claimRow now (clm_WorkerID cmd) (Microseconds (clm_LeaseDuration cmd)) token b)))"
      "claimCandidate now (clm_FirmID cmd) locked (db_batches d) = Some b"
      "0 < clm_LeaseDuration cmd"
  | (mismatch) b token d1 n where
      "b \<in> set (db_batches d)" "claimDue now (clm_FirmID cmd) locked b"
      "updateBatches (\<lambda>x. b_id x = b_id b)
         (claimRow now (clm_WorkerID cmd) (Microseconds (clm_LeaseDuration cmd)) token) d = Inr (d1, 1)"
      "updateBatches (\<lambda>x. b_id x = b_id b \<and> b_firm x = clm_FirmID cmd) hashMismatchRow d1 = Inr (d', n)"
      "sha256 (b_xml b) \<noteq> b_hash b" "r = Inl ErrInvariant" "newClaimToken entropy = Some token"
proof (cases "d' = d \<and> ((\<exists>e. r = Inl e) \<or> (r = Inr None
                   \<and> (\<forall>b \<in> set (db_batches d). \<not> claimDue now (clm_FirmID cmd) locked b)))")
  case True
  then show thesis using unchanged by blast
next
  case False
  let ?cand = "claimCandidate now (clm_FirmID cmd) locked (db_batches d)"
  from False assms obtain token where tok: "newClaimToken entropy = Some token"
    and begin_ok: "beginFirm (clm_FirmID cmd) = Inr ()"
    and pos: "\<not> (clm_WorkerID cmd = '''' \<or> clm_LeaseDuration cmd \<le> 0)"
    by (auto simp: ClaimNextBatch_def Let_def split: if_splits option.splits sum.splits)
  have "?cand \<noteq> None"
  proof
    assume "?cand = None"
    with assms tok begin_ok pos have "d' = d" "r = Inr None" by (auto simp: ClaimNextBatch_def)
    with False \<open>?cand = None\<close> show False by (simp add: claimCandidate_None)
  qed
  then obtain b where cand: "?cand = Some b" by blast
  note b = claimCandidate_Some(1,2) [OF cand]
  let ?u = "claimRow now (clm_WorkerID cmd) (Microseconds (clm_LeaseDuration cmd)) token"
  have keep: "b_id (?u b) = b_id b" "b_xml (?u b) = b_xml b" "b_hash (?u b) = b_hash b"
    "b_state (?u b) = claimState (b_state b)"
    by (simp_all add: claimRow_def)
  obtain d1 n where u: "updateBatches (\<lambda>x. b_id x = b_id b) ?u d = Inr (d1, n)"
    using False assms tok begin_ok pos cand
    by (cases "updateBatches (\<lambda>x. b_id x = b_id b) ?u d") (auto simp: ClaimNextBatch_def Let_def)
  from updateBatches_Inr [OF u] have "distinct (map b_id (db_batches d1))"
    and ids: "map b_id (db_batches d1) = map b_id (db_batches d)"
    by (auto simp: batch_table_ok_def claimRow_def)
  then have "filter (\<lambda>x. b_id x = b_id b) (db_batches d) = [b]"
    using filter_unique_key [of b_id "db_batches d" b] b by simp
  with updateBatches_Inr(2) [OF u] have n: "n = 1" by simp
  have len: "length (b_hash (?u b)) = 32"
    using updateBatches_Inr(3) [OF u b(1)] by (simp add: batch_row_ok_def)
  show thesis
  proof (cases "sha256 (b_xml b) = b_hash b")
    case True
    with False assms tok begin_ok pos cand u len keep obtain action where
      "claimAction (claimState (b_state b)) = Inr action"
      by (cases "claimAction (claimState (b_state b))") (auto simp: ClaimNextBatch_def Let_def)
    with True False assms tok begin_ok pos cand u n len keep b show thesis
      by (intro claimed [of b token action]) (auto simp: ClaimNextBatch_def Let_def)
  next
    case mis: False
    from False assms tok begin_ok pos cand u len keep mis obtain d2 m where
      "updateBatches (\<lambda>x. b_id x = b_id b \<and> b_firm x = clm_FirmID cmd) hashMismatchRow d1 = Inr (d2, m)"
      by (cases "updateBatches (\<lambda>x. b_id x = b_id b \<and> b_firm x = clm_FirmID cmd) hashMismatchRow d1")
        (auto simp: ClaimNextBatch_def Let_def)
    with mis assms tok begin_ok pos cand u n len keep b show thesis
      by (intro mismatch [of b token d1 m]) (auto simp: ClaimNextBatch_def Let_def)
  qed
qed

lemma claimRow_evolves:
  assumes "claimDue now firmID locked b" and "batch_update_ok b (claimRow now w l token b)"
  shows "rowEvolves b (claimRow now w l token b)"
proof -
  have "batch_next\<^sup>*\<^sup>* (b_state b) (claimState (b_state b))"
    by (cases "b_state b") (auto simp: claimState_def intro!: r_into_rtranclp)
  with assms show ?thesis
    by (auto simp: rowEvolves_def claimRow_def claimDue_def terminalState_def)
qed

lemma hashMismatchRow_evolves:
  assumes "\<not> terminalState (b_state b)"
  shows "rowEvolves b (hashMismatchRow b)"
  using assms by (auto simp: rowEvolves_def hashMismatchRow_def terminalState_def intro!: r_into_rtranclp)

lemma updateBatches_evolves:
  assumes "updateBatches p u d = Inr (d', n)"
    and "\<And>r. r \<in> set (db_batches d) \<Longrightarrow> p r \<Longrightarrow> rowEvolves r (u r)"
  shows "batchesEvolve (db_batches d) (db_batches d')"
  using updateBatches_Inr(1) [OF assms(1)] batchesEvolve_map [of "db_batches d" p u] assms(2) by simp

lemma updateBatches_dist:
  assumes "updateBatches p u d = Inr (d', n)" and "\<And>r. b_id (u r) = b_id r"
  shows "distinct (map b_id (db_batches d))"
proof -
  have "map b_id (db_batches d') = map b_id (db_batches d)"
    using updateBatches_Inr(1) [OF assms(1)] assms(2) by simp
  with updateBatches_Inr(4) [OF assms(1)] show ?thesis by (metis batch_table_ok_def)
qed

lemma ClaimNextBatch_evolves:
  assumes "ClaimNextBatch now locked entropy cmd d = (d', r)"
  shows "batchesEvolve (db_batches d) (db_batches d')"
  using assms
proof (cases rule: ClaimNextBatch_cases)
  case unchanged
  then show ?thesis by simp
next
  case (claimed b token action)
  let ?u = "claimRow now (clm_WorkerID cmd) (Microseconds (clm_LeaseDuration cmd)) token"
  have dist: "distinct (map b_id (db_batches d))"
    by (rule updateBatches_dist [OF claimed(4)]) (simp add: claimRow_def)
  show ?thesis
    using updateBatches_Inr(3) [OF claimed(4)] unique_row [OF dist _ claimed(1)] claimed(2)
    by (intro updateBatches_evolves [OF claimed(4)]) (blast intro: claimRow_evolves)
next
  case (mismatch b token d1 n)
  let ?u = "claimRow now (clm_WorkerID cmd) (Microseconds (clm_LeaseDuration cmd)) token"
  have dist: "distinct (map b_id (db_batches d))"
    by (rule updateBatches_dist [OF mismatch(3)]) (simp add: claimRow_def)
  have step1: "batchesEvolve (db_batches d) (db_batches d1)"
    using updateBatches_Inr(3) [OF mismatch(3)] unique_row [OF dist _ mismatch(1)] mismatch(2)
    by (intro updateBatches_evolves [OF mismatch(3)]) (blast intro: claimRow_evolves)
  have "\<not> terminalState (b_state x)" if x: "x \<in> set (db_batches d1)" "b_id x = b_id b" for x
  proof -
    from x updateBatches_Inr(1) [OF mismatch(3)] obtain y where y: "y \<in> set (db_batches d)"
      "x = (if b_id y = b_id b then ?u y else y)" by auto
    with x(2) have "b_id y = b_id b" by (auto simp: claimRow_def split: if_splits)
    with unique_row [OF dist y(1) mismatch(1)] y have "x = ?u b" by simp
    with mismatch(2) show ?thesis
      by (cases "b_state b") (auto simp: claimRow_def claimState_def terminalState_def claimDue_def)
  qed
  then have "batchesEvolve (db_batches d1) (db_batches d')"
    by (intro updateBatches_evolves [OF mismatch(4)]) (blast intro: hashMismatchRow_evolves)
  with step1 show ?thesis by (rule batchesEvolve_trans)
qed

end
