(* ===== verification/Planning.thy ===== *)
theory Planning
  imports Batches
begin

text \<open>
  \<open>PlanBatches\<close> of \<open>postgres/internal/store/filing.go\<close>: the ready filings of a
  determination are grouped into batches of at most 100 filings of one client, each batch
  gets its deterministic identity, its canonical payload and the payload's hash, and the
  filings become \<open>batched\<close>, all in one transaction. The theorems follow the definitions:
  grouping is a maximal partition, and a successful plan leaves nothing to plan.
\<close>

section \<open>Reading the ready filings\<close>

record plannedFiling =
  pf_id :: int
  pf_clientID :: string
  pf_taxYear :: int
  pf_key :: bytes
  pf_vendorDisplayName :: string
  pf_recipientTIN :: string
  pf_reportableCents :: int
  pf_withholdingCents :: int

record plannedBatch =
  pb_sequence :: int
  pb_clientID :: string
  pb_taxYear :: int
  pb_utid :: string
  pb_canonicalXML :: bytes
  pb_payloadHash :: bytes

record plannedLink =
  pl_utid :: string
  pl_filingID :: int
  pl_clientID :: string
  pl_slot :: int

definition plannable :: "string \<Rightarrow> int \<Rightarrow> db \<Rightarrow> filing_row \<Rightarrow> bool" where
  "plannable firmID determinationID d f \<longleftrightarrow>
     f_firm f = firmID \<and> f_determination f = determinationID \<and> f_state f = FReady
     \<and> f_id f \<notin> set (map bf_filing (db_batch_filings d))"

definition scanFiling :: "filing_row \<Rightarrow> plannedFiling" where
  "scanFiling f = \<lparr>pf_id = f_id f, pf_clientID = f_client f, pf_taxYear = f_tax_year f,
     pf_key = f_key f, pf_vendorDisplayName = f_vendor_display_name f,
     pf_recipientTIN = coalesce (f_recipient_tin f), pf_reportableCents = f_reportable_cents f,
     pf_withholdingCents = f_withholding_cents f\<rparr>"

text \<open>\<open>ORDER BY f.client_id, f.filing_key\<close>, text compared bytewise (the C collation).\<close>

definition readyFilings :: "string \<Rightarrow> int \<Rightarrow> db \<Rightarrow> plannedFiling list" where
  "readyFilings firmID determinationID d =
     map scanFiling (sort_key (\<lambda>f. (f_client f, f_key f))
       (filter (plannable firmID determinationID d) (db_filings d)))"

definition existingBatchCount :: "string \<Rightarrow> int \<Rightarrow> db \<Rightarrow> int" where
  "existingBatchCount firmID determinationID d =
     int (length (remdups [bf_batch x.
       x \<leftarrow> db_batch_filings d,
       f \<leftarrow> filter (\<lambda>f. f_id f = bf_filing x \<and> f_firm f = firmID
                        \<and> f_determination f = determinationID) (db_filings d)]))"

section \<open>Grouping\<close>

text \<open>The inner loop: how far the group that starts at \<open>start\<close> reaches.\<close>

function groupEnd :: "plannedFiling list \<Rightarrow> nat \<Rightarrow> nat \<Rightarrow> nat" where
  "groupEnd filings start end =
     (if end < length filings \<and> end - start < 100
         \<and> pf_clientID (filings ! end) = pf_clientID (filings ! start)
      then groupEnd filings start (Suc end) else end)"
  by pat_completeness auto
termination
  by (relation "measure (\<lambda>(filings, start, end). length filings - end)") auto

declare groupEnd.simps [simp del]

lemma groupEnd_ge: "end \<le> groupEnd filings start end"
proof (induction filings start "end" rule: groupEnd.induct)
  case (1 filings start "end")
  then show ?case by (subst groupEnd.simps) (auto dest: Suc_leD)
qed

lemma groupEnd_progress: "start < length filings \<Longrightarrow> start < groupEnd filings start start"
  using groupEnd_ge [of "Suc start" filings start] by (subst groupEnd.simps) simp

text \<open>The outer loop.\<close>

function groupsFrom :: "plannedFiling list \<Rightarrow> nat \<Rightarrow> plannedFiling list list" where
  "groupsFrom filings start =
     (if start < length filings
      then slice start (groupEnd filings start start) filings
             # groupsFrom filings (groupEnd filings start start)
      else [])"
  by pat_completeness auto
termination
  by (relation "measure (\<lambda>(filings, start). length filings - start)")
    (use groupEnd_progress in \<open>auto intro: diff_less_mono2\<close>)

declare groupsFrom.simps [simp del]

section \<open>Batches, links and rows\<close>

definition groupDetail :: "plannedFiling \<Rightarrow> xmlDetail" where
  "groupDetail filing = \<lparr>xd_RecordID = filingKeyString (pf_key filing),
     xd_RecipientName = pf_vendorDisplayName filing, xd_RecipientTIN = pf_recipientTIN filing,
     xd_Compensation = formatCents (pf_reportableCents filing),
     xd_Withholding = formatCents (pf_withholdingCents filing)\<rparr>"

definition groupUTID :: "string \<Rightarrow> plannedFiling list \<Rightarrow> string" where
  "groupUTID firmID grp =
     snd (batchIdentity firmID (pf_clientID (hd grp)) (pf_taxYear (hd grp)) (map pf_key grp))"

definition groupXML :: "string \<Rightarrow> plannedFiling list \<Rightarrow> bytes" where
  "groupXML firmID grp =
     (case batchIdentity firmID (pf_clientID (hd grp)) (pf_taxYear (hd grp)) (map pf_key grp) of
        (digest, utid) \<Rightarrow> canonicalXML firmID (pf_clientID (hd grp)) (pf_taxYear (hd grp)) utid
                            (map groupDetail grp) digest)"

definition planGroup :: "string \<Rightarrow> nat \<Rightarrow> plannedFiling list \<Rightarrow> plannedBatch" where
  "planGroup firmID index grp =
     \<lparr>pb_sequence = int index + 1, pb_clientID = pf_clientID (hd grp),
      pb_taxYear = pf_taxYear (hd grp), pb_utid = groupUTID firmID grp,
      pb_canonicalXML = groupXML firmID grp, pb_payloadHash = sha256 (groupXML firmID grp)\<rparr>"

definition planBatchesOf :: "string \<Rightarrow> plannedFiling list list \<Rightarrow> plannedBatch list" where
  "planBatchesOf firmID groups = map (\<lambda>(i, g). planGroup firmID i g) (enumerate 0 groups)"

definition groupLinks :: "string \<Rightarrow> plannedFiling list \<Rightarrow> plannedLink list" where
  "groupLinks firmID grp =
     map (\<lambda>(i, f). \<lparr>pl_utid = groupUTID firmID grp, pl_filingID = pf_id f,
                     pl_clientID = pf_clientID f, pl_slot = int i + 1\<rparr>) (enumerate 0 grp)"

definition planLinksOf :: "string \<Rightarrow> plannedFiling list list \<Rightarrow> plannedLink list" where
  "planLinksOf firmID groups = concat (map (groupLinks firmID) groups)"

text \<open>A row of \<open>INSERT INTO submission_batches\<close>, the column defaults included.\<close>

definition plannedRow :: "int \<Rightarrow> string \<Rightarrow> int \<Rightarrow> plannedBatch \<Rightarrow> batch_row" where
  "plannedRow now firmID rowID b =
     \<lparr>b_id = rowID, b_firm = firmID, b_client = pb_clientID b, b_tax_year = pb_taxYear b,
      b_utid = pb_utid b, b_xml = pb_canonicalXML b, b_hash = pb_payloadHash b,
      b_state = BPlanned, b_receipt = None, b_next_action_at = now, b_attempts = 0,
      b_lease_owner = None, b_lease_expires = None, b_token = None, b_submitted_at = None,
      b_acknowledged_at = None, b_retry_exhausted_at = None, b_last_error = None\<rparr>"

definition plannedRows :: "int \<Rightarrow> string \<Rightarrow> db \<Rightarrow> plannedBatch list \<Rightarrow> batch_row list" where
  "plannedRows now firmID d batches =
     map (\<lambda>(i, b). plannedRow now firmID (nextId (map b_id (db_batches d)) + int i) b)
       (enumerate 0 (sort_key pb_sequence batches))"

definition insertBatches :: "batch_row list \<Rightarrow> db \<Rightarrow> db result" where
  "insertBatches new d =
     (case sql_insert batch_row_ok (\<lambda>b. (b_firm b, b_client b) \<in> set (db_clients d)) batch_table_ok
             new (db_batches d) of
        Inl code \<Rightarrow> Inl (mapError (PgError code))
      | Inr rows \<Rightarrow> Inr (d\<lparr>db_batches := rows\<rparr>))"

definition linkRows :: "string \<Rightarrow> db \<Rightarrow> plannedLink list \<Rightarrow> batch_filing_row list" where
  "linkRows firmID d links =
     [\<lparr>bf_batch = b_id b, bf_filing = pl_filingID l, bf_firm = firmID, bf_client = pl_clientID l,
       bf_slot = pl_slot l\<rparr>.
        l \<leftarrow> links, b \<leftarrow> filter (\<lambda>b. b_firm b = firmID \<and> b_utid b = pl_utid l) (db_batches d)]"

definition insertLinks :: "batch_filing_row list \<Rightarrow> db \<Rightarrow> db result" where
  "insertLinks new d =
     (case sql_insert batch_filing_row_ok (linkRef_ok d) batch_filing_table_ok new (db_batch_filings d) of
        Inl code \<Rightarrow> Inl (mapError (PgError code))
      | Inr rows \<Rightarrow> Inr (d\<lparr>db_batch_filings := rows\<rparr>))"

definition markBatched :: "string \<Rightarrow> plannedLink list \<Rightarrow> db \<Rightarrow> (db \<times> nat) result" where
  "markBatched firmID links d =
     (case sql_update filing_update_ok filing_row_ok filing_table_ok
             (\<lambda>f. f_id f \<in> set (map pl_filingID links) \<and> f_firm f = firmID \<and> f_state f = FReady)
             (\<lambda>f. f\<lparr>f_state := FBatched\<rparr>) (db_filings d) of
        Inl code \<Rightarrow> Inl (mapError (PgError code))
      | Inr (rows, n) \<Rightarrow> Inr (d\<lparr>db_filings := rows\<rparr>, n))"

section \<open>The transaction\<close>

definition PlanBatches :: "int \<Rightarrow> PlanBatchesCommand \<Rightarrow> db \<Rightarrow> db \<times> BatchPlanResult result" where
  "PlanBatches now command d =
     (let firmID = plan_FirmID command; determinationID = plan_DeterminationID command in
      if determinationID \<le> 0 then (d, Inl (ErrMsg ''invalid batch plan command''))
      else case beginFirm firmID of
        Inl e \<Rightarrow> (d, Inl e)
      | Inr _ \<Rightarrow>
        (let existing = existingBatchCount firmID determinationID d;
             filings = readyFilings firmID determinationID d
         in if list_ex (\<lambda>f. length (pf_key f) \<noteq> 32) filings then (d, Inl ErrInvariant)
            else
              (let groups = groupsFrom filings 0;
                   batches = planBatchesOf firmID groups;
                   links = planLinksOf firmID groups
               in if batches = []
                  then (d, Inr \<lparr>ExistingBatchCount = existing, CreatedBatchCount = 0\<rparr>)
                  else case insertBatches (plannedRows now firmID d batches) d of
                    Inl e \<Rightarrow> (d, Inl e)
                  | Inr d1 \<Rightarrow>
                    (case insertLinks (linkRows firmID d1 links) d1 of
                       Inl e \<Rightarrow> (d, Inl e)
                     | Inr d2 \<Rightarrow>
                       if length (linkRows firmID d1 links) \<noteq> length links then (d, Inl ErrInvariant)
                       else (case markBatched firmID links d2 of
                               Inl e \<Rightarrow> (d, Inl e)
                             | Inr (d3, n) \<Rightarrow>
                                 if n \<noteq> length links then (d, Inl ErrInvariant)
                                 else (d3, Inr \<lparr>ExistingBatchCount = existing,
                                                CreatedBatchCount = int (length batches)\<rparr>))))))"

section \<open>Grouping is a maximal partition\<close>

lemma groupEnd_le: "end \<le> length filings \<Longrightarrow> groupEnd filings start end \<le> length filings"
proof (induction filings start "end" rule: groupEnd.induct)
  case (1 filings start "end")
  then show ?case by (subst groupEnd.simps) auto
qed

lemma groupEnd_size: "end - start \<le> 100 \<Longrightarrow> groupEnd filings start end - start \<le> 100"
proof (induction filings start "end" rule: groupEnd.induct)
  case (1 filings start "end")
  then show ?case by (subst groupEnd.simps) auto
qed

lemma groupEnd_same:
  "end \<le> i \<Longrightarrow> i < groupEnd filings start end \<Longrightarrow>
     pf_clientID (filings ! i) = pf_clientID (filings ! start)"
proof (induction filings start "end" rule: groupEnd.induct)
  case (1 filings start "end")
  show ?case
  proof (cases "i = end")
    case True
    with 1(3) show ?thesis by (subst (asm) groupEnd.simps) (auto split: if_splits)
  next
    case False
    let ?go = "end < length filings \<and> end - start < 100
        \<and> pf_clientID (filings ! end) = pf_clientID (filings ! start)"
    have step: "groupEnd filings start end = (if ?go then groupEnd filings start (Suc end) else end)"
      by (rule groupEnd.simps)
    from False 1(2,3) step have ?go by (auto split: if_splits)
    with 1 False step show ?thesis by simp
  qed
qed

lemma groupEnd_maximal:
  "groupEnd filings start end < length filings \<Longrightarrow> groupEnd filings start end - start < 100 \<Longrightarrow>
     pf_clientID (filings ! groupEnd filings start end) \<noteq> pf_clientID (filings ! start)"
proof (induction filings start "end" rule: groupEnd.induct)
  case (1 filings start "end")
  show ?case
  proof (cases "end < length filings \<and> end - start < 100 \<and> pf_clientID (filings ! end) = pf_clientID (filings ! start)")
    case True
    then have "groupEnd filings start end = groupEnd filings start (Suc end)"
      by (subst groupEnd.simps) simp
    with 1 True show ?thesis by simp
  next
    case False
    then have "groupEnd filings start end = end" by (subst groupEnd.simps) auto
    with 1(2,3) False show ?thesis by auto
  qed
qed

definition groupOK :: "plannedFiling list \<Rightarrow> bool" where
  "groupOK grp \<longleftrightarrow> grp \<noteq> [] \<and> length grp \<le> 100 \<and> (\<forall>f \<in> set grp. pf_clientID f = pf_clientID (hd grp))"

lemma slice_groupOK:
  assumes "start < length filings"
  shows "groupOK (slice start (groupEnd filings start start) filings)"
    and "hd (slice start (groupEnd filings start start) filings) = filings ! start"
    and "length (slice start (groupEnd filings start start) filings) = groupEnd filings start start - start"
proof -
  let ?e = "groupEnd filings start start"
  have e: "start < ?e" "?e \<le> length filings" "?e - start \<le> 100"
    using assms groupEnd_progress groupEnd_le [of start] groupEnd_size [of start start] by auto
  then show len: "length (slice start ?e filings) = ?e - start" by (simp add: slice_def)
  have nth: "slice start ?e filings ! i = filings ! (start + i)" if "i < ?e - start" for i
    using that e by (simp add: slice_def)
  from e len have ne: "slice start ?e filings \<noteq> []" by auto
  with nth [of 0] e show hd: "hd (slice start ?e filings) = filings ! start"
    by (simp add: hd_conv_nth)
  have "pf_clientID f = pf_clientID (filings ! start)" if "f \<in> set (slice start ?e filings)" for f
  proof -
    from that len obtain i where i: "i < ?e - start" "slice start ?e filings ! i = f"
      by (metis in_set_conv_nth)
    then show ?thesis using groupEnd_same [of start "start + i" filings start] nth [of i] by simp
  qed
  with ne len e show "groupOK (slice start ?e filings)"
    unfolding groupOK_def hd by simp
qed

lemma groupsFrom_concat: "concat (groupsFrom filings start) = drop start filings"
proof (induction filings start rule: groupsFrom.induct)
  case (1 filings start)
  show ?case
  proof (cases "start < length filings")
    case True
    let ?e = "groupEnd filings start start"
    have "start \<le> ?e" using groupEnd_progress [OF True] by simp
    then have cut: "slice start ?e filings @ drop ?e filings = drop start filings"
      unfolding slice_def by (metis append_take_drop_id drop_drop le_add_diff_inverse2)
    have "groupsFrom filings start = slice start ?e filings # groupsFrom filings ?e"
      using True by (simp add: groupsFrom.simps [of filings start])
    with cut 1 [OF True] show ?thesis by simp
  qed (subst groupsFrom.simps, simp)
qed

lemma groupsFrom_groupOK: "grp \<in> set (groupsFrom filings start) \<Longrightarrow> groupOK grp"
proof (induction filings start rule: groupsFrom.induct)
  case (1 filings start)
  then show ?case
    by (subst (asm) groupsFrom.simps) (auto split: if_splits intro: slice_groupOK)
qed

lemma groupsFrom_hd:
  "start < length filings \<Longrightarrow> hd (hd (groupsFrom filings start)) = filings ! start"
  by (subst groupsFrom.simps) (simp add: slice_groupOK)

text \<open>C11. Planning cuts the ready filings, in order, into consecutive groups of 1 to 100 filings
  of one client, and never cuts early: a group ends at 100 filings or at the next client.\<close>

theorem plan_groups_partition:
  "concat (groupsFrom filings 0) = filings
   \<and> list_all groupOK (groupsFrom filings 0)
   \<and> successively (\<lambda>g h. if pf_clientID (hd h) = pf_clientID (hd g) then length g = 100 else True) (groupsFrom filings 0)"
proof (intro conjI)
  show "concat (groupsFrom filings 0) = filings" by (simp add: groupsFrom_concat)
  show "list_all groupOK (groupsFrom filings 0)" by (auto simp: list_all_iff groupsFrom_groupOK)
  have "successively (\<lambda>g h. length g = 100 \<or> pf_clientID (hd h) \<noteq> pf_clientID (hd g)) (groupsFrom filings start)"
    for start
  proof (induction filings start rule: groupsFrom.induct)
    case (1 filings start)
    show ?case
    proof (cases "start < length filings")
      case True
      let ?e = "groupEnd filings start start"
      have cut: "?e < length filings \<Longrightarrow> ?e - start = 100 \<or> pf_clientID (filings ! ?e) \<noteq> pf_clientID (filings ! start)"
        using groupEnd_maximal [of filings start start] groupEnd_size [of start start filings] by fastforce
      have "groupsFrom filings ?e \<noteq> [] \<Longrightarrow> ?e < length filings"
        by (subst (asm) groupsFrom.simps) (auto split: if_splits)
      then have "groupsFrom filings ?e = [] \<or> ?e - start = 100
          \<or> pf_clientID (hd (hd (groupsFrom filings ?e))) \<noteq> pf_clientID (filings ! start)"
        using cut by (metis groupsFrom_hd)
      with 1 [OF True] True show ?thesis
        by (subst groupsFrom.simps) (simp add: successively_Cons slice_groupOK)
    qed (subst groupsFrom.simps, simp)
  qed
  then have "successively (\<lambda>g h. length g = 100 \<or> pf_clientID (hd h) \<noteq> pf_clientID (hd g)) (groupsFrom filings 0)" .
  then show "successively (\<lambda>g h. if pf_clientID (hd h) = pf_clientID (hd g) then length g = 100 else True) (groupsFrom filings 0)"
    by (rule successively_mono) auto
qed

end
