(* ===== verification/Samples.thy ===== *)
theory Samples
  imports Store_Base
begin

text \<open>
  A small database the witnesses evaluate on: firm \<open>acme\<close> with one client, one ready filing,
  and, in a second database, one submitted batch that holds it under a live claim.
\<close>

definition sampleFirm :: string where "sampleFirm = ''acme''"

definition sampleFiling :: filing_row where
  "sampleFiling = \<lparr>f_id = 1, f_firm = ''acme'', f_client = ''c1'', f_determination = 1, f_tax_year = 2025,
     f_vendor_identity = ''tin:123456789'', f_vendor_display_name = ''Vendor'',
     f_recipient_tin = Some ''123456789'', f_key = replicate 32 (CHR ''k''), f_reportable_cents = 60000,
     f_withholding_cents = 0, f_state = FReady, f_preflight_reason = None, f_irs_record_id = None,
     f_rejection_reason = None, f_acknowledged_at = None\<rparr>"

definition sampleDb :: db where
  "sampleDb = \<lparr>db_firms = [''acme''], db_clients = [(''acme'', ''c1'')], db_datasets = [], db_payments = [],
     db_determinations = [\<lparr>dt_id = 1, dt_dataset = 1, dt_firm = ''acme'', dt_ruleset = ''nec-2025-v1''\<rparr>],
     db_filings = [sampleFiling], db_batches = [], db_batch_filings = [],
     db_gates = [], db_calls = []\<rparr>"

text \<open>A batch in a given state with a given claim token; its lease ends at 100.\<close>

definition sampleBatch :: "batch_state \<Rightarrow> string option \<Rightarrow> string option \<Rightarrow> batch_row" where
  "sampleBatch st receipt token = \<lparr>b_id = 1, b_firm = ''acme'', b_client = ''c1'', b_tax_year = 2025,
     b_utid = ''u'', b_xml = ''x'', b_hash = sha256 ''x'', b_state = st, b_receipt = receipt,
     b_next_action_at = 0, b_attempts = 1,
     b_lease_owner = map_option (\<lambda>_. ''w'') token, b_lease_expires = map_option (\<lambda>_. 100) token,
     b_token = token, b_submitted_at = None, b_acknowledged_at = None, b_retry_exhausted_at = None,
     b_last_error = None\<rparr>"

definition claimedDb :: "batch_state \<Rightarrow> string option \<Rightarrow> string option \<Rightarrow> db" where
  "claimedDb st receipt token = sampleDb\<lparr>db_filings := [sampleFiling\<lparr>f_state := FBatched\<rparr>],
     db_batches := [sampleBatch st receipt token],
     db_batch_filings := [\<lparr>bf_batch = 1, bf_filing = 1, bf_firm = ''acme'', bf_client = ''c1'', bf_slot = 1\<rparr>]\<rparr>"

definition sampleClaim :: Claim where
  "sampleClaim = \<lparr>c_batchID = 1, c_firmID = ''acme'', c_token = ''tok''\<rparr>"

lemma acme_begin [simp]: "beginFirm ''acme'' = Inr ()"
  by code_simp

lemmas sample_defs = sampleFiling_def sampleDb_def sampleBatch_def claimedDb_def sampleClaim_def

lemmas schema_defs = schema_ok_def batch_row_ok_def batch_table_ok_def filing_row_ok_def
  filing_table_ok_def batch_filing_row_ok_def batch_filing_table_ok_def linkRef_ok_def filingRefs_ok_def determination_table_ok_def
  call_row_ok_def nonNull_def optIn_def receiptStates_def int32_def batch_update_ok_def filing_update_ok_def

lemma sampleDb_ok: "schema_ok sampleDb"
  by (simp add: sample_defs schema_defs)

lemma claimedDb_ok:
  "st \<noteq> BAcknowledged \<Longrightarrow> receipt = None \<or> st \<in> set receiptStates \<Longrightarrow> schema_ok (claimedDb st receipt token)"
  by (cases token; cases receipt) (auto simp: sample_defs schema_defs)

end
