(* ===== verification/Planning_Facts.thy ===== *)
theory Planning_Facts
  imports Planning Samples
begin

text \<open>
  The transaction of \<open>PlanBatches\<close>: what a successful plan writes. The new batch rows and
  links are computed from the groups, every plannable filing ends up in exactly one new
  batch whose payload lists it, and planning again finds nothing to do.
\<close>

section \<open>The rows a plan inserts\<close>

lemma map_enumerate_snd [simp]: "map (\<lambda>x. h (snd x)) (enumerate n xs) = map h xs"
  by (induction xs arbitrary: n) auto

lemma map_enumerate_fst [simp]: "map (\<lambda>x. h (fst x)) (enumerate n xs) = map h [n ..< n + length xs]"
  using map_map [of h fst "enumerate n xs"] by (simp add: comp_def)

lemma plannable_linked: "plannable firmID det d f \<Longrightarrow> f_id f \<notin> bf_filing ` set (db_batch_filings d)"
  by (simp add: plannable_def)

lemma nextId_greater: "i \<in> set ids \<Longrightarrow> i < nextId ids"
proof -
  have "i \<in> set ids \<Longrightarrow> i \<le> foldr max ids 0" by (induction ids) auto
  then show "i \<in> set ids \<Longrightarrow> i < nextId ids" by (simp add: nextId_def)
qed

lemma sort_by_index: "sort_key (\<lambda>b. pb_sequence b) (planBatchesOf firmID groups) = planBatchesOf firmID groups"
proof (rule sort_key_id_if_sorted)
  have "map pb_sequence (planBatchesOf firmID groups) = map (\<lambda>i. int i + 1) [0 ..< length groups]"
    using map_enumerate_fst [of "\<lambda>i. int i + 1" 0 groups]
    by (simp add: planBatchesOf_def planGroup_def case_prod_beta comp_def)
  then show "sorted (map pb_sequence (planBatchesOf firmID groups))"
    by (auto simp: sorted_iff_nth_mono)
qed

text \<open>Row \<open>i\<close> of the batches inserted after base number \<open>base\<close>.\<close>

definition groupRow :: "int \<Rightarrow> string \<Rightarrow> int \<Rightarrow> nat \<Rightarrow> plannedFiling list \<Rightarrow> batch_row" where
  "groupRow now firmID base i grp = plannedRow now firmID (base + int i) (planGroup firmID i grp)"

lemma enumerate_map_aux: "enumerate n (map f xs) = map (\<lambda>(i, x). (i, f x)) (enumerate n xs)"
  by (induction xs arbitrary: n) auto

lemma enumerate_enumerate: "enumerate n (enumerate n xs) = map (\<lambda>(i, x). (i, i, x)) (enumerate n xs)"
  by (induction xs arbitrary: n) auto

lemma plannedRows_groups:
  "plannedRows now firmID d (planBatchesOf firmID groups)
     = map (\<lambda>(i, g). groupRow now firmID (nextId (map b_id (db_batches d))) i g) (enumerate 0 groups)"
  unfolding plannedRows_def sort_by_index
  by (simp add: planBatchesOf_def enumerate_map_aux enumerate_enumerate groupRow_def case_prod_beta comp_def)

definition groupLinkRows :: "string \<Rightarrow> int \<Rightarrow> nat \<Rightarrow> plannedFiling list \<Rightarrow> batch_filing_row list" where
  "groupLinkRows firmID base i grp =
     map (\<lambda>(j, f). \<lparr>bf_batch = base + int i, bf_filing = pf_id f, bf_firm = firmID,
                     bf_client = pf_clientID f, bf_slot = int j + 1\<rparr>) (enumerate 0 grp)"

lemma linkRows_groups:
  assumes "batch_table_ok (rows @ map (\<lambda>(i, g). groupRow now firmID base i g) (enumerate 0 groups))"
    and "db_batches d1 = rows @ map (\<lambda>(i, g). groupRow now firmID base i g) (enumerate 0 groups)"
  shows "linkRows firmID d1 (planLinksOf firmID groups)
           = concat (map (\<lambda>(i, g). groupLinkRows firmID base i g) (enumerate 0 groups))"
proof -
  have dist: "distinct (map (\<lambda>b. (b_firm b, b_utid b)) (db_batches d1))"
    using assms by (simp add: batch_table_ok_def)
  have one: "filter (\<lambda>b. b_firm b = firmID \<and> b_utid b = groupUTID firmID g) (db_batches d1)
      = [groupRow now firmID base i g]" if "(i, g) \<in> set (enumerate 0 groups)" for i g
  proof -
    have "groupRow now firmID base i g \<in> set (db_batches d1)" using assms(2) that by force
    from filter_unique_key [OF dist this] show ?thesis
      by (simp add: groupRow_def plannedRow_def planGroup_def)
  qed
  have "linkRows firmID d1 (planLinksOf firmID groups)
      = concat (map (\<lambda>(i, g). linkRows firmID d1 (groupLinks firmID g)) (enumerate 0 groups))"
  proof -
    have dist: "linkRows firmID d1 (concat lss) = concat (map (linkRows firmID d1) lss)" for lss
      by (induction lss) (simp_all add: linkRows_def)
    show ?thesis
      using map_enumerate_snd [of "\<lambda>g. linkRows firmID d1 (groupLinks firmID g)" 0 groups]
      by (simp add: planLinksOf_def dist split_def comp_def)
  qed
  also have "\<dots> = concat (map (\<lambda>(i, g). groupLinkRows firmID base i g) (enumerate 0 groups))"
  proof -
    have "linkRows firmID d1 (groupLinks firmID g) = groupLinkRows firmID base i g"
      if "(i, g) \<in> set (enumerate 0 groups)" for i g
      using one [OF that]
      by (simp add: linkRows_def groupLinks_def groupLinkRows_def groupRow_def plannedRow_def
          case_prod_beta comp_def)
    then have "map (\<lambda>(i, g). linkRows firmID d1 (groupLinks firmID g)) (enumerate 0 groups)
        = map (\<lambda>(i, g). groupLinkRows firmID base i g) (enumerate 0 groups)"
      by (intro map_cong) auto
    then show ?thesis by (rule arg_cong)
  qed
  finally show ?thesis .
qed

lemma groupLinkRows_filings [simp]: "map bf_filing (groupLinkRows firmID base i grp) = map pf_id grp"
  by (simp add: groupLinkRows_def case_prod_beta comp_def)

lemma links_filings: "map pl_filingID (planLinksOf firmID groups) = map pf_id (concat groups)"
proof -
  have "map pl_filingID (groupLinks firmID g) = map pf_id g" for g
    by (simp add: groupLinks_def case_prod_beta comp_def)
  then show ?thesis by (simp add: planLinksOf_def map_concat comp_def)
qed

section \<open>Outcomes of a plan\<close>

lemma PlanBatches_Inl: "PlanBatches now cmd d = (d', Inl e) \<Longrightarrow> d' = d"
  by (auto simp: PlanBatches_def Let_def split: if_splits sum.splits)

lemma planBatchesOf_Nil [simp]: "planBatchesOf firmID groups = [] \<longleftrightarrow> groups = []"
  by (cases groups) (simp_all add: planBatchesOf_def)

lemma length_planBatchesOf [simp]: "length (planBatchesOf firmID groups) = length groups"
  by (simp add: planBatchesOf_def)

lemma PlanBatches_Inr:
  assumes "PlanBatches now cmd d = (d', Inr r)"
  obtains
    (nothing) "readyFilings (plan_FirmID cmd) (plan_DeterminationID cmd) d = []" "d' = d"
      "r = \<lparr>ExistingBatchCount = existingBatchCount (plan_FirmID cmd) (plan_DeterminationID cmd) d,
            CreatedBatchCount = 0\<rparr>"
  | (planned) groups base rows links where
      "groups = groupsFrom (readyFilings (plan_FirmID cmd) (plan_DeterminationID cmd) d) 0"
      "groups \<noteq> []" "base = nextId (map b_id (db_batches d))"
      "rows = map (\<lambda>(i, g). groupRow now (plan_FirmID cmd) base i g) (enumerate 0 groups)"
      "links = concat (map (\<lambda>(i, g). groupLinkRows (plan_FirmID cmd) base i g) (enumerate 0 groups))"
      "batch_table_ok (db_batches d @ rows)" "\<forall>b \<in> set rows. batch_row_ok b"
      "batch_filing_table_ok (db_batch_filings d @ links)"
      "\<forall>x \<in> set links. batch_filing_row_ok x"
      "d' = d\<lparr>db_batches := db_batches d @ rows, db_batch_filings := db_batch_filings d @ links,
             db_filings := map (\<lambda>f. if f_id f \<in> set (map pf_id (concat groups)) \<and> f_firm f = plan_FirmID cmd
                                       \<and> f_state f = FReady then f\<lparr>f_state := FBatched\<rparr> else f)
                             (db_filings d)\<rparr>"
      "filing_table_ok (db_filings d')"
      "\<forall>x \<in> set links. linkRef_ok d' x"
      "r = \<lparr>ExistingBatchCount = existingBatchCount (plan_FirmID cmd) (plan_DeterminationID cmd) d,
            CreatedBatchCount = int (length groups)\<rparr>"
      "\<forall>b \<in> set rows. (b_firm b, b_client b) \<in> set (db_clients d)"
      "\<forall>f \<in> set (db_filings d). f_id f \<in> set (map pf_id (concat groups)) \<and> f_firm f = plan_FirmID cmd
          \<and> f_state f = FReady \<longrightarrow> filing_row_ok (f\<lparr>f_state := FBatched\<rparr>)"
proof -
  let ?firm = "plan_FirmID cmd" and ?det = "plan_DeterminationID cmd"
  let ?groups = "groupsFrom (readyFilings ?firm ?det d) 0"
  let ?base = "nextId (map b_id (db_batches d))"
  let ?rows = "map (\<lambda>(i, g). groupRow now ?firm ?base i g) (enumerate 0 ?groups)"
  let ?links = "concat (map (\<lambda>(i, g). groupLinkRows ?firm ?base i g) (enumerate 0 ?groups))"
  show thesis
  proof (cases "?groups = []")
    case True
    then have "readyFilings ?firm ?det d = []" using groupsFrom_concat [of "readyFilings ?firm ?det d" 0] by simp
    moreover from True assms have "d' = d" "r = \<lparr>ExistingBatchCount = existingBatchCount ?firm ?det d, CreatedBatchCount = 0\<rparr>"
      by (auto simp: PlanBatches_def Let_def split: if_splits sum.splits)
    ultimately show thesis by (rule nothing)
  next
    case False
    with assms obtain d1 d2 where
      ins: "insertBatches (plannedRows now ?firm d (planBatchesOf ?firm ?groups)) d = Inr d1"
      and lnk: "insertLinks (linkRows ?firm d1 (planLinksOf ?firm ?groups)) d1 = Inr d2"
      and mark: "markBatched ?firm (planLinksOf ?firm ?groups) d2 = Inr (d', length (planLinksOf ?firm ?groups))"
      and r: "r = \<lparr>ExistingBatchCount = existingBatchCount ?firm ?det d, CreatedBatchCount = int (length ?groups)\<rparr>"
      by (auto simp: PlanBatches_def Let_def split: if_splits sum.splits)
    from ins have d1: "d1 = d\<lparr>db_batches := db_batches d @ ?rows\<rparr>"
      and tab: "batch_table_ok (db_batches d @ ?rows)" and rowok: "\<forall>b \<in> set ?rows. batch_row_ok b"
      and cl: "\<forall>b \<in> set ?rows. (b_firm b, b_client b) \<in> set (db_clients d)"
      by (auto simp: insertBatches_def sql_insert_def plannedRows_groups list_all_iff split: if_splits sum.splits)
    have links: "linkRows ?firm d1 (planLinksOf ?firm ?groups) = ?links"
      using linkRows_groups [OF tab, of d1] d1 by simp
    from lnk have d2: "d2 = d1\<lparr>db_batch_filings := db_batch_filings d @ ?links\<rparr>"
      and ltab: "batch_filing_table_ok (db_batch_filings d @ ?links)"
      and lrow: "\<forall>x \<in> set ?links. batch_filing_row_ok x" and lref: "\<forall>x \<in> set ?links. linkRef_ok d1 x"
      unfolding links by (auto simp: insertLinks_def sql_insert_def d1 list_all_iff split: if_splits sum.splits)
    let ?p = "\<lambda>f. f_id f \<in> set (map pf_id (concat ?groups)) \<and> f_firm f = ?firm \<and> f_state f = FReady"
    from mark obtain fs where upd: "sql_update filing_update_ok filing_row_ok filing_table_ok ?p
        (\<lambda>f. f\<lparr>f_state := FBatched\<rparr>) (db_filings d) = Inr (fs, length (planLinksOf ?firm ?groups))"
      and d': "d' = d2\<lparr>db_filings := fs\<rparr>"
      unfolding markBatched_def links_filings by (auto simp: d1 d2 split: sum.splits)
    note fs = sql_update_Inr [OF upd]
    have eq: "d' = d\<lparr>db_batches := db_batches d @ ?rows, db_batch_filings := db_batch_filings d @ ?links,
             db_filings := map (\<lambda>f. if ?p f then f\<lparr>f_state := FBatched\<rparr> else f) (db_filings d)\<rparr>"
      unfolding d' d2 d1 fs(1) by simp
    have "map (\<lambda>f. (f_id f, f_firm f, f_client f)) fs = map (\<lambda>f. (f_id f, f_firm f, f_client f)) (db_filings d)"
      unfolding fs(1) by simp
    then have keys: "set (map (\<lambda>f. (f_id f, f_firm f, f_client f)) fs)
        = set (map (\<lambda>f. (f_id f, f_firm f, f_client f)) (db_filings d))" by metis
    have lref': "\<forall>x \<in> set ?links. linkRef_ok d' x"
      using lref keys unfolding linkRef_ok_def d' d2 d1 by simp
    have tab': "filing_table_ok (db_filings d')" using fs(4) d' by simp
    have frow: "\<forall>f \<in> set (db_filings d). ?p f \<longrightarrow> filing_row_ok (f\<lparr>f_state := FBatched\<rparr>)"
      using fs(3) by blast
    show thesis
      by (rule planned [OF refl False refl refl refl tab rowok ltab lrow eq tab' lref' r cl frow])
  qed
qed

section \<open>Everything is planned, once\<close>

lemma readyFilings_ids:
  "set (map pf_id (concat (groupsFrom (readyFilings firmID det d) 0)))
     = f_id ` {f \<in> set (db_filings d). plannable firmID det d f}"
  by (auto simp: groupsFrom_concat readyFilings_def scanFiling_def)

lemma filing_ids_unique:
  assumes "filing_table_ok fs" and "f \<in> set fs" and "g \<in> set fs" and "f_id f = f_id g"
  shows "f = g"
  using assms by (auto simp: filing_table_ok_def distinct_map dest: inj_onD)

lemma enumerate_sets: "(i, g) \<in> set (enumerate 0 xs) \<Longrightarrow> g \<in> set xs \<and> i < length xs \<and> xs ! i = g"
  by (auto simp: in_set_enumerate_eq)

lemma in_enumerate: "x \<in> set xs \<Longrightarrow> \<exists>j. (j, x) \<in> set (enumerate n xs)"
  by (induction xs arbitrary: n) auto

lemma link_ids:
  "map bf_filing (concat (map (\<lambda>(i, g). groupLinkRows firmID base i g) (enumerate n groups)))
     = map pf_id (concat groups)"
  by (induction groups arbitrary: n) auto

lemma plan_leaves_nothing:
  assumes "PlanBatches now cmd d = (d', Inr r)"
  shows "readyFilings (plan_FirmID cmd) (plan_DeterminationID cmd) d' = []"
  using assms
proof (cases rule: PlanBatches_Inr)
  case (planned groups base rows links)
  let ?firm = "plan_FirmID cmd" and ?det = "plan_DeterminationID cmd"
  have ids: "set (map pf_id (concat groups)) = f_id ` {f \<in> set (db_filings d). plannable ?firm ?det d f}"
    unfolding planned(1) by (rule readyFilings_ids)
  have "\<not> plannable ?firm ?det d' f" if "f \<in> set (db_filings d')" for f
    using that ids by (auto simp: planned(10) plannable_def split: if_splits)
  then show ?thesis by (simp add: readyFilings_def filter_empty_conv)
qed simp

text \<open>C9. After a successful plan no filing of the determination is left to plan: every filing
  that was ready and unlinked is \<open>batched\<close> and linked to exactly one batch.\<close>

theorem plan_covers:
  assumes "schema_ok d" and "PlanBatches now cmd d = (d', Inr r)"
  shows "readyFilings (plan_FirmID cmd) (plan_DeterminationID cmd) d' = []
    \<and> (\<forall>f \<in> set (db_filings d). plannable (plan_FirmID cmd) (plan_DeterminationID cmd) d f \<longrightarrow>
         f\<lparr>f_state := FBatched\<rparr> \<in> set (db_filings d')
         \<and> length (filter (\<lambda>x. bf_filing x = f_id f) (db_batch_filings d')) = 1)"
  using assms(2)
proof (cases rule: PlanBatches_Inr)
  case nothing
  then show ?thesis by (auto simp: readyFilings_def filter_empty_conv dest: arg_cong [of _ "[]" set])
next
  case (planned groups base rows links)
  let ?firm = "plan_FirmID cmd" and ?det = "plan_DeterminationID cmd"
  let ?ids = "set (map pf_id (concat groups))"
  have ids: "?ids = f_id ` {f \<in> set (db_filings d). plannable ?firm ?det d f}"
    unfolding planned(1) by (rule readyFilings_ids)
  have links_ids: "map bf_filing links = map pf_id (concat groups)"
    unfolding planned(5) by (rule link_ids)
  have dist: "distinct (map bf_filing (db_batch_filings d @ links))"
    using planned(8) by (simp add: batch_filing_table_ok_def)
  have all: "f\<lparr>f_state := FBatched\<rparr> \<in> set (db_filings d')
      \<and> length (filter (\<lambda>x. bf_filing x = f_id f) (db_batch_filings d')) = 1"
    if f: "f \<in> set (db_filings d)" "plannable ?firm ?det d f" for f
  proof
    have in_ids: "f_id f \<in> ?ids" using f ids by blast
    let ?p = "\<lambda>f. f_id f \<in> ?ids \<and> f_firm f = ?firm \<and> f_state f = FReady"
    from f in_ids have "?p f" by (simp add: plannable_def)
    from updated_in_map [of f _ ?p "\<lambda>f. f\<lparr>f_state := FBatched\<rparr>", OF f(1) this]
    show "f\<lparr>f_state := FBatched\<rparr> \<in> set (db_filings d')" by (simp add: planned(10))
    from in_ids links_ids obtain x where x: "x \<in> set links" "bf_filing x = f_id f"
      by (metis (no_types, lifting) ex_map_conv imageE list.set_map)
    then have "x \<in> set (db_batch_filings d @ links)" by simp
    from filter_unique_key [OF dist this] x
    show "length (filter (\<lambda>x. bf_filing x = f_id f) (db_batch_filings d')) = 1"
      by (simp add: planned(10))
  qed
  with all plan_leaves_nothing [OF assms(2)] show ?thesis by blast
qed

definition detBatches :: "string \<Rightarrow> int \<Rightarrow> batch_filing_row list \<Rightarrow> filing_row list \<Rightarrow> int set" where
  "detBatches firmID det bfs fs =
     {bf_batch x |x. x \<in> set bfs \<and> (\<exists>f \<in> set fs. f_id f = bf_filing x \<and> f_firm f = firmID \<and> f_determination f = det)}"

lemma existingBatchCount_card:
  "existingBatchCount firmID det d = int (card (detBatches firmID det (db_batch_filings d) (db_filings d)))"
proof -
  have "set [bf_batch x. x \<leftarrow> db_batch_filings d,
       f \<leftarrow> filter (\<lambda>f. f_id f = bf_filing x \<and> f_firm f = firmID \<and> f_determination f = det) (db_filings d)]
     = detBatches firmID det (db_batch_filings d) (db_filings d)"
    by (auto simp: detBatches_def)
  then show ?thesis by (simp add: existingBatchCount_def length_remdups_card_conv)
qed

lemma detBatches_finite [simp]: "finite (detBatches firmID det bfs fs)"
  by (simp add: detBatches_def)

lemma detBatches_append: "detBatches firmID det (xs @ ys) fs = detBatches firmID det xs fs \<union> detBatches firmID det ys fs"
  by (auto simp: detBatches_def)

lemma detBatches_map:
  assumes "\<And>f. f_id (u f) = f_id f \<and> f_firm (u f) = f_firm f \<and> f_determination (u f) = f_determination f"
  shows "detBatches firmID det bfs (map (\<lambda>f. if p f then u f else f) fs) = detBatches firmID det bfs fs"
proof -
  have "(\<exists>f \<in> set (map (\<lambda>f. if p f then u f else f) fs). f_id f = n \<and> f_firm f = firmID \<and> f_determination f = det)
      \<longleftrightarrow> (\<exists>f \<in> set fs. f_id f = n \<and> f_firm f = firmID \<and> f_determination f = det)" for n
    using assms by (auto split: if_splits)
  then show ?thesis by (simp add: detBatches_def)
qed

lemma new_batches:
  assumes "groups = groupsFrom (readyFilings firmID det d) 0"
    and "links = concat (map (\<lambda>(i, g). groupLinkRows firmID base i g) (enumerate 0 groups))"
  shows "detBatches firmID det links (db_filings d) = (\<lambda>i. base + int i) ` {..< length groups}"
proof (intro equalityI subsetI)
  fix n assume "n \<in> detBatches firmID det links (db_filings d)"
  then obtain x where x: "x \<in> set links" "n = bf_batch x" by (auto simp: detBatches_def)
  then obtain i g where "(i, g) \<in> set (enumerate 0 groups)" "x \<in> set (groupLinkRows firmID base i g)"
    by (auto simp: assms(2))
  with x(2) show "n \<in> (\<lambda>i. base + int i) ` {..< length groups}"
    by (auto simp: groupLinkRows_def dest: enumerate_sets)
next
  fix n assume "n \<in> (\<lambda>i. base + int i) ` {..< length groups}"
  then obtain i where i: "i < length groups" "n = base + int i" by auto
  let ?g = "groups ! i"
  have g: "?g \<in> set groups" using i by simp
  then obtain f where f: "f \<in> set ?g" using groupsFrom_groupOK assms(1) by (fastforce simp: groupOK_def)
  have "(i, ?g) \<in> set (enumerate 0 groups)" using i by (simp add: in_set_enumerate_eq)
  moreover obtain j where "(j, f) \<in> set (enumerate 0 ?g)"
    using in_enumerate [OF f, of 0] by blast
  then have "\<exists>x \<in> set (groupLinkRows firmID base i ?g). bf_batch x = n \<and> bf_filing x = pf_id f"
    using i(2) by (force simp: groupLinkRows_def)
  ultimately have "\<exists>x \<in> set links. bf_batch x = n \<and> bf_filing x = pf_id f"
    by (force simp: assms(2))
  moreover have "pf_id f \<in> set (map pf_id (concat groups))" using f g by auto
  then obtain h where "h \<in> set (db_filings d)" "plannable firmID det d h" "f_id h = pf_id f"
    unfolding assms(1) readyFilings_ids by auto
  ultimately show "n \<in> detBatches firmID det links (db_filings d)"
    by (force simp: detBatches_def plannable_def)
qed

lemma old_batches_below:
  assumes "schema_ok d" and "n \<in> detBatches firmID det (db_batch_filings d) fs"
  shows "n < nextId (map b_id (db_batches d))"
proof -
  from assms(2) obtain x where "x \<in> set (db_batch_filings d)" "n = bf_batch x" by (auto simp: detBatches_def)
  with assms(1) have "n \<in> set (map b_id (db_batches d))" by (auto simp: schema_ok_def linkRef_ok_def)
  then show ?thesis by (rule nextId_greater)
qed

lemma plan_again:
  assumes "schema_ok d" and "PlanBatches now cmd d = (d', Inr r)"
  shows "PlanBatches now' cmd d'
    = (d', Inr \<lparr>ExistingBatchCount = ExistingBatchCount r + CreatedBatchCount r, CreatedBatchCount = 0\<rparr>)"
proof -
  let ?firm = "plan_FirmID cmd" and ?det = "plan_DeterminationID cmd"
  have ready: "readyFilings ?firm ?det d' = []" by (rule plan_leaves_nothing [OF assms(2)])
  have count: "existingBatchCount ?firm ?det d' = ExistingBatchCount r + CreatedBatchCount r"
    using assms(2)
  proof (cases rule: PlanBatches_Inr)
    case (planned groups base rows links)
    have "detBatches ?firm ?det (db_batch_filings d') (db_filings d')
        = detBatches ?firm ?det (db_batch_filings d) (db_filings d) \<union> (\<lambda>i. base + int i) ` {..< length groups}"
      unfolding planned(10) using new_batches [OF planned(1,5)]
      by (simp add: detBatches_append detBatches_map)
    moreover have "detBatches ?firm ?det (db_batch_filings d) (db_filings d) \<inter> (\<lambda>i. base + int i) ` {..< length groups} = {}"
      using old_batches_below [OF assms(1)] planned(3) by fastforce
    moreover have "card ((\<lambda>i. base + int i) ` {..< length groups}) = length groups"
      by (subst card_image) (auto simp: inj_on_def)
    ultimately show ?thesis
      by (simp add: existingBatchCount_card card_Un_disjoint planned(13))
  qed simp
  have ok: "0 < ?det" "beginFirm ?firm = Inr ()"
    using assms(2) by (auto simp: PlanBatches_def Let_def split: if_splits sum.splits)
  show ?thesis
    using ok ready count by (simp add: PlanBatches_def groupsFrom.simps)
qed

text \<open>Planning is idempotent: repeating the command after it succeeded changes nothing and
  reports every batch, the earlier ones and those just created, as existing.\<close>

theorem plan_replay:
  assumes "schema_ok d" and "PlanBatches now cmd d = (d', Inr r)"
  shows "PlanBatches now' cmd d'
    = (d', Inr \<lparr>ExistingBatchCount = ExistingBatchCount r + CreatedBatchCount r, CreatedBatchCount = 0\<rparr>)"
  by (rule plan_again [OF assms])

section \<open>What each batch contains\<close>

lemma filter_group_links:
  assumes "n \<le> i" and "i < n + length groups"
  shows "filter (\<lambda>x. bf_batch x = base + int i \<and> bf_firm x = firmID)
           (concat (map (\<lambda>(k, g). groupLinkRows firmID base k g) (enumerate n groups)))
         = groupLinkRows firmID base i (groups ! (i - n))"
  using assms
proof (induction groups arbitrary: n)
  case (Cons g groups)
  have here: "filter (\<lambda>x. bf_batch x = base + int i \<and> bf_firm x = firmID) (groupLinkRows firmID base n g)
      = (if i = n then groupLinkRows firmID base n g else [])"
    by (auto simp: groupLinkRows_def filter_id_conv filter_empty_conv)
  have rest: "i = n \<Longrightarrow> filter (\<lambda>x. bf_batch x = base + int i \<and> bf_firm x = firmID)
      (concat (map (\<lambda>(k, g). groupLinkRows firmID base k g) (enumerate (Suc n) groups))) = []"
    by (auto simp: groupLinkRows_def filter_empty_conv in_set_enumerate_eq)
  show ?case
  proof (cases "i = n")
    case True
    with here rest show ?thesis by simp
  next
    case False
    with Cons.prems have "Suc n \<le> i" "i < Suc n + length groups" by auto
    with Cons.IH [OF this] here False show ?thesis by (simp add: nth_Cons' Suc_diff_Suc)
  qed
qed simp

lemma groupLinkRows_sorted: "sort_key bf_slot (groupLinkRows firmID base i grp) = groupLinkRows firmID base i grp"
proof (rule sort_key_id_if_sorted)
  have "map bf_slot (groupLinkRows firmID base i grp) = map (\<lambda>j. int j + 1) [0 ..< length grp]"
    using map_enumerate_fst [of "\<lambda>j. int j + 1" 0 grp]
    by (simp add: groupLinkRows_def split_def comp_def)
  then show "sorted (map bf_slot (groupLinkRows firmID base i grp))"
    by (auto simp: sorted_iff_nth_mono)
qed

lemma expected_of_links:
  assumes "\<And>f. f \<in> set grp \<Longrightarrow> filter (\<lambda>r. f_id r = pf_id f \<and> f_firm r = firmID) fs = [row f]"
    and "\<And>f. f \<in> set grp \<Longrightarrow> f_key (row f) = pf_key f \<and> f_id (row f) = pf_id f"
  shows "[(hexEncode (f_key r), f_id r). x \<leftarrow> groupLinkRows firmID base i grp,
            r \<leftarrow> filter (\<lambda>r. f_id r = bf_filing x \<and> f_firm r = bf_firm x) fs]
         = map (\<lambda>f. (hexEncode (pf_key f), pf_id f)) grp"
proof -
  have "concat (map (\<lambda>x. map (\<lambda>r. (hexEncode (f_key r), f_id r))
            (filter (\<lambda>r. f_id r = bf_filing x \<and> f_firm r = bf_firm x) fs)) (groupLinkRows firmID base i grp))
      = concat (map (\<lambda>f. map (\<lambda>r. (hexEncode (f_key r), f_id r))
            (filter (\<lambda>r. f_id r = pf_id f \<and> f_firm r = firmID) fs)) grp)"
    using map_enumerate_snd [of "\<lambda>f. map (\<lambda>r. (hexEncode (f_key r), f_id r))
            (filter (\<lambda>r. f_id r = pf_id f \<and> f_firm r = firmID) fs)" 0 grp]
    by (simp add: groupLinkRows_def split_def comp_def)
  also have "\<dots> = concat (map (\<lambda>f. [(hexEncode (pf_key f), pf_id f)]) grp)"
    using assms by (intro arg_cong [of _ _ concat] map_cong) auto
  finally show ?thesis by (simp add: concat_map_singleton)
qed

lemma groupOf_filings:
  assumes "schema_ok d" and "f \<in> set (readyFilings firmID det d)"
    and "fs' = map (\<lambda>f. if p f then f\<lparr>f_state := st\<rparr> else f) (db_filings d)" and "filing_table_ok fs'"
  obtains r where "filter (\<lambda>r. f_id r = pf_id f \<and> f_firm r = firmID) fs' = [r]"
    "f_key r = pf_key f" "f_id r = pf_id f"
proof -
  from assms(2) obtain g where g: "g \<in> set (db_filings d)" "f_firm g = firmID" "f = scanFiling g"
    by (auto simp: readyFilings_def plannable_def)
  let ?r = "if p g then g\<lparr>f_state := st\<rparr> else g"
  have r: "?r \<in> set fs'" "f_id ?r = pf_id f" "f_key ?r = pf_key f" "f_firm ?r = firmID"
    using g by (auto simp: assms(3) scanFiling_def image_iff)
  have "distinct (map f_id fs')" using assms(4) by (simp add: filing_table_ok_def)
  from filter_unique_key [OF this r(1)] have "filter (\<lambda>x. f_id x = pf_id f) fs' = [?r]"
    unfolding r(2) .
  then have "filter (\<lambda>r. f_id r = pf_id f \<and> f_firm r = firmID) fs' = [?r]"
    using r(4) filter_filter [of "\<lambda>r. f_firm r = firmID" "\<lambda>r. f_id r = pf_id f" fs'] by simp
  with r that show thesis by blast
qed

lemma plan_contents:
  assumes "schema_ok d" and "PlanBatches now cmd d = (d', Inr r)"
    and "b \<in> set (db_batches d')" and "b \<notin> set (db_batches d)"
  shows "\<exists>grp. grp \<in> set (groupsFrom (readyFilings (plan_FirmID cmd) (plan_DeterminationID cmd) d) 0)
    \<and> nextId (map b_id (db_batches d)) \<le> b_id b \<and> groupOK grp \<and> set grp \<subseteq> set (readyFilings (plan_FirmID cmd) (plan_DeterminationID cmd) d)
    \<and> b_firm b = plan_FirmID cmd \<and> b_client b = pf_clientID (hd grp)
    \<and> b_utid b = groupUTID (plan_FirmID cmd) grp
    \<and> b_xml b = groupXML (plan_FirmID cmd) grp \<and> b_hash b = sha256 (b_xml b)
    \<and> b_state b = BPlanned \<and> b_token b = None
    \<and> batchFilings (b_id b) (plan_FirmID cmd) d' = map (\<lambda>f. (xd_RecordID (groupDetail f), pf_id f)) grp"
  using assms(2)
proof (cases rule: PlanBatches_Inr)
  case (planned groups base rows links)
  let ?firm = "plan_FirmID cmd" and ?det = "plan_DeterminationID cmd"
  from assms(3,4) have "b \<in> set rows" by (auto simp: planned(10))
  then obtain i g where ig: "(i, g) \<in> set (enumerate 0 groups)" "b = groupRow now ?firm base i g"
    by (auto simp: planned(4))
  note i = enumerate_sets [OF ig(1)]
  have gOK: "groupOK g" using i groupsFrom_groupOK planned(1) by blast
  have sub: "set g \<subseteq> set (readyFilings ?firm ?det d)"
    using i groupsFrom_concat [of "readyFilings ?firm ?det d" 0] planned(1)
    by (metis UN_upper drop0 set_concat)
  have old: "filter (\<lambda>x. bf_batch x = base + int i \<and> bf_firm x = ?firm) (db_batch_filings d) = []"
  proof -
    have "bf_batch x < base" if "x \<in> set (db_batch_filings d)" for x
    proof -
      from that assms(1) have "bf_batch x \<in> set (map b_id (db_batches d))"
        by (auto simp: schema_ok_def linkRef_ok_def)
      then show ?thesis unfolding planned(3) by (rule nextId_greater)
    qed
    then show ?thesis by (fastforce simp: filter_empty_conv)
  qed
  have links_i: "filter (\<lambda>x. bf_batch x = base + int i \<and> bf_firm x = ?firm) (db_batch_filings d')
      = groupLinkRows ?firm base i g"
    using old filter_group_links [of 0 i groups base ?firm] i by (simp add: planned(5,10))
  obtain row where row: "\<And>f. f \<in> set g \<Longrightarrow>
      filter (\<lambda>r. f_id r = pf_id f \<and> f_firm r = ?firm) (db_filings d') = [row f]
      \<and> f_key (row f) = pf_key f \<and> f_id (row f) = pf_id f"
  proof -
    have "\<exists>r. filter (\<lambda>r. f_id r = pf_id f \<and> f_firm r = ?firm) (db_filings d') = [r]
        \<and> f_key r = pf_key f \<and> f_id r = pf_id f" if "f \<in> set g" for f
    proof -
      from that sub have f: "f \<in> set (readyFilings ?firm ?det d)" by blast
      have "db_filings d' = map (\<lambda>f. if f_id f \<in> set (map pf_id (concat groups)) \<and> f_firm f = ?firm
          \<and> f_state f = FReady then f\<lparr>f_state := FBatched\<rparr> else f) (db_filings d)"
        by (simp add: planned(10))
      from groupOf_filings [OF assms(1) f this planned(11)] show ?thesis by metis
    qed
    then show thesis using that by metis
  qed
  have "batchFilings (b_id b) ?firm d' = map (\<lambda>f. (hexEncode (pf_key f), pf_id f)) g"
    unfolding batchFilings_def ig(2)
    using links_i expected_of_links [of g ?firm "db_filings d'" row base i] row
    by (simp add: groupRow_def plannedRow_def groupLinkRows_sorted)
  then have "batchFilings (b_id b) ?firm d' = map (\<lambda>f. (xd_RecordID (groupDetail f), pf_id f)) g"
    by (simp add: groupDetail_def filingKeyString_def)
  then show ?thesis
    using gOK sub ig(2) i planned(1,3)
    by (intro exI [of _ g]) (simp add: groupRow_def plannedRow_def planGroup_def)
qed (use assms(3,4) in auto)

text \<open>C10. A batch is what it says: the payload a plan stores is the canonical XML of one group
  of ready filings, its stored hash is that payload's SHA-256, it starts unclaimed in state
  \<open>planned\<close>, and the filings an acknowledgment must later settle are exactly the RecordIds
  of the payload, in order.\<close>

theorem plan_batch_contents:
  assumes "schema_ok d" and "PlanBatches now cmd d = (d', Inr r)"
    and "b \<in> set (db_batches d')" and "b \<notin> set (db_batches d)"
  shows "\<exists>grp. groupOK grp \<and> set grp \<subseteq> set (readyFilings (plan_FirmID cmd) (plan_DeterminationID cmd) d)
    \<and> b_firm b = plan_FirmID cmd \<and> b_client b = pf_clientID (hd grp)
    \<and> b_utid b = groupUTID (plan_FirmID cmd) grp
    \<and> b_xml b = groupXML (plan_FirmID cmd) grp \<and> b_hash b = sha256 (b_xml b)
    \<and> b_state b = BPlanned \<and> b_token b = None
    \<and> batchFilings (b_id b) (plan_FirmID cmd) d' = map (\<lambda>f. (xd_RecordID (groupDetail f), pf_id f)) grp"
  using plan_contents [OF assms] by blast

section \<open>The schema survives a plan\<close>

lemma PlanBatches_schema:
  assumes "schema_ok d" and "PlanBatches now cmd d = (d', r)"
  shows "schema_ok d'"
proof (cases r)
  case (Inl e)
  with assms show ?thesis by (auto dest: PlanBatches_Inl)
next
  case (Inr r')
  with assms(2) have "PlanBatches now cmd d = (d', Inr r')" by simp
  then show ?thesis
  proof (cases rule: PlanBatches_Inr)
    case (planned groups base rows links)
    have old: "linkRef_ok d' x" if "linkRef_ok d x" for x
    proof -
      have "map (\<lambda>f. (f_id f, f_firm f, f_client f)) (db_filings d') = map (\<lambda>f. (f_id f, f_firm f, f_client f)) (db_filings d)"
        by (simp add: planned(10))
      then have "set (map (\<lambda>f. (f_id f, f_firm f, f_client f)) (db_filings d')) = set (map (\<lambda>f. (f_id f, f_firm f, f_client f)) (db_filings d))"
        by metis
      with that show ?thesis unfolding linkRef_ok_def by (auto simp: planned(10))
    qed
    have fil: "\<forall>f \<in> set (db_filings d'). filing_row_ok f"
      using assms(1) planned(15) by (auto simp: planned(10) schema_ok_def)
    from assms(1) have "\<forall>x \<in> set (db_batch_filings d). linkRef_ok d x" by (simp add: schema_ok_def)
    with old planned(12) have "\<forall>x \<in> set (db_batch_filings d'). linkRef_ok d' x"
      by (auto simp: planned(10))
    moreover have "filingRefs_ok d'"
      by (rule filingRefs_ok_map [of d]) (use assms(1) in \<open>simp_all add: planned(10) schema_ok_def\<close>)
    ultimately show ?thesis using fil assms(1) planned(6-9,11)
      by (auto simp: schema_ok_def planned(10))
  qed (use assms(1) in simp)
qed

section \<open>Witnesses\<close>

definition samplePlan :: PlanBatchesCommand where
  "samplePlan = \<lparr>plan_FirmID = ''acme'', plan_DeterminationID = 1\<rparr>"

definition sampleGroup :: "plannedFiling list" where
  "sampleGroup = [scanFiling sampleFiling]"

lemma sample_ready: "readyFilings ''acme'' 1 sampleDb = sampleGroup"
  by (simp add: readyFilings_def plannable_def sampleGroup_def sampleDb_def sampleFiling_def)

lemma sample_groups: "groupsFrom sampleGroup 0 = [sampleGroup]"
  by (simp add: sampleGroup_def groupsFrom.simps groupEnd.simps slice_def)

lemma sample_plan_ok:
  "\<exists>d'. PlanBatches 0 samplePlan sampleDb = (d', Inr \<lparr>ExistingBatchCount = 0, CreatedBatchCount = 1\<rparr>)
        \<and> length (db_batches d') = 1"
proof -
  let ?row = "groupRow 0 ''acme'' 1 0 sampleGroup"
  have row: "plannedRows 0 ''acme'' sampleDb (planBatchesOf ''acme'' [sampleGroup]) = [?row]"
    by (simp add: plannedRows_groups) (simp add: sampleDb_def nextId_def)
  have xml: "groupXML ''acme'' sampleGroup \<noteq> []"
    by (simp add: groupXML_def canonicalXML_def case_prod_beta transmissionNode_def renderXML_nonempty)
  have ins: "insertBatches [?row] sampleDb = Inr (sampleDb\<lparr>db_batches := [?row]\<rparr>)"
    using xml by (simp add: insertBatches_def sql_insert_def sampleDb_def groupRow_def plannedRow_def
        planGroup_def schema_defs sampleGroup_def scanFiling_def sampleFiling_def)
  let ?d1 = "sampleDb\<lparr>db_batches := [?row]\<rparr>"
  have links: "linkRows ''acme'' ?d1 (planLinksOf ''acme'' [sampleGroup]) = groupLinkRows ''acme'' 1 0 sampleGroup"
    by (simp add: linkRows_def planLinksOf_def groupLinks_def groupLinkRows_def sampleGroup_def groupRow_def
        plannedRow_def planGroup_def)
  have lnk: "\<exists>d2. insertLinks (groupLinkRows ''acme'' 1 0 sampleGroup) ?d1 = Inr d2 \<and> db_filings d2 = [sampleFiling]
      \<and> db_batches d2 = [?row]"
    by (simp add: insertLinks_def sql_insert_def groupLinkRows_def sampleGroup_def scanFiling_def schema_defs
        sampleDb_def sampleFiling_def groupRow_def plannedRow_def planGroup_def)
  then obtain d2 where d2: "insertLinks (groupLinkRows ''acme'' 1 0 sampleGroup) ?d1 = Inr d2"
    "db_filings d2 = [sampleFiling]" "db_batches d2 = [?row]" by blast
  have mark: "markBatched ''acme'' (planLinksOf ''acme'' [sampleGroup]) d2
      = Inr (d2\<lparr>db_filings := [sampleFiling\<lparr>f_state := FBatched\<rparr>]\<rparr>, 1)"
    using d2(2) by (simp add: markBatched_def sql_update_def links_filings sampleGroup_def scanFiling_def
        schema_defs sampleFiling_def)
  have "planLinksOf ''acme'' [sampleGroup] \<noteq> []" "length (planLinksOf ''acme'' [sampleGroup]) = 1"
    "length (groupLinkRows ''acme'' 1 0 sampleGroup) = 1"
    by (simp_all add: planLinksOf_def groupLinks_def groupLinkRows_def sampleGroup_def)
  moreover have "existingBatchCount ''acme'' 1 sampleDb = 0" by (simp add: existingBatchCount_def sampleDb_def)
  moreover have "list_ex (\<lambda>f. length (pf_key f) \<noteq> 32) sampleGroup = False"
    by (simp add: sampleGroup_def scanFiling_def sampleFiling_def)
  ultimately show ?thesis
    using row ins links d2 mark
    by (simp add: PlanBatches_def samplePlan_def sample_ready sample_groups)
qed

theorem plan_covers_witness:
  "\<exists>d' r. PlanBatches 0 samplePlan sampleDb = (d', Inr r)
     \<and> readyFilings ''acme'' 1 d' = [] \<and> sampleFiling\<lparr>f_state := FBatched\<rparr> \<in> set (db_filings d')"
proof -
  obtain d' where d': "PlanBatches 0 samplePlan sampleDb = (d', Inr \<lparr>ExistingBatchCount = 0, CreatedBatchCount = 1\<rparr>)"
    using sample_plan_ok by blast
  have "plannable ''acme'' 1 sampleDb sampleFiling" "sampleFiling \<in> set (db_filings sampleDb)"
    by (simp_all add: plannable_def sampleDb_def sampleFiling_def)
  with plan_covers [OF sampleDb_ok d'] d' show ?thesis by (auto simp: samplePlan_def)
qed

theorem plan_replay_witness:
  "\<exists>d'. PlanBatches 7 samplePlan d' = (d', Inr \<lparr>ExistingBatchCount = 1, CreatedBatchCount = 0\<rparr>)"
proof -
  obtain d' where d': "PlanBatches 0 samplePlan sampleDb = (d', Inr \<lparr>ExistingBatchCount = 0, CreatedBatchCount = 1\<rparr>)"
    using sample_plan_ok by blast
  from plan_replay [OF sampleDb_ok d', of 7] show ?thesis by auto
qed

theorem plan_batch_contents_witness:
  "\<exists>d' b. b \<in> set (db_batches d') \<and> b_hash b = sha256 (b_xml b) \<and> b_state b = BPlanned
     \<and> length (batchFilings (b_id b) ''acme'' d') \<le> 100"
proof -
  obtain d' where d': "PlanBatches 0 samplePlan sampleDb = (d', Inr \<lparr>ExistingBatchCount = 0, CreatedBatchCount = 1\<rparr>)"
    and len: "length (db_batches d') = 1"
    using sample_plan_ok by blast
  then obtain b where b: "b \<in> set (db_batches d')" by (cases "db_batches d'") auto
  have "b \<notin> set (db_batches sampleDb)" by (simp add: sampleDb_def)
  note contents = plan_batch_contents [OF sampleDb_ok d' b this]
  then obtain grp where "length grp \<le> 100" "b_hash b = sha256 (b_xml b)" "b_state b = BPlanned"
    "batchFilings (b_id b) ''acme'' d' = map (\<lambda>f. (xd_RecordID (groupDetail f), pf_id f)) grp"
    unfolding groupOK_def samplePlan_def PlanBatchesCommand.simps by blast
  with b show ?thesis by (intro exI [of _ d'] exI [of _ b]) simp
qed

end
