(* ===== verification/Money.thy ===== *)
theory Money
  imports Identity
begin

text \<open>
  The shape of \<open>formatCents\<close> (\<open>identity.go\<close>), shared by the payload, the importer's amount
  grammar and the IRS's money grammar: sign, digits without a leading zero, a point and
  exactly two digits, for every amount but the least 64-bit integer.
\<close>

definition twoDigits :: "nat \<Rightarrow> string" where
  "twoDigits n = [digit (n div 10), digit (n mod 10)]"

lemma digit_chars: "map digit [0 ..< 10] = ''0123456789''"
  by code_simp

lemma digit_zero [simp]: "digit 0 = CHR ''0''"
  by code_simp

lemma dec_of_nat_small: "n < 10 \<Longrightarrow> dec_of_nat n = [digit n]"
  by (subst dec_of_nat.simps) simp

lemma dec_of_nat_two: "10 \<le> n \<Longrightarrow> n < 100 \<Longrightarrow> dec_of_nat n = twoDigits n"
  by (subst dec_of_nat.simps) (simp add: dec_of_nat_small twoDigits_def)

lemma fmt02d_two: "0 \<le> i \<Longrightarrow> i < 100 \<Longrightarrow> fmt02d i = twoDigits (nat i)"
proof (cases "i < 10")
  case True
  moreover assume "0 \<le> i"
  ultimately show ?thesis
    by (simp add: fmt02d_def twoDigits_def dec_of_nat_small)
next
  case False
  moreover assume "i < 100"
  ultimately show ?thesis
    using dec_of_nat_two [of "nat i"] by (simp add: fmt02d_def twoDigits_def)
qed

lemma formatCents_nonneg:
  "0 \<le> n \<Longrightarrow> formatCents n = dec_of_nat (nat n div 100) @ ''.'' @ twoDigits (nat n mod 100)"
  by (simp add: formatCents_def Let_def go_div_nonneg go_mod_nonneg fmt02d_two dec_of_int_def
      nat_div_distrib nat_mod_distrib)

lemma formatCents_neg:
  assumes "n < 0" and "- (2 ^ 63) < n"
  shows "formatCents n = CHR ''-'' # formatCents (- n)"
proof -
  have "wrap64 (wrap64 (- wrap64 (n + 1)) + 1) = - n"
    using assms by (simp add: int64_def)
  with assms show ?thesis by (simp add: formatCents_def Let_def)
qed

lemma dec_of_nat_leading: "dec_of_nat n = ''0'' \<or> hd (dec_of_nat n) \<noteq> CHR ''0''"
proof (induction n rule: dec_of_nat.induct)
  case (1 n)
  show ?case
  proof (cases "n < 10")
    case True
    then have "n \<in> {0, 1, 2, 3, 4, 5, 6, 7, 8, 9}" by auto
    then show ?thesis by (auto simp: dec_of_nat_small)
  next
    case False
    have "hd (dec_of_nat (n div 10)) \<noteq> CHR ''0''"
    proof (cases "dec_of_nat (n div 10) = ''0''")
      case True
      then have "nat_of_dec (dec_of_nat (n div 10)) = nat_of_dec ''0''" by (rule arg_cong)
      then have "n div 10 = nat_of_dec ''0''" by simp
      then have "n div 10 = 0" by (simp add: nat_of_dec_def digit_val_def)
      with False show ?thesis by simp
    qed (use 1 False in auto)
    with False show ?thesis by (subst (1 2) dec_of_nat.simps) (simp add: hd_append)
  qed
qed

lemma twoDigits_props:
  assumes "n < 100"
  shows "length (twoDigits n) = 2" and "list_all is_digit (twoDigits n)" and "nat_of_dec (twoDigits n) = n"
proof -
  have "n div 10 < 10" using assms by auto
  then show "length (twoDigits n) = 2" "list_all is_digit (twoDigits n)" "nat_of_dec (twoDigits n) = n"
    by (simp_all add: twoDigits_def nat_of_dec_def)
qed

lemma digit_not_special [simp]:
  "is_digit c \<Longrightarrow> c \<noteq> CHR ''.''" "is_digit c \<Longrightarrow> c \<noteq> CHR ''-''"
  by (auto simp: is_digit_def)

text \<open>The one amount \<open>formatCents\<close> cannot print: for the least 64-bit integer the negation
  wraps around and the result is malformed, with a sign on both sides of the point.\<close>

theorem format_cents_overflow: "formatCents (- (2 ^ 63)) = ''--92233720368547758.-8''"
proof -
  have negated: "wrap64 (wrap64 (- wrap64 (- (2 ^ 63) + 1)) + 1) = - (2 ^ 63)"
    by (simp add: wrap64_def)
  have parts: "go_div (- (2 ^ 63)) 100 = - 92233720368547758" "go_mod (- (2 ^ 63)) 100 = - 8"
    by (simp_all add: go_mod_def go_div_def)
  have "dec_of_nat 92233720368547758 = map digit [9, 2, 2, 3, 3, 7, 2, 0, 3, 6, 8, 5, 4, 7, 7, 5, 8]"
    by (simp add: dec_of_nat.simps)
  also have "\<dots> = ''92233720368547758''" by code_simp
  finally have whole: "dec_of_int (- 92233720368547758) = ''-92233720368547758''"
    by (simp add: dec_of_int_def)
  have fraction: "fmt02d (- 8) = ''-8''" by code_simp
  have "formatCents (- (2 ^ 63)) = ''-'' @ dec_of_int (go_div (- (2 ^ 63)) 100) @ ''.'' @ fmt02d (go_mod (- (2 ^ 63)) 100)"
    using negated by (simp only: formatCents_def Let_def) simp
  then show ?thesis unfolding parts whole fraction by simp
qed

end
