(* ===== verification/Importing.thy ===== *)
theory Importing
  imports Store_Base Money Samples
begin

text \<open>
  \<open>ImportDataset\<close> of \<open>postgres/internal/store/import.go\<close>: payment rows are copied to a
  staging table, validated as text, and stored once per firm and tax year with exact cents
  and a vendor identity. The SQL's regular expressions, casts and CASE are written out.
  Text is taken to be UTF-8 (the source checks it); a NUL is refused where it is copied, and
  \<open>[[:space:]]\<close> is ASCII white space.
\<close>

section \<open>The row source\<close>

text \<open>What a \<open>PaymentRowSource\<close> yields: its rows up to its end or its first error, and the
  hash it reports afterwards.\<close>

record rowSource =
  src_rows :: "PaymentRow list"
  src_error :: "go_error option"
  src_hash :: "bytes result"

text \<open>PostgreSQL has no NUL in text: copying a row with one fails (22021).\<close>

definition hasNUL :: "PaymentRow \<Rightarrow> bool" where
  "hasNUL row \<longleftrightarrow> list_ex (\<lambda>s. char_of (0::nat) \<in> set s)
     [pr_ClientID row, pr_VendorName row, pr_VendorTIN row, pr_PaymentDate row, pr_Amount row,
      pr_PaymentMethod row, pr_BackupWithholding row, pr_Memo row]"

text \<open>\<open>paymentCopySource\<close> under \<open>CopyFrom\<close>: the staged rows, or the source's own error.\<close>

definition copyFrom :: "rowSource \<Rightarrow> PaymentRow list result" where
  "copyFrom source =
     (case src_error source of
        Some e \<Rightarrow> Inl e
      | None \<Rightarrow> if list_ex hasNUL (src_rows source) then Inl (mapError (PgError ''22021'')) else Inr (src_rows source))"

section \<open>Validation\<close>

text \<open>\<open>^2025-[0-9]{2}-[0-9]{2}$\<close> and a day that exists.\<close>

definition daysIn2025 :: "nat \<Rightarrow> nat" where
  "daysIn2025 m = (if m \<in> {4, 6, 9, 11} then 30 else if m = 2 then 28 else 31)"

definition validDate :: "string \<Rightarrow> bool" where
  "validDate s \<longleftrightarrow>
     length s = 10 \<and> take 5 s = ''2025-'' \<and> list_all is_digit (take 2 (drop 5 s))
     \<and> s ! 7 = CHR ''-'' \<and> list_all is_digit (drop 8 s)
     \<and> (let m = nat_of_dec (take 2 (drop 5 s)); d = nat_of_dec (drop 8 s)
        in 1 \<le> m \<and> m \<le> 12 \<and> 1 \<le> d \<and> d \<le> daysIn2025 m)"

text \<open>\<open>(0|[1-9][0-9]*)(\.[0-9]{1,2})?\<close>: the digits before and after the point.\<close>

definition splitPoint :: "string \<Rightarrow> string \<times> string option" where
  "splitPoint s =
     (let whole = takeWhile (\<lambda>c. c \<noteq> CHR ''.'') s; rest = dropWhile (\<lambda>c. c \<noteq> CHR ''.'') s
      in (whole, if rest = [] then None else Some (tl rest)))"

definition validWhole :: "string \<Rightarrow> bool" where
  "validWhole w \<longleftrightarrow> w \<noteq> [] \<and> list_all is_digit w \<and> (w = ''0'' \<or> hd w \<noteq> CHR ''0'')"

definition validFraction :: "string option \<Rightarrow> bool" where
  "validFraction f \<longleftrightarrow>
     (case f of None \<Rightarrow> True | Some ds \<Rightarrow> list_all is_digit ds \<and> (length ds = 1 \<or> length ds = 2))"

definition validUnsigned :: "string \<Rightarrow> bool" where
  "validUnsigned s \<longleftrightarrow> (case splitPoint s of (w, f) \<Rightarrow> validWhole w \<and> validFraction f)"

text \<open>\<open>s::numeric * 100\<close> for an accepted text: two decimals make it an integer.\<close>

definition unsignedCents :: "string \<Rightarrow> int" where
  "unsignedCents s =
     (case splitPoint s of (w, f) \<Rightarrow>
        int (nat_of_dec w) * 100
        + (case f of None \<Rightarrow> 0
           | Some ds \<Rightarrow> if length ds = 1 then 10 * int (nat_of_dec ds) else int (nat_of_dec ds)))"

definition stripMinus :: "string \<Rightarrow> bool \<times> string" where
  "stripMinus s = (case s of c # rest \<Rightarrow> if c = CHR ''-'' then (True, rest) else (False, s) | [] \<Rightarrow> (False, s))"

definition amountCents :: "string \<Rightarrow> int" where
  "amountCents s = (case stripMinus s of (neg, u) \<Rightarrow> if neg then - unsignedCents u else unsignedCents u)"

definition maxBigint :: int where "maxBigint = 9223372036854775807"

definition validAmount :: "string \<Rightarrow> bool" where
  "validAmount s \<longleftrightarrow> validUnsigned (snd (stripMinus s)) \<and> \<bar>amountCents s\<bar> \<le> maxBigint"

definition validWithholding :: "string \<Rightarrow> bool" where
  "validWithholding s \<longleftrightarrow> validUnsigned s \<and> unsignedCents s \<le> maxBigint"

definition paymentMethods :: "string list" where
  "paymentMethods = [''check'', ''ach'', ''wire'', ''cash'', ''credit_card'', ''paypal'']"

definition invalidField :: "PaymentRow \<Rightarrow> string option" where
  "invalidField row =
     (if SourceRowNumber row \<le> 0 then Some ''source_row_number''
      else if btrim (pr_ClientID row) = '''' then Some ''client_id''
      else if btrim (pr_VendorName row) = '''' then Some ''vendor_name''
      else if \<not> validDate (pr_PaymentDate row) then Some ''payment_date''
      else if \<not> validAmount (pr_Amount row) then Some ''amount''
      else if pr_PaymentMethod row \<notin> set paymentMethods then Some ''payment_method''
      else if \<not> validWithholding (pr_BackupWithholding row) then Some ''backup_withholding''
      else None)"

text \<open>\<open>failures ... ORDER BY source_row_number LIMIT 1\<close>; of several failures of one row number
  SQL may return any, here the first.\<close>

definition importFailures :: "PaymentRow list \<Rightarrow> (int \<times> string) list" where
  "importFailures rows =
     [(SourceRowNumber row, f). row \<leftarrow> rows, f \<leftarrow> (case invalidField row of None \<Rightarrow> [] | Some f \<Rightarrow> [f])]
     @ [(n, ''source_row_number''). n \<leftarrow> remdups (map SourceRowNumber rows),
           count_list (map SourceRowNumber rows) n > 1]"

definition firstFailure :: "PaymentRow list \<Rightarrow> (int \<times> string) option" where
  "firstFailure rows =
     (case sort_key fst (importFailures rows) of [] \<Rightarrow> None | x # _ \<Rightarrow> Some x)"

section \<open>Vendor identity\<close>

definition asciiSpace :: "char \<Rightarrow> bool" where
  "asciiSpace c \<longleftrightarrow> byte_val c \<in> {9, 10, 11, 12, 13, 32}"

text \<open>\<open>regexp_replace(s, '[[:space:]]+', ' ', 'g')\<close>\<close>

fun collapseSpaces :: "string \<Rightarrow> string" where
  "collapseSpaces [] = []"
| "collapseSpaces (c # s) =
     (if asciiSpace c
      then (case s of [] \<Rightarrow> '' '' | d # _ \<Rightarrow> if asciiSpace d then collapseSpaces s else CHR '' '' # collapseSpaces s)
      else c # collapseSpaces s)"

definition lowerASCII :: "string \<Rightarrow> string" where
  "lowerASCII = map (\<lambda>c. if 65 \<le> byte_val c \<and> byte_val c \<le> 90 then char_of (byte_val c + 32) else c)"

definition strippedTIN :: "string \<Rightarrow> string" where
  "strippedTIN tin = filter (\<lambda>c. c \<noteq> CHR '' '' \<and> c \<noteq> CHR ''-'') tin"

definition vendorIdentity :: "string \<Rightarrow> string \<Rightarrow> string" where
  "vendorIdentity name tin =
     (if btrim tin = '''' then ''missing-tin:'' @ lowerASCII (collapseSpaces (btrim name))
      else if length (strippedTIN tin) = 9 \<and> list_all is_digit (strippedTIN tin)
      then ''tin:'' @ strippedTIN tin
      else ''malformed-tin:'' @ btrim tin)"

definition nullIfBlank :: "string \<Rightarrow> string option" where
  "nullIfBlank s = (if s = '''' then None else Some s)"

definition paymentRowOf :: "int \<Rightarrow> string \<Rightarrow> PaymentRow \<Rightarrow> payment_row" where
  "paymentRowOf datasetID firmID row =
     \<lparr>p_dataset = datasetID, p_source_row = SourceRowNumber row, p_firm = firmID,
      p_client = pr_ClientID row, p_vendor_name = btrim (pr_VendorName row),
      p_vendor_tin = nullIfBlank (btrim (pr_VendorTIN row)),
      p_vendor_identity = vendorIdentity (pr_VendorName row) (pr_VendorTIN row),
      p_date = pr_PaymentDate row, p_amount_cents = amountCents (pr_Amount row),
      p_method = pr_PaymentMethod row,
      p_withholding_cents = unsignedCents (pr_BackupWithholding row), p_memo = pr_Memo row\<rparr>"

section \<open>The transaction\<close>

definition insertNew :: "'a \<Rightarrow> 'a list \<Rightarrow> 'a list" where
  "insertNew x xs = (if x \<in> set xs then xs else xs @ [x])"

definition dataset_table_ok :: "dataset_row list \<Rightarrow> bool" where
  "dataset_table_ok ds \<longleftrightarrow>
     distinct (map d_id ds) \<and> distinct (map (\<lambda>x. (d_firm x, d_tax_year x)) ds)
     \<and> distinct (map (\<lambda>x. (d_firm x, d_hash x)) ds)"

definition dataset_row_ok :: "dataset_row \<Rightarrow> bool" where
  "dataset_row_ok x \<longleftrightarrow> length (d_hash x) = 32 \<and> 0 < d_row_count x \<and> 1900 \<le> d_tax_year x \<and> d_tax_year x \<le> 9999"

definition storeDataset :: "string \<Rightarrow> int \<Rightarrow> bytes \<Rightarrow> PaymentRow list \<Rightarrow> db \<Rightarrow> (db \<times> int) result" where
  "storeDataset firmID taxYear hash rows d =
     (let datasetID = nextId (map d_id (db_datasets d));
          row = \<lparr>d_id = datasetID, d_firm = firmID, d_tax_year = taxYear, d_hash = hash,
                 d_row_count = int (length rows)\<rparr>;
          newClients = map (\<lambda>r. (firmID, pr_ClientID r)) rows
      in case sql_insert dataset_row_ok (\<lambda>_. True) dataset_table_ok [row] (db_datasets d) of
           Inl code \<Rightarrow> Inl (mapError (PgError code))
         | Inr datasets \<Rightarrow>
             Inr (d\<lparr>db_firms := insertNew firmID (db_firms d), db_datasets := datasets,
                    db_clients := fold insertNew newClients (db_clients d),
                    db_payments := db_payments d @ map (paymentRowOf datasetID firmID) rows\<rparr>,
                  datasetID))"

definition ImportDataset ::
  "ImportDatasetCommand \<Rightarrow> rowSource option \<Rightarrow> db \<Rightarrow> db \<times> DatasetResult result" where
  "ImportDataset command source d =
     (let firmID = imp_FirmID command; taxYear = imp_TaxYear command in
      case source of
        None \<Rightarrow> (d, Inl (ErrMsg ''invalid import command''))
      | Some rows \<Rightarrow>
        if taxYear \<noteq> 2025 then (d, Inl (ErrMsg ''invalid import command''))
        else case beginFirm firmID of
          Inl e \<Rightarrow> (d, Inl e)
        | Inr _ \<Rightarrow>
          (case copyFrom rows of
             Inl e \<Rightarrow> (d, Inl e)
           | Inr staged \<Rightarrow>
             (case src_hash rows of
                Inl e \<Rightarrow> (d, Inl e)
              | Inr contentHash \<Rightarrow>
                if staged = [] then (d, Inl (ErrMsg ''empty dataset''))
                else case firstFailure staged of
                  Some (n, field) \<Rightarrow>
                    (d, Inl (ErrMsg (''source row '' @ dec_of_int n @ '': invalid '' @ field)))
                | None \<Rightarrow>
                  (case filter (\<lambda>x. d_firm x = firmID \<and> d_tax_year x = taxYear) (db_datasets d) of
                     x # _ \<Rightarrow>
                       if length (d_hash x) \<noteq> 32 then (d, Inl ErrInvariant)
                       else if d_hash x \<noteq> contentHash \<or> d_row_count x \<noteq> int (length staged)
                       then (d, Inl ErrConflict)
                       else (d, Inr \<lparr>ds_DatasetID = d_id x, ds_ContentSHA256 = d_hash x,
                                     ds_RowCount = d_row_count x, ds_Existing = True\<rparr>)
                   | [] \<Rightarrow>
                       (case storeDataset firmID taxYear contentHash staged d of
                          Inl e \<Rightarrow> (d, Inl e)
                        | Inr (d', datasetID) \<Rightarrow>
                            (d', Inr \<lparr>ds_DatasetID = datasetID, ds_ContentSHA256 = contentHash,
                                      ds_RowCount = int (length staged), ds_Existing = False\<rparr>))))))"

section \<open>Amounts survive\<close>

lemma splitPoint_append:
  assumes "list_all is_digit w"
  shows "splitPoint (w @ CHR ''.'' # f) = (w, Some f)"
proof -
  have "takeWhile (\<lambda>c. c \<noteq> CHR ''.'') (w @ CHR ''.'' # f) = w"
    "dropWhile (\<lambda>c. c \<noteq> CHR ''.'') (w @ CHR ''.'' # f) = CHR ''.'' # f"
    using assms by (induction w) auto
  then show ?thesis by (simp add: splitPoint_def)
qed

lemma unsigned_formatCents:
  assumes "0 \<le> n"
  shows "validUnsigned (formatCents n)" and "unsignedCents (formatCents n) = n"
    and "stripMinus (formatCents n) = (False, formatCents n)"
proof -
  let ?w = "dec_of_nat (nat n div 100)" and ?f = "twoDigits (nat n mod 100)"
  have f: "formatCents n = ?w @ CHR ''.'' # ?f" using formatCents_nonneg [OF assms] by simp
  have two: "length ?f = 2" "list_all is_digit ?f" "nat_of_dec ?f = nat n mod 100"
    by (simp_all add: twoDigits_props)
  have split: "splitPoint (formatCents n) = (?w, Some ?f)"
    unfolding f by (rule splitPoint_append) (rule dec_of_nat_digits)
  show "validUnsigned (formatCents n)"
    using dec_of_nat_leading [of "nat n div 100"] two
    by (simp add: validUnsigned_def split validWhole_def dec_of_nat_digits validFraction_def)
  have "nat n = nat n div 100 * 100 + nat n mod 100" by simp
  then have "int (nat n) = int (nat n div 100) * 100 + int (nat n mod 100)"
    by (metis of_nat_add of_nat_mult of_nat_numeral)
  with assms two show "unsignedCents (formatCents n) = n" by (simp add: unsignedCents_def split)
  obtain c rest where c: "?w = c # rest" by (cases ?w) auto
  with dec_of_nat_digits [of "nat n div 100"] have "is_digit c" by simp
  then have "c \<noteq> CHR ''-''" by (rule digit_not_special)
  with c show "stripMinus (formatCents n) = (False, formatCents n)"
    unfolding f by (simp add: stripMinus_def)
qed

text \<open>C24. What the payload prints, the importer reads back: every amount of cents in the importer's
  range is printed in the import grammar and denotes the same cents.\<close>

theorem import_money_roundtrip:
  assumes "\<bar>n\<bar> \<le> maxBigint"
  shows "validAmount (formatCents n) \<and> amountCents (formatCents n) = n
    \<and> (0 \<le> n \<longrightarrow> validWithholding (formatCents n) \<and> unsignedCents (formatCents n) = n)"
proof (cases "0 \<le> n")
  case True
  with assms unsigned_formatCents [OF True] show ?thesis
    by (simp add: validAmount_def amountCents_def validWithholding_def)
next
  case False
  with assms have n: "n < 0" "- (2 ^ 63) < n" "0 \<le> - n" by (auto simp: maxBigint_def)
  have "stripMinus (formatCents n) = (True, formatCents (- n))"
    by (simp add: formatCents_neg [OF n(1,2)] stripMinus_def)
  with assms unsigned_formatCents [OF n(3)] n show ?thesis
    by (simp add: validAmount_def amountCents_def)
qed

theorem import_money_roundtrip_witness:
  "validAmount (formatCents (- 1050)) \<and> amountCents (formatCents (- 1050)) = - 1050"
  using import_money_roundtrip [of "- 1050"] by (simp add: maxBigint_def)

section \<open>Importing is atomic and idempotent\<close>

lemma ImportDataset_Inl: "ImportDataset cmd src d = (d', Inl e) \<Longrightarrow> d' = d"
  by (auto simp: ImportDataset_def Let_def split: option.splits if_splits sum.splits list.splits)

text \<open>A source that gets past copying, hashing and validation.\<close>

definition importable :: "rowSource \<Rightarrow> PaymentRow list \<Rightarrow> bytes \<Rightarrow> bool" where
  "importable src staged hash \<longleftrightarrow>
     copyFrom src = Inr staged \<and> src_hash src = Inr hash \<and> staged \<noteq> [] \<and> firstFailure staged = None"

definition datasetFor :: "string \<Rightarrow> int \<Rightarrow> dataset_row \<Rightarrow> bool" where
  "datasetFor firmID taxYear x \<longleftrightarrow> d_firm x = firmID \<and> d_tax_year x = taxYear"

lemma ImportDataset_Inr:
  assumes "ImportDataset cmd (Some src) d = (d', Inr r)"
  obtains staged hash where "importable src staged hash" "imp_TaxYear cmd = 2025"
    "beginFirm (imp_FirmID cmd) = Inr ()"
    "(filter (datasetFor (imp_FirmID cmd) 2025) (db_datasets d) = []
        \<and> storeDataset (imp_FirmID cmd) 2025 hash staged d = Inr (d', ds_DatasetID r)
        \<and> \<not> ds_Existing r \<and> ds_ContentSHA256 r = hash \<and> ds_RowCount r = int (length staged))
     \<or> (\<exists>x rest. filter (datasetFor (imp_FirmID cmd) 2025) (db_datasets d) = x # rest \<and> d' = d
        \<and> length hash = 32 \<and> d_hash x = hash \<and> d_row_count x = int (length staged)
        \<and> r = \<lparr>ds_DatasetID = d_id x, ds_ContentSHA256 = hash, ds_RowCount = int (length staged),
               ds_Existing = True\<rparr>)"
  using assms that unfolding datasetFor_def [abs_def]
  by (auto simp: ImportDataset_def Let_def importable_def split: option.splits if_splits sum.splits list.splits)

lemma ImportDataset_existing:
  assumes "importable src staged hash" and "imp_TaxYear cmd = 2025" and "beginFirm (imp_FirmID cmd) = Inr ()"
    and "filter (datasetFor (imp_FirmID cmd) 2025) (db_datasets d) = x # rest" and "length (d_hash x) = 32"
  shows "ImportDataset cmd (Some src) d =
    (if d_hash x \<noteq> hash \<or> d_row_count x \<noteq> int (length staged) then (d, Inl ErrConflict)
     else (d, Inr \<lparr>ds_DatasetID = d_id x, ds_ContentSHA256 = d_hash x, ds_RowCount = d_row_count x,
                   ds_Existing = True\<rparr>))"
  using assms unfolding datasetFor_def [abs_def] importable_def by (simp add: ImportDataset_def Let_def)

lemma storeDataset_Inr:
  assumes "storeDataset firmID taxYear hash rows d = Inr (d', i)"
  obtains row where "row = \<lparr>d_id = i, d_firm = firmID, d_tax_year = taxYear, d_hash = hash,
      d_row_count = int (length rows)\<rparr>" "length hash = 32"
    "d' = d\<lparr>db_firms := insertNew firmID (db_firms d), db_datasets := db_datasets d @ [row],
            db_clients := fold insertNew (map (\<lambda>r. (firmID, pr_ClientID r)) rows) (db_clients d),
            db_payments := db_payments d @ map (paymentRowOf i firmID) rows\<rparr>"
    "dataset_table_ok (db_datasets d @ [row])" "i = nextId (map d_id (db_datasets d))"
proof -
  let ?row = "\<lparr>d_id = nextId (map d_id (db_datasets d)), d_firm = firmID, d_tax_year = taxYear,
      d_hash = hash, d_row_count = int (length rows)\<rparr>"
  obtain datasets where ins: "sql_insert dataset_row_ok (\<lambda>_. True) dataset_table_ok [?row] (db_datasets d)
      = Inr datasets"
    using assms by (auto simp: storeDataset_def Let_def split: sum.splits)
  note facts = sql_insert_Inr [OF ins]
  from facts(2) [of ?row] have "length hash = 32" by (simp add: dataset_row_ok_def)
  with ins facts(1,3) assms show thesis
    by (intro that [of ?row]) (auto simp add: storeDataset_def Let_def)
qed

text \<open>A successful import leaves its dataset first among those of its firm and year.\<close>

lemma import_stored:
  assumes "ImportDataset cmd (Some src) d = (d', Inr r)"
  obtains x rest where "imp_TaxYear cmd = 2025" "beginFirm (imp_FirmID cmd) = Inr ()"
    "filter (datasetFor (imp_FirmID cmd) 2025) (db_datasets d') = x # rest" "length (d_hash x) = 32"
    "d_hash x = ds_ContentSHA256 r" "d_row_count x = ds_RowCount r" "d_id x = ds_DatasetID r"
proof -
  from assms obtain staged hash where y: "imp_TaxYear cmd = 2025" "beginFirm (imp_FirmID cmd) = Inr ()"
    and cases: "(filter (datasetFor (imp_FirmID cmd) 2025) (db_datasets d) = []
        \<and> storeDataset (imp_FirmID cmd) 2025 hash staged d = Inr (d', ds_DatasetID r)
        \<and> \<not> ds_Existing r \<and> ds_ContentSHA256 r = hash \<and> ds_RowCount r = int (length staged))
     \<or> (\<exists>x rest. filter (datasetFor (imp_FirmID cmd) 2025) (db_datasets d) = x # rest \<and> d' = d
        \<and> length hash = 32 \<and> d_hash x = hash \<and> d_row_count x = int (length staged)
        \<and> r = \<lparr>ds_DatasetID = d_id x, ds_ContentSHA256 = hash, ds_RowCount = int (length staged),
               ds_Existing = True\<rparr>)"
    by (rule ImportDataset_Inr)
  have "\<exists>x rest. filter (datasetFor (imp_FirmID cmd) 2025) (db_datasets d') = x # rest
      \<and> length (d_hash x) = 32 \<and> d_hash x = ds_ContentSHA256 r \<and> d_row_count x = ds_RowCount r
      \<and> d_id x = ds_DatasetID r"
    using cases
  proof (elim disjE conjE)
    assume none: "filter (datasetFor (imp_FirmID cmd) 2025) (db_datasets d) = []"
      and st: "storeDataset (imp_FirmID cmd) 2025 hash staged d = Inr (d', ds_DatasetID r)"
      and r: "ds_ContentSHA256 r = hash" "ds_RowCount r = int (length staged)"
    from st obtain row where "row = \<lparr>d_id = ds_DatasetID r, d_firm = imp_FirmID cmd, d_tax_year = 2025,
        d_hash = hash, d_row_count = int (length staged)\<rparr>" "length hash = 32"
      "db_datasets d' = db_datasets d @ [row]"
      by (rule storeDataset_Inr) simp
    with none r show ?thesis by (simp add: datasetFor_def)
  next
    assume "\<exists>x rest. filter (datasetFor (imp_FirmID cmd) 2025) (db_datasets d) = x # rest \<and> d' = d
        \<and> length hash = 32 \<and> d_hash x = hash \<and> d_row_count x = int (length staged)
        \<and> r = \<lparr>ds_DatasetID = d_id x, ds_ContentSHA256 = hash, ds_RowCount = int (length staged),
               ds_Existing = True\<rparr>"
    then obtain x rest where "filter (datasetFor (imp_FirmID cmd) 2025) (db_datasets d) = x # rest" "d' = d"
      "length hash = 32" "d_hash x = hash" "d_row_count x = int (length staged)"
      "r = \<lparr>ds_DatasetID = d_id x, ds_ContentSHA256 = hash, ds_RowCount = int (length staged),
            ds_Existing = True\<rparr>" by blast
    then show ?thesis by (intro exI [of _ x] exI [of _ rest]) simp
  qed
  with y that show thesis by blast
qed

text \<open>C23. One dataset per firm and year: after a successful import the same content is answered
  with the stored dataset and any other content is a conflict; neither writes anything.\<close>

theorem import_replay:
  assumes "ImportDataset cmd (Some src) d = (d', Inr r)" and "importable src' staged' hash'"
  shows "ImportDataset cmd (Some src') d'
    = (if hash' = ds_ContentSHA256 r \<and> int (length staged') = ds_RowCount r
       then (d', Inr (r\<lparr>ds_Existing := True\<rparr>)) else (d', Inl ErrConflict))"
proof -
  from assms(1) obtain x rest where x: "imp_TaxYear cmd = 2025" "beginFirm (imp_FirmID cmd) = Inr ()"
    "filter (datasetFor (imp_FirmID cmd) 2025) (db_datasets d') = x # rest" "length (d_hash x) = 32"
    "d_hash x = ds_ContentSHA256 r" "d_row_count x = ds_RowCount r" "d_id x = ds_DatasetID r"
    by (rule import_stored)
  show ?thesis using ImportDataset_existing [OF assms(2) x(1-4)] x(5-7) by auto
qed

definition sampleSource :: "bytes \<Rightarrow> rowSource" where
  "sampleSource hash = \<lparr>src_rows = [\<lparr>SourceRowNumber = 1, pr_ClientID = ''c1'', pr_VendorName = ''Vendor'',
      pr_VendorTIN = ''123-45-6789'', pr_PaymentDate = ''2025-03-31'', pr_Amount = ''600.00'',
      pr_PaymentMethod = ''ach'', pr_BackupWithholding = ''0'', pr_Memo = ''''\<rparr>],
     src_error = None, src_hash = Inr hash\<rparr>"

lemma sampleSource_copied: "copyFrom (sampleSource hash) = Inr (src_rows (sampleSource hash))"
proof -
  have "\<not> list_ex hasNUL (src_rows (sampleSource []))" by code_simp
  moreover have "src_rows (sampleSource hash) = src_rows (sampleSource [])" by (simp add: sampleSource_def)
  moreover have "src_error (sampleSource hash) = None" by (simp add: sampleSource_def)
  ultimately show ?thesis by (simp add: copyFrom_def)
qed

lemma sampleSource_importable: "importable (sampleSource hash) (src_rows (sampleSource hash)) hash"
proof -
  have "firstFailure (src_rows (sampleSource [])) = None" by code_simp
  moreover have "src_rows (sampleSource hash) = src_rows (sampleSource [])" by (simp add: sampleSource_def)
  ultimately show ?thesis by (simp add: importable_def sampleSource_copied) (simp add: sampleSource_def)
qed

definition emptyDb :: db where
  "emptyDb = \<lparr>db_firms = [], db_clients = [], db_datasets = [], db_payments = [], db_determinations = [],
     db_filings = [], db_batches = [], db_batch_filings = [], db_gates = [], db_calls = []\<rparr>"

definition sampleImport :: ImportDatasetCommand where
  "sampleImport = \<lparr>imp_FirmID = ''acme'', imp_TaxYear = 2025\<rparr>"

lemma sample_import:
  assumes "length hash = 32"
  shows "\<exists>d'. ImportDataset sampleImport (Some (sampleSource hash)) emptyDb
    = (d', Inr \<lparr>ds_DatasetID = 1, ds_ContentSHA256 = hash, ds_RowCount = 1, ds_Existing = False\<rparr>)"
proof -
  have "firstFailure (src_rows (sampleSource hash)) = None"
    using sampleSource_importable [of hash] by (simp add: importable_def)
  moreover have "length (src_rows (sampleSource hash)) = 1" by (simp add: sampleSource_def)
  moreover have "copyFrom (sampleSource hash) = Inr (src_rows (sampleSource hash))" by (rule sampleSource_copied)
  moreover have "src_hash (sampleSource hash) = Inr hash" by (simp add: sampleSource_def)
  ultimately show ?thesis
    using assms by (cases "src_rows (sampleSource hash)")
      (simp_all add: ImportDataset_def Let_def sampleImport_def emptyDb_def storeDataset_def sql_insert_def
        dataset_row_ok_def dataset_table_ok_def nextId_def)
qed

theorem import_replay_witness:
  "\<exists>d'. ImportDataset sampleImport (Some (sampleSource (replicate 32 CHR ''b''))) d' = (d', Inl ErrConflict)"
proof -
  obtain d' where d': "ImportDataset sampleImport (Some (sampleSource (replicate 32 CHR ''a''))) emptyDb
    = (d', Inr \<lparr>ds_DatasetID = 1, ds_ContentSHA256 = replicate 32 CHR ''a'', ds_RowCount = 1, ds_Existing = False\<rparr>)"
    using sample_import [of "replicate 32 CHR ''a''"] by auto
  have "replicate 32 CHR ''b'' \<noteq> replicate 32 CHR ''a''" by (simp add: replicate_eq_replicate)
  with import_replay [OF d' sampleSource_importable [of "replicate 32 CHR ''b''"]] show ?thesis
    by (intro exI [of _ d']) simp
qed

end
