(* ===== verification/Determination.thy ===== *)
theory Determination
  imports Importing
begin

text \<open>
  \<open>postgres/internal/store/determination.go\<close> and the classification view of the schema:
  which payees of a dataset need a 1099-NEC, the amounts and preflight state of each filing,
  and the explanation of a filing by its payments. The SQL's common table expressions are
  functions here, named as there; rows SQL inserts in no particular order come in the order
  their payee first appears.
\<close>

section \<open>Classification and aggregation\<close>

definition counted :: "payment_row \<Rightarrow> bool" where
  "counted p \<longleftrightarrow> p_method p \<in> {''check'', ''ach'', ''wire'', ''cash''}"

definition exclusionReason :: "payment_row \<Rightarrow> string option" where
  "exclusionReason p =
     (if p_method p = ''credit_card'' then Some ExcludedPaymentProcessor
      else if p_method p = ''paypal'' then Some ExcludedThirdPartyNetwork else None)"

definition classified :: "int \<Rightarrow> string \<Rightarrow> db \<Rightarrow> payment_row list" where
  "classified datasetID firmID d =
     filter (\<lambda>p. p_dataset p = datasetID \<and> p_firm p = firmID) (db_payments d)"

definition payee :: "payment_row \<Rightarrow> string \<times> string" where
  "payee p = (p_client p, p_vendor_identity p)"

definition paidTo :: "string \<times> string \<Rightarrow> payment_row list \<Rightarrow> payment_row list" where
  "paidTo key ps = filter (\<lambda>p. payee p = key) ps"

definition reportableCents :: "payment_row list \<Rightarrow> int" where
  "reportableCents ps = sum_list (map p_amount_cents (filter counted ps))"

definition withholdingCents :: "payment_row list \<Rightarrow> int" where
  "withholdingCents ps = sum_list (map p_withholding_cents ps)"

text \<open>The \<open>HAVING\<close> clause.\<close>

definition qualifies :: "payment_row list \<Rightarrow> bool" where
  "qualifies ps \<longleftrightarrow> 60000 \<le> reportableCents ps \<or> 0 < withholdingCents ps"

text \<open>The most frequent vendor name, ties to the least.\<close>

definition displayName :: "payment_row list \<Rightarrow> string" where
  "displayName ps =
     (let names = map p_vendor_name ps
      in hd (sort_key (\<lambda>n. (- int (count_list names n), n)) (remdups names)))"

definition recipientTIN :: "string \<Rightarrow> string option" where
  "recipientTIN identity = (if hasPrefix identity ''tin:'' then Some (drop 4 identity) else None)"

section \<open>Filing keys and preflight\<close>

text \<open>\<open>int4send(octet_length(convert_to(x,'UTF8'))) || convert_to(x,'UTF8')\<close>\<close>

definition int4send :: "nat \<Rightarrow> bytes" where
  "int4send n = nat_bytes_be 4 n"

definition sqlFrame :: "string \<Rightarrow> bytes" where
  "sqlFrame x = int4send (length x) @ x"

definition sqlFilingKey :: "string \<Rightarrow> string \<Rightarrow> string \<Rightarrow> string \<Rightarrow> bytes" where
  "sqlFilingKey firmID clientID taxYearText identity =
     sha256 (sqlFrame ''filing-key-v1'' @ sqlFrame firmID @ sqlFrame clientID @ sqlFrame taxYearText
             @ sqlFrame ''1099-NEC'' @ sqlFrame identity @ sqlFrame ''0'')"

definition preflightReason :: "string \<Rightarrow> string option \<Rightarrow> int \<Rightarrow> string option" where
  "preflightReason identity tin cents =
     (if hasPrefix identity ''missing-tin:'' then Some ReasonTINMissing
      else if hasPrefix identity ''malformed-tin:'' then Some ReasonTINMalformed
      else if (case tin of None \<Rightarrow> False | Some t \<Rightarrow> hasPrefix t ''000'') then Some ReasonTINInvalid
      else if cents \<le> 0 then Some ReasonAmountInvalid
      else None)"

definition preparedFiling :: "string \<Rightarrow> int \<Rightarrow> int \<Rightarrow> payment_row list \<Rightarrow> string \<times> string \<Rightarrow> filing_row" where
  "preparedFiling firmID determinationID taxYear classifiedRows key =
     (let ps = paidTo key classifiedRows; client = fst key; identity = snd key;
          reason = preflightReason identity (recipientTIN identity) (reportableCents ps)
      in \<lparr>f_id = 0, f_firm = firmID, f_client = client, f_determination = determinationID,
          f_tax_year = taxYear, f_vendor_identity = identity, f_vendor_display_name = displayName ps,
          f_recipient_tin = recipientTIN identity,
          f_key = sqlFilingKey firmID client (dec_of_int taxYear) identity,
          f_reportable_cents = reportableCents ps, f_withholding_cents = withholdingCents ps,
          f_state = (if reason = None then FReady else FBlockedPreflight),
          f_preflight_reason = reason, f_irs_record_id = None, f_rejection_reason = None,
          f_acknowledged_at = None\<rparr>)"

definition payees :: "payment_row list \<Rightarrow> (string \<times> string) list" where
  "payees ps = filter (\<lambda>key. qualifies (paidTo key ps)) (remdups (map payee ps))"

definition prepared :: "string \<Rightarrow> int \<Rightarrow> int \<Rightarrow> payment_row list \<Rightarrow> filing_row list" where
  "prepared firmID determinationID taxYear ps =
     map (preparedFiling firmID determinationID taxYear ps) (payees ps)"

text \<open>The \<open>::bigint\<close> casts of the sums.\<close>

definition castsOK :: "filing_row list \<Rightarrow> bool" where
  "castsOK fs \<longleftrightarrow> list_all (\<lambda>f. int64 (f_reportable_cents f) \<and> int64 (f_withholding_cents f)) fs"

definition numberFilings :: "int \<Rightarrow> filing_row list \<Rightarrow> filing_row list" where
  "numberFilings base fs = map (\<lambda>(i, f). f\<lparr>f_id := base + int i\<rparr>) (enumerate 0 fs)"

section \<open>The transaction\<close>

definition countState :: "filing_state \<Rightarrow> filing_row list \<Rightarrow> int" where
  "countState st fs = int (length (filter (\<lambda>f. f_state f = st) fs))"

definition filingsOf :: "int \<Rightarrow> string \<Rightarrow> db \<Rightarrow> filing_row list" where
  "filingsOf determinationID firmID d =
     filter (\<lambda>f. f_determination f = determinationID \<and> f_firm f = firmID) (db_filings d)"

definition insertFilings :: "filing_row list \<Rightarrow> db \<Rightarrow> db result" where
  "insertFilings new d =
     (if \<not> castsOK new then Inl (mapError (PgError ''22003''))
      else case sql_insert filing_row_ok (\<lambda>f. (f_firm f, f_client f) \<in> set (db_clients d)) filing_table_ok
                  (numberFilings (nextId (map f_id (db_filings d))) new) (db_filings d) of
             Inl code \<Rightarrow> Inl (mapError (PgError code))
           | Inr fs \<Rightarrow> Inr (d\<lparr>db_filings := fs\<rparr>))"

definition insertDetermination :: "int \<Rightarrow> string \<Rightarrow> string \<Rightarrow> db \<Rightarrow> (db \<times> int) result" where
  "insertDetermination datasetID firmID ruleset d =
     (let row = \<lparr>dt_id = nextId (map dt_id (db_determinations d)), dt_dataset = datasetID,
                 dt_firm = firmID, dt_ruleset = ruleset\<rparr>
      in case sql_insert (\<lambda>x. dt_ruleset x = RulesetNEC2025V1) (\<lambda>_. True) determination_table_ok
                [row] (db_determinations d) of
           Inl code \<Rightarrow> Inl (mapError (PgError code))
         | Inr dts \<Rightarrow> Inr (d\<lparr>db_determinations := dts\<rparr>, dt_id row))"

definition DetermineDataset ::
  "DetermineDatasetCommand \<Rightarrow> db \<Rightarrow> db \<times> DeterminationResult result" where
  "DetermineDataset command d =
     (let firmID = det_FirmID command; datasetID = det_DatasetID command;
          ruleset = det_RulesetVersion command in
      if datasetID \<le> 0 \<or> ruleset \<noteq> RulesetNEC2025V1
      then (d, Inl (ErrMsg ''invalid determination command''))
      else case beginFirm firmID of
        Inl e \<Rightarrow> (d, Inl e)
      | Inr _ \<Rightarrow>
        (case filter (\<lambda>x. dt_firm x = firmID \<and> dt_dataset x = datasetID \<and> dt_ruleset x = ruleset)
                (db_determinations d) of
           x # _ \<Rightarrow>
             (d, Inr \<lparr>dr_DeterminationID = dt_id x,
                      dr_ReadyCount = countState FReady (filingsOf (dt_id x) firmID d),
                      dr_BlockedCount = countState FBlockedPreflight (filingsOf (dt_id x) firmID d),
                      dr_Existing = True\<rparr>)
         | [] \<Rightarrow>
           (case filter (\<lambda>x. d_id x = datasetID \<and> d_firm x = firmID) (db_datasets d) of
              [] \<Rightarrow> (d, Inl ErrNotFound)
            | ds # _ \<Rightarrow>
              (case insertDetermination datasetID firmID ruleset d of
                 Inl e \<Rightarrow> (d, Inl e)
               | Inr (d1, determinationID) \<Rightarrow>
                 (let new = prepared firmID determinationID (d_tax_year ds) (classified datasetID firmID d)
                  in case insertFilings new d1 of
                       Inl e \<Rightarrow> (d, Inl e)
                     | Inr d2 \<Rightarrow>
                         (d2, Inr \<lparr>dr_DeterminationID = determinationID,
                                   dr_ReadyCount = countState FReady new,
                                   dr_BlockedCount = countState FBlockedPreflight new,
                                   dr_Existing = False\<rparr>))))))"

section \<open>Explaining a filing\<close>

definition explainedPayment :: "payment_row \<Rightarrow> ExplainedPayment" where
  "explainedPayment p =
     \<lparr>ep_SourceRowNumber = p_source_row p, ep_VendorName = p_vendor_name p, ep_PaymentDate = p_date p,
      ep_AmountCents = p_amount_cents p, ep_PaymentMethod = p_method p,
      ep_WithholdingCents = p_withholding_cents p, ep_Counted = counted p,
      ep_ExclusionReason = (case exclusionReason p of None \<Rightarrow> '''' | Some r \<Rightarrow> r)\<rparr>"

text \<open>The scan loop: int64 sums, which may wrap around on the way.\<close>

definition addPayment :: "PaymentExplanation \<Rightarrow> payment_row \<Rightarrow> PaymentExplanation" where
  "addPayment acc p =
     (let payment = explainedPayment p in
      \<lparr>pe_Payments = pe_Payments acc @ [payment],
       pe_ReportableCents = (if ep_Counted payment
          then wrap64 (pe_ReportableCents acc + ep_AmountCents payment) else pe_ReportableCents acc),
       pe_WithholdingCents = wrap64 (pe_WithholdingCents acc + ep_WithholdingCents payment)\<rparr>)"

definition explainedRows :: "PaymentExplanationQuery \<Rightarrow> db \<Rightarrow> payment_row list" where
  "explainedRows query d =
     sort_key p_source_row
       [p. x \<leftarrow> filter (\<lambda>x. dt_id x = pq_DeterminationID query \<and> dt_firm x = pq_FirmID query)
                   (db_determinations d),
           p \<leftarrow> paidTo (pq_ClientID query, pq_VendorIdentity query)
                   (classified (dt_dataset x) (dt_firm x) d)]"

definition PaymentExplanationOf ::
  "PaymentExplanationQuery \<Rightarrow> db \<Rightarrow> PaymentExplanation result" where
  "PaymentExplanationOf query d =
     (if pq_DeterminationID query \<le> 0 \<or> pq_ClientID query = '''' \<or> pq_VendorIdentity query = ''''
      then Inl (ErrMsg ''invalid explanation query'')
      else case beginFirm (pq_FirmID query) of
        Inl e \<Rightarrow> Inl e
      | Inr _ \<Rightarrow>
          (let result = foldl addPayment
                 \<lparr>pe_Payments = [], pe_ReportableCents = 0, pe_WithholdingCents = 0\<rparr>
                 (explainedRows query d)
           in if pe_Payments result = [] then Inl ErrNotFound else Inr result))"

end
