(* ===== verification/Irs_Store.thy ===== *)
theory Irs_Store
  imports Complex_Main Prelude
begin

text \<open>
  The in-memory state of the IRS stub, \<open>irs/internal/stub/model.go\<close>: intake of a
  transmission, the per-record results, and the two lookups. Every operation runs under
  the store's mutex, so each is one function on the state. Float64 percentages and draws
  are rationals (comparisons exact, rounding of products not modelled); the entropy of
  \<open>crypto/rand\<close> and the clock are arguments.
\<close>

section \<open>State\<close>

record IrsConfig =
  ic_Addr :: string
  ic_BearerToken :: string
  FailBeforeRecordPercent :: rat
  FailAfterRecordPercent :: rat
  NeverAckPercent :: rat

record filingRecord =
  fr_recordID :: string
  fr_recipientName :: string
  fr_recipientTIN :: string
  fr_amountCents :: int
  fr_withholdingCents :: int

record transmission =
  tx_firmID :: string
  tx_clientID :: string
  tx_taxYear :: string
  tx_utid :: string
  tx_submissionID :: string
  tx_records :: "filingRecord list"

record recordResult =
  rr_recordID :: string
  rr_status :: string
  rr_irsRecordID :: string
  rr_errorReason :: string

record submission =
  sub_receiptID :: string
  sub_utid :: string
  sub_firmID :: string
  sub_clientID :: string
  sub_taxYear :: string
  sub_submissionID :: string
  sub_availableAt :: int
  sub_neverAcknowledges :: bool
  sub_results :: "recordResult list"

text \<open>\<open>firmUTID\<close> and \<open>originalRecordKey\<close> are the map keys.\<close>

type_synonym firmUTID = "string \<times> string"
type_synonym originalRecordKey = "string \<times> string \<times> string \<times> string"

record irs_store =
  st_config :: IrsConfig
  submissionsByFirmAndUTID :: "firmUTID \<rightharpoonup> submission"
  submissionsByReceiptID :: "string \<rightharpoonup> submission"
  originalRecords :: "originalRecordKey set"
  generatedIDs :: "string set"

datatype intakeFault = intakeSucceeded | failBeforeRecord | failAfterRecord

datatype irs_error = errDuplicateUTID | errDuplicateRecord

definition newStore :: "IrsConfig \<Rightarrow> irs_store" where
  "newStore config = \<lparr>st_config = config, submissionsByFirmAndUTID = Map.empty,
     submissionsByReceiptID = Map.empty, originalRecords = {}, generatedIDs = {}\<rparr>"

section \<open>Randomness\<close>

text \<open>\<open>randomFloat64\<close>: eight random bytes, big endian, the top 53 bits over \<open>2 ^ 53\<close>.\<close>

definition randomFloat64 :: "bytes \<Rightarrow> rat" where
  "randomFloat64 bs =
     of_int (foldl (\<lambda>v b. (v * 256 + int (byte_val b)) mod 2 ^ 64) 0 bs div 2 ^ 11) / 2 ^ 53"

text \<open>
  \<open>newOpaqueID\<close> draws 16-byte blocks until the identifier is fresh. The blocks it may draw
  are a list; running out of them (\<open>None\<close>) is the loop not returning on those draws.
\<close>

fun newOpaqueID :: "string \<Rightarrow> bytes list \<Rightarrow> string set \<Rightarrow> (string \<times> bytes list \<times> string set) option" where
  "newOpaqueID pre [] ids = None"
| "newOpaqueID pre (b # bs) ids =
     (let identifier = pre @ hexEncode b
      in if identifier \<in> ids then newOpaqueID pre bs ids
         else Some (identifier, bs, insert identifier ids))"

text \<open>What one intake call reads from outside: the three uniform draws, the identifier
  blocks and the clock (nanoseconds).\<close>

record irs_env =
  env_fault :: rat
  env_never :: rat
  env_delay :: rat
  env_blocks :: "bytes list"
  env_now :: int

definition ackDelayMinimum :: int where "ackDelayMinimum = 10 * 1000000000"
definition ackDelayRange :: int where "ackDelayRange = 20 * 1000000000"

text \<open>\<open>time.Time{}\<close>, 1 January of year 1, in nanoseconds from the Unix epoch.\<close>

definition zeroTime :: int where "zeroTime = - (62135596800 * 1000000000)"

section \<open>Results\<close>

definition isNineASCIIDigits :: "string \<Rightarrow> bool" where
  "isNineASCIIDigits value \<longleftrightarrow> length value = 9 \<and> list_all is_digit value"

definition classifyIntakeFault :: "rat \<Rightarrow> rat \<Rightarrow> rat \<Rightarrow> intakeFault" where
  "classifyIntakeFault draw failBeforePercent failAfterPercent =
     (if draw < failBeforePercent then failBeforeRecord
      else if draw < failBeforePercent + failAfterPercent then failAfterRecord
      else intakeSucceeded)"

definition resultFor ::
  "filingRecord \<Rightarrow> bytes list \<Rightarrow> string set \<Rightarrow> (recordResult \<times> bytes list \<times> string set) option" where
  "resultFor r bs ids =
     (let rejected = (\<lambda>reason. Some (\<lparr>rr_recordID = fr_recordID r, rr_status = ''Rejected'',
                                     rr_irsRecordID = '''', rr_errorReason = reason\<rparr>, bs, ids))
      in if trimSpace (fr_recipientTIN r) = '''' then rejected ''TIN_MISSING''
         else if \<not> isNineASCIIDigits (fr_recipientTIN r) then rejected ''TIN_MALFORMED''
         else if hasPrefix (fr_recipientTIN r) ''000'' then rejected ''TIN_INVALID''
         else if fr_amountCents r \<le> 0 then rejected ''AMOUNT_INVALID''
         else case newOpaqueID ''irsrec_'' bs ids of
                None \<Rightarrow> None
              | Some (i, bs', ids') \<Rightarrow>
                  Some (\<lparr>rr_recordID = fr_recordID r, rr_status = ''Accepted'',
                         rr_irsRecordID = i, rr_errorReason = ''''\<rparr>, bs', ids'))"

fun resultsFor ::
  "filingRecord list \<Rightarrow> bytes list \<Rightarrow> string set \<Rightarrow> (recordResult list \<times> bytes list \<times> string set) option" where
  "resultsFor [] bs ids = Some ([], bs, ids)"
| "resultsFor (r # rs) bs ids =
     (case resultFor r bs ids of
        None \<Rightarrow> None
      | Some (x, bs', ids') \<Rightarrow>
          (case resultsFor rs bs' ids' of
             None \<Rightarrow> None
           | Some (xs, bs'', ids'') \<Rightarrow> Some (x # xs, bs'', ids'')))"

section \<open>Intake\<close>

definition originalKey :: "transmission \<Rightarrow> filingRecord \<Rightarrow> originalRecordKey" where
  "originalKey t r = (tx_firmID t, tx_clientID t, tx_taxYear t, fr_recordID r)"

text \<open>The submission built once the results are known (the never-acknowledge draw and the
  acknowledgment delay included).\<close>

definition recordedSubmission ::
  "irs_env \<Rightarrow> IrsConfig \<Rightarrow> transmission \<Rightarrow> string \<Rightarrow> recordResult list \<Rightarrow> submission" where
  "recordedSubmission env config input receiptID results =
     (let neverAcknowledges = (env_never env * 100 < NeverAckPercent config);
          availableAt = (if neverAcknowledges then zeroTime
            else env_now env + (ackDelayMinimum + \<lfloor>env_delay env * of_int ackDelayRange\<rfloor>))
      in \<lparr>sub_receiptID = receiptID, sub_utid = tx_utid input,
          sub_firmID = tx_firmID input, sub_clientID = tx_clientID input,
          sub_taxYear = tx_taxYear input, sub_submissionID = tx_submissionID input,
          sub_availableAt = availableAt, sub_neverAcknowledges = neverAcknowledges,
          sub_results = results\<rparr>)"

definition storeSubmission :: "transmission \<Rightarrow> submission \<Rightarrow> string set \<Rightarrow> irs_store \<Rightarrow> irs_store" where
  "storeSubmission input recorded ids store =
     store\<lparr>submissionsByFirmAndUTID :=
             (submissionsByFirmAndUTID store)((tx_firmID input, tx_utid input) \<mapsto> recorded),
           submissionsByReceiptID :=
             (submissionsByReceiptID store)(sub_receiptID recorded \<mapsto> recorded),
           originalRecords :=
             set (map (originalKey input) (tx_records input)) \<union> originalRecords store,
           generatedIDs := ids\<rparr>"

definition storeRecord ::
  "irs_env \<Rightarrow> transmission \<Rightarrow> irs_store \<Rightarrow>
     (irs_store \<times> (irs_error + (string \<times> intakeFault))) option" where
  "storeRecord env input store =
     (let config = st_config store
      in if submissionsByFirmAndUTID store (tx_firmID input, tx_utid input) \<noteq> None
         then Some (store, Inl errDuplicateUTID)
         else if list_ex (\<lambda>r. originalKey input r \<in> originalRecords store) (tx_records input)
         then Some (store, Inl errDuplicateRecord)
         else
           (let fault = classifyIntakeFault (env_fault env * 100)
                          (FailBeforeRecordPercent config) (FailAfterRecordPercent config)
            in if fault = failBeforeRecord then Some (store, Inr ('''', failBeforeRecord))
               else case newOpaqueID ''rcpt_'' (env_blocks env) (generatedIDs store) of
                 None \<Rightarrow> None
               | Some (receiptID, bs, ids) \<Rightarrow>
                   (case resultsFor (tx_records input) bs ids of
                      None \<Rightarrow> None
                    | Some (results, _, ids') \<Rightarrow>
                        Some (storeSubmission input
                                (recordedSubmission env config input receiptID results) ids' store,
                              Inr (receiptID, fault)))))"

section \<open>Lookup\<close>

definition findByUTID :: "string \<Rightarrow> string \<Rightarrow> irs_store \<Rightarrow> submission option" where
  "findByUTID firmID utid store = submissionsByFirmAndUTID store (firmID, utid)"

definition findByReceiptID :: "string \<Rightarrow> string \<Rightarrow> irs_store \<Rightarrow> submission option" where
  "findByReceiptID firmID receiptID store =
     (case submissionsByReceiptID store receiptID of
        None \<Rightarrow> None
      | Some value \<Rightarrow> if sub_firmID value \<noteq> firmID then None else Some value)"

end
