(* ===== verification/Determination_Facts.thy ===== *)
theory Determination_Facts
  imports Determination Irs_Store "HOL-Library.Multiset"
begin

text \<open>
  What a determination decides: one filing per qualifying payee with exact sums, a preflight
  that agrees with the verdicts the IRS side gives, keys equal to the Go code's, idempotence,
  and an explanation whose totals are the filing's amounts.
\<close>

section \<open>Keys\<close>

text \<open>The filing key computed in SQL is the key the Go code defines.\<close>

theorem sql_filing_key:
  "sqlFilingKey firmID clientID (dec_of_int taxYear) identity = filingKey firmID clientID taxYear identity"
  by (simp add: sqlFilingKey_def sqlFrame_def int4send_def filingKey_def hashSequence_def
      frameValues_def filingKeyValues_def)

section \<open>A fresh determination\<close>

lemma DetermineDataset_Inl: "DetermineDataset cmd d = (d', Inl e) \<Longrightarrow> d' = d"
  by (auto simp: DetermineDataset_def Let_def split: if_splits sum.splits list.splits)

lemma DetermineDataset_fresh:
  assumes "DetermineDataset cmd d = (d', Inr r)" and "\<not> dr_Existing r"
  obtains ds :: dataset_row and row new where
    "new = prepared (det_FirmID cmd) (dr_DeterminationID r) (d_tax_year ds)
             (classified (det_DatasetID cmd) (det_FirmID cmd) d)"
    "dr_DeterminationID r = nextId (map dt_id (db_determinations d))"
    "row = \<lparr>dt_id = dr_DeterminationID r, dt_dataset = det_DatasetID cmd,
            dt_firm = det_FirmID cmd, dt_ruleset = det_RulesetVersion cmd\<rparr>"
    "d' = d\<lparr>db_determinations := db_determinations d @ [row],
            db_filings := db_filings d @ numberFilings (nextId (map f_id (db_filings d))) new\<rparr>"
    "dr_ReadyCount r = countState FReady new" "dr_BlockedCount r = countState FBlockedPreflight new"
    "castsOK new" "\<forall>f \<in> set (numberFilings (nextId (map f_id (db_filings d))) new). filing_row_ok f"
    "filing_table_ok (db_filings d')" "determination_table_ok (db_determinations d')"
    "beginFirm (det_FirmID cmd) = Inr ()" "0 < det_DatasetID cmd"
    "det_RulesetVersion cmd = RulesetNEC2025V1"
    "filter (\<lambda>x. dt_firm x = det_FirmID cmd \<and> dt_dataset x = det_DatasetID cmd
        \<and> dt_ruleset x = det_RulesetVersion cmd) (db_determinations d) = []"
proof -
  let ?firm = "det_FirmID cmd" and ?dataset = "det_DatasetID cmd" and ?rules = "det_RulesetVersion cmd"
  from assms obtain ds rest d1 i where guards: "0 < ?dataset" "?rules = RulesetNEC2025V1" "beginFirm ?firm = Inr ()"
    and none: "filter (\<lambda>x. dt_firm x = ?firm \<and> dt_dataset x = ?dataset \<and> dt_ruleset x = ?rules)
      (db_determinations d) = []"
    and dsrow: "filter (\<lambda>x. d_id x = ?dataset \<and> d_firm x = ?firm) (db_datasets d) = ds # rest"
    and det: "insertDetermination ?dataset ?firm ?rules d = Inr (d1, i)"
    and fil: "insertFilings (prepared ?firm i (d_tax_year ds) (classified ?dataset ?firm d)) d1 = Inr d'"
    and r: "r = \<lparr>dr_DeterminationID = i,
      dr_ReadyCount = countState FReady (prepared ?firm i (d_tax_year ds) (classified ?dataset ?firm d)),
      dr_BlockedCount = countState FBlockedPreflight (prepared ?firm i (d_tax_year ds) (classified ?dataset ?firm d)),
      dr_Existing = False\<rparr>"
    by (auto simp: DetermineDataset_def Let_def split: if_splits sum.splits list.splits)
  let ?new = "prepared ?firm i (d_tax_year ds) (classified ?dataset ?firm d)"
  let ?row = "\<lparr>dt_id = nextId (map dt_id (db_determinations d)), dt_dataset = ?dataset,
                 dt_firm = ?firm, dt_ruleset = ?rules\<rparr>"
  from det obtain dts where ins: "sql_insert (\<lambda>x. dt_ruleset x = RulesetNEC2025V1) (\<lambda>_. True)
      determination_table_ok [?row] (db_determinations d) = Inr dts"
    and i: "i = nextId (map dt_id (db_determinations d))" and d1: "d1 = d\<lparr>db_determinations := dts\<rparr>"
    by (auto simp: insertDetermination_def Let_def split: sum.splits)
  note dts = sql_insert_Inr [OF ins]
  from fil obtain fs where ins': "sql_insert filing_row_ok (\<lambda>f. (f_firm f, f_client f) \<in> set (db_clients d1))
      filing_table_ok (numberFilings (nextId (map f_id (db_filings d1))) ?new) (db_filings d1) = Inr fs"
    and casts: "castsOK ?new" and d': "d' = d1\<lparr>db_filings := fs\<rparr>"
    by (auto simp: insertFilings_def split: sum.splits if_splits)
  note fs = sql_insert_Inr [OF ins']
  have base: "db_filings d1 = db_filings d" by (simp add: d1)
  have eq: "d' = d\<lparr>db_determinations := db_determinations d @ [?row],
            db_filings := db_filings d @ numberFilings (nextId (map f_id (db_filings d))) ?new\<rparr>"
    unfolding d' fs(1) base unfolding d1 dts(1) by simp
  have "\<forall>f \<in> set (numberFilings (nextId (map f_id (db_filings d))) ?new). filing_row_ok f"
    using fs(2) base by simp
  moreover have "filing_table_ok (db_filings d')" "determination_table_ok (db_determinations d')"
    using fs(3) dts(3) by (simp_all add: d' d1)
  ultimately show thesis
    using guards none eq casts r i
    by (intro that [of ?new ds ?row]) simp_all
qed

lemma numberFilings_map:
  assumes "\<And>f n. g (f\<lparr>f_id := n\<rparr>) = g f"
  shows "map g (numberFilings base fs) = map g fs"
proof -
  have "map g (map (\<lambda>(i, f). f\<lparr>f_id := base + int i\<rparr>) (enumerate n fs)) = map g fs" for n
    using assms by (induction fs arbitrary: n) auto
  then show ?thesis by (simp add: numberFilings_def)
qed

lemma numberFilings_ball:
  assumes "\<And>f n. P (f\<lparr>f_id := n\<rparr>) = P f"
  shows "(\<forall>f \<in> set (numberFilings base fs). P f) \<longleftrightarrow> (\<forall>f \<in> set fs. P f)"
proof -
  have "(\<forall>f \<in> set (map (\<lambda>(i, f). f\<lparr>f_id := base + int i\<rparr>) (enumerate n fs)). P f) \<longleftrightarrow> (\<forall>f \<in> set fs. P f)" for n
    using assms by (induction fs arbitrary: n) auto
  then show ?thesis by (simp add: numberFilings_def)
qed

lemma filter_numberFilings:
  assumes "\<And>f n. g (f\<lparr>f_id := n\<rparr>) = g f" and "\<And>f n. P (f\<lparr>f_id := n\<rparr>) = P f"
  shows "map g (filter P (numberFilings base fs)) = map g (filter P fs)"
proof -
  have "map g (filter P (map (\<lambda>(i, f). f\<lparr>f_id := base + int i\<rparr>) (enumerate n fs))) = map g (filter P fs)" for n
    using assms by (induction fs arbitrary: n) auto
  then show ?thesis by (simp add: numberFilings_def)
qed

lemma qualifies_Nil [simp]: "\<not> qualifies []"
  by (simp add: qualifies_def reportableCents_def withholdingCents_def)

lemma filter_prepared:
  "filter (\<lambda>f. f_client f = fst key \<and> f_vendor_identity f = snd key) (prepared firm i year ps)
     = (if qualifies (paidTo key ps) then [preparedFiling firm i year ps key] else [])"
proof -
  have "filter (\<lambda>f. f_client f = fst key \<and> f_vendor_identity f = snd key) (map (preparedFiling firm i year ps) ks)
      = map (preparedFiling firm i year ps) (filter (\<lambda>k. k = key) ks)" for ks
    by (induction ks) (auto simp: preparedFiling_def Let_def prod_eq_iff)
  moreover have "filter (\<lambda>k. k = key) (payees ps) = (if qualifies (paidTo key ps) then [key] else [])"
  proof -
    have "key \<in> payee ` set ps" if "qualifies (paidTo key ps)"
    proof -
      have "paidTo key ps \<noteq> []" using that by (metis qualifies_Nil)
      then show ?thesis by (auto simp: paidTo_def filter_empty_conv)
    qed
    then have iff: "key \<in> set (payees ps) \<longleftrightarrow> qualifies (paidTo key ps)" by (auto simp: payees_def)
    have "distinct (payees ps)" by (simp add: payees_def)
    with iff show ?thesis by (simp add: filter_eq_single)
  qed
  ultimately show ?thesis by (simp add: prepared_def)
qed

text \<open>C14. The determination decides correctly: each payee of the dataset has one new filing exactly
  when the counted payments reach 600 dollars or tax was withheld, with exactly those sums and
  the preflight state they imply, and the result counts the ready and the blocked filings.\<close>

theorem determination_correct:
  assumes "DetermineDataset cmd d = (d', Inr r)" and "\<not> dr_Existing r"
  shows "\<exists>new. db_filings d' = db_filings d @ new
    \<and> (\<forall>client identity.
         let ps = paidTo (client, identity) (classified (det_DatasetID cmd) (det_FirmID cmd) d)
         in map (\<lambda>f. (f_reportable_cents f, f_withholding_cents f, f_state f, f_preflight_reason f))
              (filter (\<lambda>f. f_client f = client \<and> f_vendor_identity f = identity) new)
            = (if 60000 \<le> reportableCents ps \<or> 0 < withholdingCents ps
               then let reason = preflightReason identity (recipientTIN identity) (reportableCents ps)
                    in [(reportableCents ps, withholdingCents ps,
                         if reason = None then FReady else FBlockedPreflight, reason)]
               else []))
    \<and> dr_ReadyCount r + dr_BlockedCount r = int (length new)"
proof -
  from assms obtain ds :: dataset_row and row new where
    new: "new = prepared (det_FirmID cmd) (dr_DeterminationID r) (d_tax_year ds)
             (classified (det_DatasetID cmd) (det_FirmID cmd) d)"
    and d': "d' = d\<lparr>db_determinations := db_determinations d @ [row],
            db_filings := db_filings d @ numberFilings (nextId (map f_id (db_filings d))) new\<rparr>"
    and counts: "dr_ReadyCount r = countState FReady new" "dr_BlockedCount r = countState FBlockedPreflight new"
    by (rule DetermineDataset_fresh)
  let ?rows = "classified (det_DatasetID cmd) (det_FirmID cmd) d"
  let ?num = "numberFilings (nextId (map f_id (db_filings d))) new"
  have each: "map (\<lambda>f. (f_reportable_cents f, f_withholding_cents f, f_state f, f_preflight_reason f))
              (filter (\<lambda>f. f_client f = client \<and> f_vendor_identity f = identity) ?num)
      = (if qualifies (paidTo (client, identity) ?rows)
         then let reason = preflightReason identity (recipientTIN identity) (reportableCents (paidTo (client, identity) ?rows))
                    in [(reportableCents (paidTo (client, identity) ?rows), withholdingCents (paidTo (client, identity) ?rows),
                         if reason = None then FReady else FBlockedPreflight, reason)]
         else [])" for client identity
    using filter_numberFilings [of "\<lambda>f. (f_reportable_cents f, f_withholding_cents f, f_state f, f_preflight_reason f)"
        "\<lambda>f. f_client f = client \<and> f_vendor_identity f = identity" "nextId (map f_id (db_filings d))" new]
      filter_prepared [of "(client, identity)" "det_FirmID cmd" "dr_DeterminationID r" "d_tax_year ds" ?rows] new
    by (simp add: preparedFiling_def Let_def)
  have "f_state f = FReady \<or> f_state f = FBlockedPreflight" if "f \<in> set new" for f
    using that new by (auto simp: prepared_def preparedFiling_def Let_def split: if_splits)
  then have "countState FReady new + countState FBlockedPreflight new = int (length new)"
    by (induction new) (auto simp: countState_def)
  then have "dr_ReadyCount r + dr_BlockedCount r = int (length ?num)"
    by (simp add: counts numberFilings_def)
  with each show ?thesis
    by (intro exI [of _ ?num]) (simp add: d' qualifies_def Let_def)
qed

section \<open>Idempotence\<close>

lemma nextId_fresh: "nextId ids \<notin> set ids"
proof
  have "i \<in> set ids \<Longrightarrow> i \<le> foldr max ids 0" for i by (induction ids) auto
  moreover assume "nextId ids \<in> set ids"
  ultimately show False by (simp add: nextId_def) fastforce
qed

lemma filingsOf_fresh:
  assumes "schema_ok d" and "DetermineDataset cmd d = (d', Inr r)" and "\<not> dr_Existing r"
  obtains new where "filingsOf (dr_DeterminationID r) (det_FirmID cmd) d'
      = numberFilings (nextId (map f_id (db_filings d))) new"
    "dr_ReadyCount r = countState FReady new" "dr_BlockedCount r = countState FBlockedPreflight new"
proof -
  from assms(2,3) obtain ds :: dataset_row and row new where
    new: "new = prepared (det_FirmID cmd) (dr_DeterminationID r) (d_tax_year ds)
             (classified (det_DatasetID cmd) (det_FirmID cmd) d)"
    and i: "dr_DeterminationID r = nextId (map dt_id (db_determinations d))"
    and d': "d' = d\<lparr>db_determinations := db_determinations d @ [row],
            db_filings := db_filings d @ numberFilings (nextId (map f_id (db_filings d))) new\<rparr>"
    and counts: "dr_ReadyCount r = countState FReady new" "dr_BlockedCount r = countState FBlockedPreflight new"
    by (rule DetermineDataset_fresh)
  have "f_determination f \<noteq> dr_DeterminationID r" if "f \<in> set (db_filings d)" for f
  proof -
    from that assms(1) have "f_determination f \<in> set (map dt_id (db_determinations d))"
      by (auto simp: schema_ok_def filingRefs_ok_def)
    with i nextId_fresh show ?thesis by metis
  qed
  then have old: "filter (\<lambda>f. f_determination f = dr_DeterminationID r \<and> f_firm f = det_FirmID cmd) (db_filings d) = []"
    by (auto simp: filter_empty_conv)
  let ?num = "numberFilings (nextId (map f_id (db_filings d))) new"
  have "\<forall>f \<in> set new. f_determination f = dr_DeterminationID r \<and> f_firm f = det_FirmID cmd"
    using new by (auto simp: prepared_def preparedFiling_def Let_def)
  then have "\<forall>f \<in> set ?num. f_determination f = dr_DeterminationID r \<and> f_firm f = det_FirmID cmd"
    by (subst numberFilings_ball) simp_all
  then have "filter (\<lambda>f. f_determination f = dr_DeterminationID r \<and> f_firm f = det_FirmID cmd) ?num = ?num"
    by (simp add: filter_id_conv)
  with old have "filingsOf (dr_DeterminationID r) (det_FirmID cmd) d' = ?num"
    by (simp add: filingsOf_def d')
  with counts that show thesis by blast
qed

lemma determine_again:
  assumes "schema_ok d" and "DetermineDataset cmd d = (d', Inr r)" and "\<not> dr_Existing r"
  shows "DetermineDataset cmd d' = (d', Inr (r\<lparr>dr_Existing := True\<rparr>))"
proof -
  from assms(2,3) obtain ds :: dataset_row and row new where
    row: "row = \<lparr>dt_id = dr_DeterminationID r, dt_dataset = det_DatasetID cmd,
            dt_firm = det_FirmID cmd, dt_ruleset = det_RulesetVersion cmd\<rparr>"
    and d': "d' = d\<lparr>db_determinations := db_determinations d @ [row],
            db_filings := db_filings d @ numberFilings (nextId (map f_id (db_filings d))) new\<rparr>"
    and guards: "beginFirm (det_FirmID cmd) = Inr ()" "0 < det_DatasetID cmd"
      "det_RulesetVersion cmd = RulesetNEC2025V1"
    and none: "filter (\<lambda>x. dt_firm x = det_FirmID cmd \<and> dt_dataset x = det_DatasetID cmd
        \<and> dt_ruleset x = det_RulesetVersion cmd) (db_determinations d) = []"
    by (rule DetermineDataset_fresh)
  have found: "filter (\<lambda>x. dt_firm x = det_FirmID cmd \<and> dt_dataset x = det_DatasetID cmd
        \<and> dt_ruleset x = det_RulesetVersion cmd) (db_determinations d') = [row]"
    using none by (simp add: d' row)
  from assms obtain new' where new': "filingsOf (dr_DeterminationID r) (det_FirmID cmd) d'
      = numberFilings (nextId (map f_id (db_filings d))) new'"
    "dr_ReadyCount r = countState FReady new'" "dr_BlockedCount r = countState FBlockedPreflight new'"
    by (rule filingsOf_fresh)
  have counts: "countState st (numberFilings base fs) = countState st fs" for st base fs
  proof -
    have "map (\<lambda>_. ()) (filter (\<lambda>f. f_state f = st) (numberFilings base fs)) = map (\<lambda>_. ()) (filter (\<lambda>f. f_state f = st) fs)"
      by (rule filter_numberFilings) simp_all
    then show ?thesis unfolding countState_def by (metis length_map)
  qed
  show ?thesis
    using guards found new' by (simp add: DetermineDataset_def Let_def row counts)
qed

text \<open>Determining twice decides once: repeating the command right after it succeeded writes
  nothing and returns the same determination and counts, marked as existing.\<close>

theorem determine_replay:
  assumes "schema_ok d" and "DetermineDataset cmd d = (d', Inr r)" and "\<not> dr_Existing r"
  shows "DetermineDataset cmd d' = (d', Inr (r\<lparr>dr_Existing := True\<rparr>))"
  by (rule determine_again [OF assms])

section \<open>Preflight and the IRS's verdict\<close>

lemma strippedTIN_digits:
  "hasPrefix (vendorIdentity name tin) ''tin:'' \<Longrightarrow>
     recipientTIN (vendorIdentity name tin) = Some (strippedTIN tin) \<and> isNineASCIIDigits (strippedTIN tin)"
  by (auto simp: vendorIdentity_def hasPrefix_def recipientTIN_def isNineASCIIDigits_def split: if_splits)

text \<open>C15. Preflight agrees with the IRS: sent with the TIN and amount the store would send, a filing
  preflight calls ready is accepted, and a filing it blocks would be rejected, for the same
  reason except that a malformed TIN, which is not stored, would read as a missing one.\<close>

theorem preflight_agrees:
  assumes "identity = vendorIdentity name tin" and "bs \<noteq> []" and "''irsrec_'' @ hexEncode (hd bs) \<notin> ids"
    and "fr_recipientTIN rec = (case recipientTIN identity of None \<Rightarrow> '''' | Some t \<Rightarrow> t)"
    and "fr_amountCents rec = cents"
  shows "\<exists>x bs' ids'. resultFor rec bs ids = Some (x, bs', ids')
    \<and> (case preflightReason identity (recipientTIN identity) cents of
         None \<Rightarrow> rr_status x = ''Accepted'' \<and> rr_errorReason x = ''''
       | Some reason \<Rightarrow> rr_status x = ''Rejected''
           \<and> rr_errorReason x = (if reason = ReasonTINMalformed then ReasonTINMissing else reason))"
proof (cases "hasPrefix identity ''tin:''")
  case True
  note tin = strippedTIN_digits [OF True [unfolded assms(1)]]
  let ?t = "strippedTIN tin"
  from tin have rec: "recipientTIN identity = Some ?t" "fr_recipientTIN rec = ?t"
    using assms(1,4) by simp_all
  have prefix: "\<not> hasPrefix identity ''missing-tin:''" "\<not> hasPrefix identity ''malformed-tin:''"
    using True by (auto dest!: hasPrefix_Cons)
  from tin have digits: "list_all is_digit ?t" "?t \<noteq> []" by (auto simp: isNineASCIIDigits_def)
  then have "trimSpace ?t \<noteq> ''''" by (simp add: trimSpace_digits)
  obtain b rest where "bs = b # rest" using assms(2) by (cases bs) auto
  with assms(3) have "newOpaqueID ''irsrec_'' bs ids = Some (''irsrec_'' @ hexEncode b, rest,
      insert (''irsrec_'' @ hexEncode b) ids)" by (simp add: Let_def)
  with rec tin prefix \<open>trimSpace ?t \<noteq> ''''\<close> assms(5) show ?thesis
    by (simp add: resultFor_def preflightReason_def)
next
  case False
  then have "hasPrefix identity ''missing-tin:'' \<or> hasPrefix identity ''malformed-tin:''"
    using assms(1) by (auto simp: vendorIdentity_def hasPrefix_def split: if_splits)
  moreover from False have "fr_recipientTIN rec = ''''" using assms(4) by (simp add: recipientTIN_def)
  moreover have "trimSpace '''' = ''''" by (simp add: trimSpace_digits)
  ultimately show ?thesis by (auto simp: resultFor_def preflightReason_def)
qed

section \<open>Explanations\<close>

lemma addPayment_fold:
  assumes "int64 (pe_ReportableCents acc)" and "int64 (pe_WithholdingCents acc)"
  shows "pe_Payments (foldl addPayment acc ps) = pe_Payments acc @ map explainedPayment ps
    \<and> pe_ReportableCents (foldl addPayment acc ps) = wrap64 (pe_ReportableCents acc + reportableCents ps)
    \<and> pe_WithholdingCents (foldl addPayment acc ps) = wrap64 (pe_WithholdingCents acc + withholdingCents ps)"
  using assms
proof (induction ps arbitrary: acc)
  case Nil
  then show ?case by (simp add: reportableCents_def withholdingCents_def)
next
  case (Cons p ps)
  let ?acc = "addPayment acc p"
  have range: "int64 (pe_ReportableCents ?acc)" "int64 (pe_WithholdingCents ?acc)"
    using Cons.prems by (simp_all add: addPayment_def Let_def wrap64_range)
  have step: "pe_Payments ?acc = pe_Payments acc @ [explainedPayment p]"
    "wrap64 (pe_ReportableCents ?acc + reportableCents ps) = wrap64 (pe_ReportableCents acc + reportableCents (p # ps))"
    "wrap64 (pe_WithholdingCents ?acc + withholdingCents ps) = wrap64 (pe_WithholdingCents acc + withholdingCents (p # ps))"
    by (simp_all add: addPayment_def Let_def explainedPayment_def reportableCents_def withholdingCents_def add.assoc)
  with Cons.IH [OF range] show ?case by simp
qed

lemma sums_sorted:
  "reportableCents (sort_key k ps) = reportableCents ps" "withholdingCents (sort_key k ps) = withholdingCents ps"
proof -
  have "sum_list (map g (filter P (sort_key k ps))) = sum_list (map g (filter P ps))" for g :: "payment_row \<Rightarrow> int" and P
    by (metis mset_filter mset_map mset_sort sum_mset_sum_list)
  then show "reportableCents (sort_key k ps) = reportableCents ps" by (simp add: reportableCents_def)
  show "withholdingCents (sort_key k ps) = withholdingCents ps"
    unfolding withholdingCents_def by (metis mset_map mset_sort sum_mset_sum_list)
qed

text \<open>The filings of a fresh determination carry the sums of their payments.\<close>

lemma determined_sums:
  assumes "schema_ok d" and "DetermineDataset cmd d = (d', Inr r)" and "\<not> dr_Existing r"
    and "f \<in> set (filingsOf (dr_DeterminationID r) (det_FirmID cmd) d')"
    and "ps = paidTo (f_client f, f_vendor_identity f) (classified (det_DatasetID cmd) (det_FirmID cmd) d)"
  shows "f_reportable_cents f = reportableCents ps" "f_withholding_cents f = withholdingCents ps" "qualifies ps"
    "int64 (f_reportable_cents f)" "int64 (f_withholding_cents f)"
proof -
  let ?rows = "classified (det_DatasetID cmd) (det_FirmID cmd) d"
  from assms(2,3) obtain ds :: dataset_row and row new where
    new: "new = prepared (det_FirmID cmd) (dr_DeterminationID r) (d_tax_year ds) ?rows"
    and i: "dr_DeterminationID r = nextId (map dt_id (db_determinations d))"
    and d': "d' = d\<lparr>db_determinations := db_determinations d @ [row],
            db_filings := db_filings d @ numberFilings (nextId (map f_id (db_filings d))) new\<rparr>"
    and casts: "castsOK new"
    by (rule DetermineDataset_fresh)
  have old: "f \<notin> set (db_filings d)"
  proof
    assume "f \<in> set (db_filings d)"
    with assms(1) have "f_determination f \<in> set (map dt_id (db_determinations d))"
      by (auto simp: schema_ok_def filingRefs_ok_def)
    moreover have "f_determination f = nextId (map dt_id (db_determinations d))"
      using assms(4) i by (simp add: filingsOf_def)
    ultimately show False using nextId_fresh by metis
  qed
  let ?good = "\<lambda>f. let ps = paidTo (f_client f, f_vendor_identity f) ?rows in
      f_reportable_cents f = reportableCents ps \<and> f_withholding_cents f = withholdingCents ps
      \<and> qualifies ps \<and> int64 (f_reportable_cents f) \<and> int64 (f_withholding_cents f)"
  have "\<forall>f \<in> set new. ?good f"
    using casts unfolding new castsOK_def list_all_iff
    by (auto simp: prepared_def payees_def preparedFiling_def Let_def)
  then have "\<forall>f \<in> set (numberFilings (nextId (map f_id (db_filings d))) new). ?good f"
    by (subst numberFilings_ball) simp_all
  then show "f_reportable_cents f = reportableCents ps" "f_withholding_cents f = withholdingCents ps" "qualifies ps"
    "int64 (f_reportable_cents f)" "int64 (f_withholding_cents f)"
    using assms(4,5) old by (auto simp: filingsOf_def d' Let_def)
qed

lemma determined_rows:
  assumes "DetermineDataset cmd d = (d', Inr r)" and "\<not> dr_Existing r"
    and "pq_FirmID q = det_FirmID cmd" "pq_DeterminationID q = dr_DeterminationID r"
  shows "explainedRows q d' = sort_key p_source_row
        (paidTo (pq_ClientID q, pq_VendorIdentity q) (classified (det_DatasetID cmd) (det_FirmID cmd) d))"
    "0 < dr_DeterminationID r" "beginFirm (det_FirmID cmd) = Inr ()"
proof -
  from assms(1,2) obtain row new where
    i: "dr_DeterminationID r = nextId (map dt_id (db_determinations d))"
    and row: "row = \<lparr>dt_id = dr_DeterminationID r, dt_dataset = det_DatasetID cmd,
            dt_firm = det_FirmID cmd, dt_ruleset = det_RulesetVersion cmd\<rparr>"
    and d': "d' = d\<lparr>db_determinations := db_determinations d @ [row],
            db_filings := db_filings d @ numberFilings (nextId (map f_id (db_filings d))) new\<rparr>"
    and firm: "beginFirm (det_FirmID cmd) = Inr ()"
    by (rule DetermineDataset_fresh)
  have "filter (\<lambda>x. dt_id x = dr_DeterminationID r \<and> dt_firm x = det_FirmID cmd) (db_determinations d) = []"
    using i nextId_fresh [of "map dt_id (db_determinations d)"]
    by (auto simp: filter_empty_conv) (metis imageI)
  then show "explainedRows q d' = sort_key p_source_row
        (paidTo (pq_ClientID q, pq_VendorIdentity q) (classified (det_DatasetID cmd) (det_FirmID cmd) d))"
    using assms(3,4) by (simp add: explainedRows_def d' row classified_def)
  show "0 < dr_DeterminationID r" "beginFirm (det_FirmID cmd) = Inr ()" using i nextId_pos firm by simp_all
qed

text \<open>C16. A filing can be explained: for every filing of a fresh determination the explanation lists
  the payee's payments and its totals, summed in wrapping 64-bit arithmetic, are exactly the
  filing's reportable and withheld amounts.\<close>

theorem explanation_totals:
  assumes "schema_ok d" and "DetermineDataset cmd d = (d', Inr r)" and "\<not> dr_Existing r"
    and "f \<in> set (filingsOf (dr_DeterminationID r) (det_FirmID cmd) d')"
    and "f_client f \<noteq> ''''" and "f_vendor_identity f \<noteq> ''''"
  shows "\<exists>e. PaymentExplanationOf \<lparr>pq_FirmID = det_FirmID cmd, pq_DeterminationID = dr_DeterminationID r,
        pq_ClientID = f_client f, pq_VendorIdentity = f_vendor_identity f\<rparr> d' = Inr e
    \<and> pe_ReportableCents e = f_reportable_cents f \<and> pe_WithholdingCents e = f_withholding_cents f
    \<and> pe_Payments e = map explainedPayment (sort_key p_source_row
        (paidTo (f_client f, f_vendor_identity f) (classified (det_DatasetID cmd) (det_FirmID cmd) d)))"
proof -
  let ?q = "\<lparr>pq_FirmID = det_FirmID cmd, pq_DeterminationID = dr_DeterminationID r,
        pq_ClientID = f_client f, pq_VendorIdentity = f_vendor_identity f\<rparr>"
  let ?ps = "paidTo (f_client f, f_vendor_identity f) (classified (det_DatasetID cmd) (det_FirmID cmd) d)"
  note good = determined_sums [OF assms(1-4) refl]
  have rows: "explainedRows ?q d' = sort_key p_source_row ?ps" using determined_rows(1) [OF assms(2,3), of ?q] by simp
  let ?zero = "\<lparr>pe_Payments = [], pe_ReportableCents = 0, pe_WithholdingCents = 0\<rparr>"
  let ?e = "foldl addPayment ?zero (explainedRows ?q d')"
  have zero: "int64 (pe_ReportableCents ?zero)" "int64 (pe_WithholdingCents ?zero)" by (simp_all add: int64_def)
  have e: "pe_Payments ?e = map explainedPayment (sort_key p_source_row ?ps)"
    "pe_ReportableCents ?e = f_reportable_cents f" "pe_WithholdingCents ?e = f_withholding_cents f"
    using addPayment_fold [OF zero, of "explainedRows ?q d'"] good by (simp_all add: rows sums_sorted)
  have "?ps \<noteq> []" using good(3) by (metis qualifies_Nil)
  then have "sort_key p_source_row ?ps \<noteq> []" by (metis set_empty set_sort)
  with e(1) have "pe_Payments ?e \<noteq> []" by simp
  then have "PaymentExplanationOf ?q d' = Inr ?e"
    using determined_rows(2,3) [OF assms(2,3), of ?q] assms(5,6) by (simp add: PaymentExplanationOf_def Let_def)
  with e show ?thesis by blast
qed

section \<open>The schema survives\<close>

lemma DetermineDataset_unchanged:
  assumes "DetermineDataset cmd d = (d', res)" and "\<not> (\<exists>r. res = Inr r \<and> \<not> dr_Existing r)"
  shows "d' = d"
  using assms by (auto simp: DetermineDataset_def Let_def split: if_splits sum.splits list.splits)

lemma DetermineDataset_schema:
  assumes "schema_ok d" and "DetermineDataset cmd d = (d', res)"
  shows "schema_ok d'"
proof (cases "\<exists>r. res = Inr r \<and> \<not> dr_Existing r")
  case True
  then obtain r where r: "res = Inr r" "\<not> dr_Existing r" by blast
  with assms(2) have "DetermineDataset cmd d = (d', Inr r)" by simp
  from this r(2) obtain ds :: dataset_row and row new where
    new: "new = prepared (det_FirmID cmd) (dr_DeterminationID r) (d_tax_year ds)
             (classified (det_DatasetID cmd) (det_FirmID cmd) d)"
    and row: "row = \<lparr>dt_id = dr_DeterminationID r, dt_dataset = det_DatasetID cmd,
            dt_firm = det_FirmID cmd, dt_ruleset = det_RulesetVersion cmd\<rparr>"
    and d': "d' = d\<lparr>db_determinations := db_determinations d @ [row],
            db_filings := db_filings d @ numberFilings (nextId (map f_id (db_filings d))) new\<rparr>"
    and rows: "\<forall>f \<in> set (numberFilings (nextId (map f_id (db_filings d))) new). filing_row_ok f"
    and tabs: "filing_table_ok (db_filings d')" "determination_table_ok (db_determinations d')"
    by (rule DetermineDataset_fresh)
  have "\<forall>f \<in> set new. (f_determination f, f_firm f) \<in> set (map (\<lambda>x. (dt_id x, dt_firm x)) (db_determinations d'))"
    by (auto simp: new prepared_def preparedFiling_def Let_def d' row)
  then have refs: "\<forall>f \<in> set (numberFilings (nextId (map f_id (db_filings d))) new).
      (f_determination f, f_firm f) \<in> set (map (\<lambda>x. (dt_id x, dt_firm x)) (db_determinations d'))"
    by (subst numberFilings_ball) simp_all
  have "filingRefs_ok d'"
    using assms(1) refs tabs(2) by (auto simp: schema_ok_def filingRefs_ok_def d')
  moreover have "\<forall>x \<in> set (db_batch_filings d). linkRef_ok d' x"
    using assms(1) by (auto simp: schema_ok_def linkRef_ok_def d')
  ultimately show ?thesis using assms(1) rows tabs(1) by (auto simp: schema_ok_def d')
next
  case False
  with assms(2) DetermineDataset_unchanged have "d' = d" by blast
  with assms(1) show ?thesis by simp
qed

section \<open>Witnesses\<close>

definition sampleDetermine :: DetermineDatasetCommand where
  "sampleDetermine = \<lparr>det_FirmID = ''acme'', det_DatasetID = 1, det_RulesetVersion = ''nec-2025-v1''\<rparr>"

definition samplePayment :: payment_row where
  "samplePayment = \<lparr>p_dataset = 1, p_source_row = 1, p_firm = ''acme'', p_client = ''c1'',
     p_vendor_name = ''Vendor'', p_vendor_tin = Some ''123456789'', p_vendor_identity = ''tin:123456789'',
     p_date = ''2025-03-31'', p_amount_cents = 60000, p_method = ''ach'', p_withholding_cents = 0, p_memo = ''''\<rparr>"

definition importedDb :: db where
  "importedDb = emptyDb\<lparr>db_firms := [''acme''], db_clients := [(''acme'', ''c1'')],
     db_datasets := [\<lparr>d_id = 1, d_firm = ''acme'', d_tax_year = 2025, d_hash = replicate 32 CHR ''h'', d_row_count = 1\<rparr>],
     db_payments := [samplePayment]\<rparr>"

definition determinedFiling :: filing_row where
  "determinedFiling = (preparedFiling ''acme'' 1 2025 [samplePayment] (''c1'', ''tin:123456789''))\<lparr>f_id := 1\<rparr>"

lemma importedDb_ok: "schema_ok importedDb"
  by (simp add: importedDb_def emptyDb_def schema_defs)

lemma sample_prepared:
  "prepared ''acme'' 1 2025 [samplePayment] = [preparedFiling ''acme'' 1 2025 [samplePayment] (''c1'', ''tin:123456789'')]"
  by (simp add: prepared_def payees_def payee_def paidTo_def samplePayment_def qualifies_def
      reportableCents_def counted_def)

lemma sample_filing:
  "f_reportable_cents determinedFiling = 60000" "f_withholding_cents determinedFiling = 0"
  "f_state determinedFiling = FReady" "f_client determinedFiling = ''c1''"
  "f_vendor_identity determinedFiling = ''tin:123456789''" "f_firm determinedFiling = ''acme''"
  "f_determination determinedFiling = 1" "filing_row_ok determinedFiling"
  by (simp_all add: determinedFiling_def preparedFiling_def Let_def paidTo_def payee_def samplePayment_def
      reportableCents_def counted_def withholdingCents_def preflightReason_def hasPrefix_def recipientTIN_def
      filing_row_ok_def optIn_def sqlFilingKey_def)

lemma sample_determination:
  "DetermineDataset sampleDetermine importedDb
     = (importedDb\<lparr>db_determinations := [\<lparr>dt_id = 1, dt_dataset = 1, dt_firm = ''acme'', dt_ruleset = ''nec-2025-v1''\<rparr>],
                   db_filings := [determinedFiling]\<rparr>,
        Inr \<lparr>dr_DeterminationID = 1, dr_ReadyCount = 1, dr_BlockedCount = 0, dr_Existing = False\<rparr>)"
proof -
  let ?f = "preparedFiling ''acme'' 1 2025 [samplePayment] (''c1'', ''tin:123456789'')"
  have f: "f_reportable_cents ?f = 60000" "f_withholding_cents ?f = 0" "f_state ?f = FReady"
    "f_client ?f = ''c1''" "f_firm ?f = ''acme''"
    using sample_filing by (simp_all add: determinedFiling_def)
  have num: "numberFilings 1 [?f] = [determinedFiling]" by (simp add: numberFilings_def determinedFiling_def)
  have rows: "classified 1 ''acme'' importedDb = [samplePayment]"
    by (simp add: classified_def importedDb_def samplePayment_def)
  have det: "insertDetermination 1 ''acme'' ''nec-2025-v1'' importedDb
      = Inr (importedDb\<lparr>db_determinations := [\<lparr>dt_id = 1, dt_dataset = 1, dt_firm = ''acme'', dt_ruleset = ''nec-2025-v1''\<rparr>]\<rparr>, 1)"
    by (simp add: insertDetermination_def sql_insert_def importedDb_def emptyDb_def nextId_def
        determination_table_ok_def RulesetNEC2025V1_def)
  have fil: "insertFilings [?f] (importedDb\<lparr>db_determinations := dts\<rparr>)
      = Inr (importedDb\<lparr>db_determinations := dts, db_filings := [determinedFiling]\<rparr>)" for dts
    using f sample_filing num
    by (simp add: insertFilings_def castsOK_def int64_def sql_insert_def importedDb_def emptyDb_def
        nextId_def filing_table_ok_def)
  have tables: "db_determinations importedDb = []"
    "filter (\<lambda>x. d_id x = 1 \<and> d_firm x = ''acme'') (db_datasets importedDb)
      = [\<lparr>d_id = 1, d_firm = ''acme'', d_tax_year = 2025, d_hash = replicate 32 CHR ''h'', d_row_count = 1\<rparr>]"
    by (simp_all add: importedDb_def emptyDb_def)
  have guards: "\<not> (1::int) \<le> 0" "''nec-2025-v1'' = RulesetNEC2025V1" by (simp_all add: RulesetNEC2025V1_def)
  show ?thesis
    using det fil rows sample_prepared f guards
    by (simp add: DetermineDataset_def Let_def sampleDetermine_def countState_def tables)
qed

theorem determination_correct_witness:
  "\<exists>new :: filing_row list. length new = 1
     \<and> map f_reportable_cents (filter (\<lambda>f. f_client f = ''c1'' \<and> f_vendor_identity f = ''tin:123456789'') new) = [60000]"
proof -
  have not_existing: "\<not> dr_Existing \<lparr>dr_DeterminationID = 1, dr_ReadyCount = 1, dr_BlockedCount = 0, dr_Existing = False\<rparr>"
    by simp
  have ps: "paidTo (''c1'', ''tin:123456789'') (classified (det_DatasetID sampleDetermine) (det_FirmID sampleDetermine) importedDb)
      = [samplePayment]"
    by (simp add: sampleDetermine_def classified_def importedDb_def samplePayment_def paidTo_def payee_def)
  have cents: "reportableCents [samplePayment] = 60000"
    by (simp add: reportableCents_def samplePayment_def counted_def)
  show ?thesis
    using determination_correct [OF sample_determination not_existing]
  proof (elim exE conjE, goal_cases)
    case (1 new)
    from 1(2) [THEN spec, THEN spec, of "''c1''" "''tin:123456789''"] ps cents
    have "map fst (map (\<lambda>f. (f_reportable_cents f, f_withholding_cents f, f_state f, f_preflight_reason f))
              (filter (\<lambda>f. f_client f = ''c1'' \<and> f_vendor_identity f = ''tin:123456789'') new)) = [60000]"
      by (simp add: Let_def)
    with 1(3) show ?case by (intro exI [of _ new]) (simp add: comp_def)
  qed
qed

theorem determine_replay_witness:
  "\<exists>d'. DetermineDataset sampleDetermine d'
     = (d', Inr \<lparr>dr_DeterminationID = 1, dr_ReadyCount = 1, dr_BlockedCount = 0, dr_Existing = True\<rparr>)"
  using determine_replay [OF importedDb_ok sample_determination] by auto

theorem explanation_totals_witness:
  "\<exists>e. PaymentExplanationOf \<lparr>pq_FirmID = ''acme'', pq_DeterminationID = 1, pq_ClientID = ''c1'',
         pq_VendorIdentity = ''tin:123456789''\<rparr> (fst (DetermineDataset sampleDetermine importedDb)) = Inr e
     \<and> pe_ReportableCents e = 60000"
proof -
  have "determinedFiling \<in> set (filingsOf 1 ''acme'' (fst (DetermineDataset sampleDetermine importedDb)))"
    by (simp add: sample_determination filingsOf_def sample_filing)
  with explanation_totals [OF importedDb_ok sample_determination, of determinedFiling] show ?thesis
    by (auto simp: sample_filing sampleDetermine_def sample_determination [unfolded sampleDetermine_def])
qed

theorem preflight_agrees_witness:
  "\<exists>x bs' ids'. resultFor \<lparr>fr_recordID = ''r'', fr_recipientName = ''n'', fr_recipientTIN = ''000456789'',
       fr_amountCents = 60000, fr_withholdingCents = 0\<rparr> [''0123456789abcdef''] {} = Some (x, bs', ids')
     \<and> rr_errorReason x = ''TIN_INVALID''"
proof -
  have id: "''tin:000456789'' = vendorIdentity ''n'' ''000-45-6789''" by code_simp
  show ?thesis
    using preflight_agrees [OF id, of "[''0123456789abcdef'']" "{}" "\<lparr>fr_recordID = ''r'', fr_recipientName = ''n'',
        fr_recipientTIN = ''000456789'', fr_amountCents = 60000, fr_withholdingCents = 0\<rparr>" 60000]
    by (auto simp: recipientTIN_def hasPrefix_def preflightReason_def)
qed

end
