(* ===== verification/Rate.thy ===== *)
theory Rate
  imports Batches Samples
begin

text \<open>
  The per-firm rate gate of \<open>postgres/internal/store/rate.go\<close>. \<open>AcquireCallPermit\<close> is cut
  where it waits: \<open>openGate\<close> is its first transaction (under the firm's advisory lock),
  \<open>startCall\<close> its second, after the timer has run. A permit is a value with its two flags;
  the clock readings of each statement are arguments.
\<close>

section \<open>Permits\<close>

text \<open>The spacing the gate enforces (\<open>interval '3.1 seconds'\<close>) and the crash fence
  (\<open>interval '60 seconds'\<close>), in microseconds.\<close>

definition minimumCallSpacing :: int where "minimumCallSpacing = 3100000"
definition crashFenceDuration :: int where "crashFenceDuration = 60000000"

record callPermit =
  cp_firmID :: string
  cp_logID :: int
  cp_finished :: bool
  cp_released :: bool

definition validAcquire :: "AcquireCallCommand \<Rightarrow> bool" where
  "validAcquire command \<longleftrightarrow>
     validateFirmID (acq_FirmID command) = Inr () \<and> 0 < acq_BatchID command
     \<and> (acq_Operation command = OperationSubmit \<or> acq_Operation command = OperationStatus)"

section \<open>First transaction: read the gate\<close>

text \<open>\<open>INSERT INTO rate_gates (firm_id) ... ON CONFLICT DO NOTHING\<close>\<close>

definition ensureGate :: "string \<Rightarrow> db \<Rightarrow> db result" where
  "ensureGate firmID d =
     (if firmID \<in> set (map g_firm (db_gates d)) then Inr d
      else if firmID \<notin> set (db_firms d) then Inl (mapError (PgError ''23503''))
      else Inr (d\<lparr>db_gates := db_gates d
                    @ [\<lparr>g_firm = firmID, g_next_call_at = NegInfinity, g_crash_fence_until = NegInfinity\<rparr>]\<rparr>))"

text \<open>\<open>GREATEST(next_call_at, crash_fence_until, '1970-01-01')\<close>, so never \<open>-infinity\<close>.\<close>

definition instant :: "timestamptz \<Rightarrow> int" where
  "instant t = (case t of NegInfinity \<Rightarrow> 0 | At x \<Rightarrow> max x 0)"

definition allowedAt :: "gate_row \<Rightarrow> int" where
  "allowedAt g = max (instant (g_next_call_at g)) (instant (g_crash_fence_until g))"

definition openGate :: "AcquireCallCommand \<Rightarrow> db \<Rightarrow> db \<times> int result" where
  "openGate command d =
     (if \<not> validAcquire command then (d, Inl (ErrMsg ''invalid call permit command''))
      else case ensureGate (acq_FirmID command) d of
        Inl e \<Rightarrow> (d, Inl e)
      | Inr d1 \<Rightarrow>
          (case filter (\<lambda>g. g_firm g = acq_FirmID command) (db_gates d1) of
             [] \<Rightarrow> (d, Inl ErrDatabase)
           | g # _ \<Rightarrow> (d1, Inr (allowedAt g))))"

text \<open>How long the timer runs: \<open>allowedAt.Sub(databaseNow)\<close> when positive.\<close>

definition gateWait :: "int \<Rightarrow> int \<Rightarrow> int" where
  "gateWait allowed databaseNow = (if 0 < allowed - databaseNow then allowed - databaseNow else 0)"

section \<open>Second transaction: log the intent and raise the fence\<close>

definition callRow :: "int \<Rightarrow> AcquireCallCommand \<Rightarrow> int \<Rightarrow> call_row" where
  "callRow t command logID =
     \<lparr>l_id = logID, l_firm = acq_FirmID command, l_batch = acq_BatchID command,
      l_operation = acq_Operation command, l_started_at = t, l_completed_at = None,
      l_outcome = None, l_http_status = None, l_error_code = None\<rparr>"

definition updateGates :: "string \<Rightarrow> (gate_row \<Rightarrow> gate_row) \<Rightarrow> db \<Rightarrow> db" where
  "updateGates firmID u d =
     d\<lparr>db_gates := map (\<lambda>g. if g_firm g = firmID then u g else g) (db_gates d)\<rparr>"

definition startCall :: "int \<Rightarrow> int \<Rightarrow> AcquireCallCommand \<Rightarrow> db \<Rightarrow> db \<times> callPermit result" where
  "startCall t1 t2 command d =
     (let firmID = acq_FirmID command; logID = nextId (map l_id (db_calls d)) in
      case filter (\<lambda>b. b_id b = acq_BatchID command \<and> b_firm b = firmID) (db_batches d) of
        [] \<Rightarrow> (d, Inl ErrNotFound)
      | b # _ \<Rightarrow>
          if \<not> call_row_ok (callRow t1 command logID) then (d, Inl (mapError (PgError ''23514'')))
          else if firmID \<notin> set (db_firms d) then (d, Inl (mapError (PgError ''23503'')))
          else (updateGates firmID (\<lambda>g. g\<lparr>g_crash_fence_until := At (t2 + crashFenceDuration)\<rparr>)
                  (d\<lparr>db_calls := db_calls d @ [callRow t1 command logID]\<rparr>),
                Inr \<lparr>cp_firmID = firmID, cp_logID = logID, cp_finished = False, cp_released = False\<rparr>))"

section \<open>Finishing and closing\<close>

definition callOutcomes :: "string list" where
  "callOutcomes = [CallCompleted, CallAmbiguous, CallRetryableError, CallTerminalError]"

text \<open>\<open>NULLIF($2, 0)\<close>\<close>

definition nullIfZero :: "int \<Rightarrow> int option" where
  "nullIfZero n = (if n = 0 then None else Some n)"

definition finishedCall :: "int \<Rightarrow> CallResult \<Rightarrow> call_row \<Rightarrow> call_row" where
  "finishedCall t res l =
     l\<lparr>l_completed_at := Some t, l_outcome := Some (cr_Outcome res),
       l_http_status := nullIfZero (cr_HTTPStatus res), l_error_code := nullIfEmpty (cr_ErrorCode res)\<rparr>"

definition finishedGate :: "int \<Rightarrow> bool \<Rightarrow> gate_row \<Rightarrow> gate_row" where
  "finishedGate t ambiguous g =
     g\<lparr>g_next_call_at := At (t + minimumCallSpacing),
       g_crash_fence_until := (if ambiguous then At (t + crashFenceDuration) else NegInfinity)\<rparr>"

definition Finish :: "int \<Rightarrow> int \<Rightarrow> CallResult \<Rightarrow> callPermit \<Rightarrow> db \<Rightarrow> callPermit \<times> db \<times> unit result" where
  "Finish t1 t2 res permit d =
     (if cp_finished permit \<or> cp_released permit then (permit, d, Inl ErrInvalidTransition)
      else if cr_Outcome res \<notin> set callOutcomes then (permit, d, Inl (ErrMsg ''invalid call outcome''))
      else if cr_HTTPStatus res < 0 \<or> 599 < cr_HTTPStatus res \<or> \<not> validFailureCode (cr_ErrorCode res)
      then (permit, d, Inl (ErrMsg ''invalid call result''))
      else case sql_update call_update_ok call_row_ok (\<lambda>_. True)
                  (\<lambda>l. l_id l = cp_logID permit \<and> l_firm l = cp_firmID permit \<and> l_completed_at l = None)
                  (finishedCall t1 res) (db_calls d) of
        Inl code \<Rightarrow> (permit, d, Inl (mapError (PgError code)))
      | Inr (calls, n) \<Rightarrow>
          if n \<noteq> 1 then (permit, d, Inl ErrInvalidTransition)
          else (permit\<lparr>cp_finished := True, cp_released := True\<rparr>,
                updateGates (cp_firmID permit) (finishedGate t2 (cr_Outcome res = CallAmbiguous))
                  (d\<lparr>db_calls := calls\<rparr>),
                Inr ()))"

text \<open>\<open>Close\<close> releases the advisory lock once and never fails.\<close>

definition closePermit :: "callPermit \<Rightarrow> callPermit" where
  "closePermit permit = (if cp_released permit then permit else permit\<lparr>cp_released := True\<rparr>)"

section \<open>The gate as a step relation\<close>

text \<open>
  Who holds a firm's advisory lock: nobody, a caller waiting at the gate, or the owner of a
  started call. Losing the connection (a crash) frees the lock and the permit with it.
\<close>

datatype lock_state = Unlocked | Waiting AcquireCallCommand int | Calling callPermit

record gate_world =
  gw_clock :: int
  gw_db :: db
  gw_lock :: "string \<Rightarrow> lock_state"

inductive gate_step :: "gate_world \<Rightarrow> gate_world \<Rightarrow> bool" where
  time_passes: "0 \<le> n \<Longrightarrow> gate_step w (w\<lparr>gw_clock := gw_clock w + n\<rparr>)"
| gate_opens:
    "gw_lock w (acq_FirmID c) = Unlocked \<Longrightarrow> openGate c (gw_db w) = (d', Inr allowed) \<Longrightarrow>
     gate_step w (w\<lparr>gw_db := d', gw_lock := (gw_lock w)(acq_FirmID c :=
                        Waiting c (gw_clock w + gateWait allowed (gw_clock w)))\<rparr>)"
| call_starts:
    "gw_lock w (acq_FirmID c) = Waiting c due \<Longrightarrow> due \<le> gw_clock w \<Longrightarrow> gw_clock w \<le> t2 \<Longrightarrow>
     startCall (gw_clock w) t2 c (gw_db w) = (d', Inr p) \<Longrightarrow>
     gate_step w (w\<lparr>gw_clock := t2, gw_db := d', gw_lock := (gw_lock w)(acq_FirmID c := Calling p)\<rparr>)"
| call_finishes:
    "gw_lock w firm = Calling p \<Longrightarrow> gw_clock w \<le> t2 \<Longrightarrow>
     Finish (gw_clock w) t2 res p (gw_db w) = (p', d', Inr ()) \<Longrightarrow>
     gate_step w (w\<lparr>gw_clock := t2, gw_db := d', gw_lock := (gw_lock w)(firm := Unlocked)\<rparr>)"
| lock_freed: "gate_step w (w\<lparr>gw_lock := (gw_lock w)(firm := Unlocked)\<rparr>)"
| other_work:
    "db_gates d' = db_gates (gw_db w) \<Longrightarrow> db_calls d' = db_calls (gw_db w) \<Longrightarrow>
     gate_step w (w\<lparr>gw_db := d'\<rparr>)"

inductive_cases gate_stepE: "gate_step w w'"

inductive gate_reachable :: "gate_world \<Rightarrow> bool" where
  fresh: "0 \<le> clock \<Longrightarrow> db_calls d = [] \<Longrightarrow> distinct (map g_firm (db_gates d)) \<Longrightarrow>
     gate_reachable \<lparr>gw_clock = clock, gw_db = d, gw_lock = (\<lambda>_. Unlocked)\<rparr>"
| step: "gate_reachable w \<Longrightarrow> gate_step w w' \<Longrightarrow> gate_reachable w'"

text \<open>The instants at which a firm's calls started, in log order.\<close>

definition callStarts :: "string \<Rightarrow> db \<Rightarrow> int list" where
  "callStarts firmID d = map l_started_at (filter (\<lambda>l. l_firm l = firmID) (db_calls d))"

section \<open>A spaced sequence fills no window\<close>

locale spaced_log =
  fixes valid :: "'w \<Rightarrow> bool" and starts :: "'w \<Rightarrow> int list" and gap :: int
  assumes gap_pos: "0 < gap"
    and spaced: "valid w \<Longrightarrow> successively (\<lambda>a b. a + gap \<le> b) (starts w)"
begin

lemma spread:
  "successively (\<lambda>a b. a + gap \<le> b) xs \<Longrightarrow> xs \<noteq> [] \<Longrightarrow> hd xs + gap * (int (length xs) - 1) \<le> last xs"
proof (induction xs)
  case (Cons x xs)
  show ?case
  proof (cases xs)
    case (Cons y ys)
    with Cons.prems Cons.IH have "y + gap * (int (length xs) - 1) \<le> last xs" "x + gap \<le> y"
      by simp_all
    with Cons show ?thesis by (simp add: algebra_simps)
  qed simp
qed simp

lemma spaced_filter:
  "successively (\<lambda>a b. a + gap \<le> b) xs \<Longrightarrow> successively (\<lambda>a b. a + gap \<le> b) (filter P xs)"
proof -
  assume "successively (\<lambda>a b. a + gap \<le> b) xs"
  then have "sorted_wrt (\<lambda>a b. a + gap \<le> b) xs"
    using gap_pos by (subst (asm) successively_iff_sorted_wrt_strong) auto
  then have "sorted_wrt (\<lambda>a b. a + gap \<le> b) (filter P xs)" by (rule sorted_wrt_filter)
  then show ?thesis by (rule successively_if_sorted_wrt)
qed

text \<open>A half-open window of width \<open>gap * n\<close> or less holds at most \<open>n\<close> starts.\<close>

lemma window_bound:
  assumes "valid w" and "0 \<le> n" and "width \<le> gap * n"
  shows "int (length (filter (\<lambda>s. lo \<le> s \<and> s < lo + width) (starts w))) \<le> n"
proof (rule ccontr)
  let ?in = "\<lambda>s. lo \<le> s \<and> s < lo + width"
  let ?xs = "filter ?in (starts w)"
  assume "\<not> int (length ?xs) \<le> n"
  then have long: "n \<le> int (length ?xs) - 1" and ne: "?xs \<noteq> []" using assms(2) by auto
  then have "hd ?xs + gap * (int (length ?xs) - 1) \<le> last ?xs"
    using spread [OF spaced_filter [OF spaced [OF assms(1)]]] by simp
  moreover have "gap * n \<le> gap * (int (length ?xs) - 1)"
    using long gap_pos by (simp add: mult_left_mono)
  moreover have "?in (hd ?xs)" "?in (last ?xs)"
    using hd_in_set [OF ne] last_in_set [OF ne] by (simp_all only: set_filter mem_Collect_eq)
  ultimately show False using assms(3) by linarith
qed

end

section \<open>The invariant of the gate\<close>

definition gateFor :: "string \<Rightarrow> int \<Rightarrow> db \<Rightarrow> bool" where
  "gateFor firm s d \<longleftrightarrow> (\<exists>g \<in> set (db_gates d). g_firm g = firm \<and> s + minimumCallSpacing \<le> allowedAt g)"

definition hasGate :: "string \<Rightarrow> db \<Rightarrow> bool" where
  "hasGate firm d \<longleftrightarrow> firm \<in> set (map g_firm (db_gates d))"

definition lock_inv :: "string \<Rightarrow> db \<Rightarrow> lock_state \<Rightarrow> bool" where
  "lock_inv firm d l =
     (case l of
        Unlocked \<Rightarrow> True
      | Waiting c due \<Rightarrow> acq_FirmID c = firm \<and> hasGate firm d
          \<and> (\<forall>s \<in> set (callStarts firm d). s + minimumCallSpacing \<le> due)
      | Calling p \<Rightarrow> cp_firmID p = firm \<and> hasGate firm d)"

definition gate_inv :: "gate_world \<Rightarrow> bool" where
  "gate_inv w \<longleftrightarrow>
     distinct (map g_firm (db_gates (gw_db w)))
     \<and> (\<forall>firm. successively (\<lambda>a b. a + minimumCallSpacing \<le> b) (callStarts firm (gw_db w))
          \<and> (\<forall>s \<in> set (callStarts firm (gw_db w)). s \<le> gw_clock w \<and> gateFor firm s (gw_db w))
          \<and> lock_inv firm (gw_db w) (gw_lock w firm))"

lemma spacing_pos [simp]: "0 < minimumCallSpacing" "minimumCallSpacing \<le> crashFenceDuration"
  by (simp_all add: minimumCallSpacing_def crashFenceDuration_def)

lemma instant_ge [simp]: "x \<le> instant (At x)"
  by (simp add: instant_def)

lemma gateFor_raised:
  assumes "hasGate firm d" and "\<And>g. s + minimumCallSpacing \<le> allowedAt (u g)" and "\<And>g. g_firm (u g) = g_firm g"
  shows "gateFor firm s (updateGates firm u d)"
proof -
  from assms(1) obtain g where "g \<in> set (db_gates d)" "g_firm g = firm" by (auto simp: hasGate_def)
  with assms(2,3) show ?thesis
    by (force simp: gateFor_def updateGates_def image_iff)
qed

lemma gateFor_other:
  assumes "gateFor firm' s d" and "firm' \<noteq> firm"
  shows "gateFor firm' s (updateGates firm u d)"
  using assms by (force simp: gateFor_def updateGates_def image_iff)

lemma gateFor_calls [simp]: "gateFor firm s (d\<lparr>db_calls := cs\<rparr>) = gateFor firm s d"
  by (simp add: gateFor_def)

lemma hasGate_simps [simp]:
  "hasGate firm (d\<lparr>db_calls := cs\<rparr>) = hasGate firm d"
  "(\<And>g. g_firm (u g) = g_firm g) \<Longrightarrow> hasGate firm (updateGates firm' u d) = hasGate firm d"
  by (auto simp: hasGate_def updateGates_def image_iff)

lemma callStarts_gates [simp]: "callStarts firm (updateGates firm' u d) = callStarts firm d"
  by (simp add: callStarts_def updateGates_def)

lemma updateGates_distinct:
  "(\<And>g. g_firm (u g) = g_firm g) \<Longrightarrow>
     map g_firm (db_gates (updateGates firm u d)) = map g_firm (db_gates d)"
  by (simp add: updateGates_def)

lemma openGate_Inr:
  assumes "openGate c d = (d', Inr allowed)" and "distinct (map g_firm (db_gates d))"
  shows "db_calls d' = db_calls d" and "distinct (map g_firm (db_gates d'))"
    and "set (db_gates d) \<subseteq> set (db_gates d')" and "hasGate (acq_FirmID c) d'"
    and "\<And>s. gateFor (acq_FirmID c) s d \<Longrightarrow> s + minimumCallSpacing \<le> allowed"
proof -
  from assms(1) obtain g rest where e: "ensureGate (acq_FirmID c) d = Inr d'"
    and g: "filter (\<lambda>g. g_firm g = acq_FirmID c) (db_gates d') = g # rest" "allowed = allowedAt g"
    by (auto simp: openGate_def split: if_splits sum.splits list.splits)
  then show "db_calls d' = db_calls d" and dist: "distinct (map g_firm (db_gates d'))"
    and sub: "set (db_gates d) \<subseteq> set (db_gates d')"
    using assms(2) by (auto simp: ensureGate_def split: if_splits)
  from g(1) have gin: "g \<in> set (db_gates d')" "g_firm g = acq_FirmID c"
    by (auto simp: filter_eq_Cons_iff)
  then show "hasGate (acq_FirmID c) d'" by (force simp: hasGate_def)
  show "s + minimumCallSpacing \<le> allowed" if "gateFor (acq_FirmID c) s d" for s
  proof -
    from that obtain h where "h \<in> set (db_gates d')" "g_firm h = acq_FirmID c"
      "s + minimumCallSpacing \<le> allowedAt h"
      using sub by (auto simp: gateFor_def)
    moreover have "inj_on g_firm (set (db_gates d'))" using dist by (simp add: distinct_map)
    then have "h = g" using calculation gin by (metis inj_onD)
    ultimately show ?thesis using g(2) by simp
  qed
qed

lemma startCall_Inr:
  assumes "startCall t1 t2 c d = (d', Inr p)"
  shows "d' = updateGates (acq_FirmID c) (\<lambda>g. g\<lparr>g_crash_fence_until := At (t2 + crashFenceDuration)\<rparr>)
      (d\<lparr>db_calls := db_calls d @ [callRow t1 c (nextId (map l_id (db_calls d)))]\<rparr>)"
    and "cp_firmID p = acq_FirmID c"
  using assms by (auto simp: startCall_def Let_def split: if_splits list.splits)

lemma Finish_Inr:
  assumes "Finish t1 t2 res p d = (p', d', Inr ())"
  obtains q where
    "d' = updateGates (cp_firmID p) (finishedGate t2 (cr_Outcome res = CallAmbiguous))
            (d\<lparr>db_calls := map (\<lambda>l. if q l then finishedCall t1 res l else l) (db_calls d)\<rparr>)"
    "p' = p\<lparr>cp_finished := True, cp_released := True\<rparr>"
  using assms that
  by (auto simp: Finish_def split: if_splits sum.splits dest!: sql_update_Inr(1))

lemma callStarts_finished:
  "callStarts firm (d\<lparr>db_calls := map (\<lambda>l. if q l then finishedCall t res l else l) (db_calls d)\<rparr>)
     = callStarts firm d"
proof -
  have "map l_started_at (filter (\<lambda>l. l_firm l = firm) (map (\<lambda>l. if q l then finishedCall t res l else l) ls))
      = map l_started_at (filter (\<lambda>l. l_firm l = firm) ls)" for ls
    by (induction ls) (auto simp: finishedCall_def)
  then show ?thesis by (simp add: callStarts_def)
qed

lemma callStarts_started:
  "callStarts firm (d\<lparr>db_calls := db_calls d @ [callRow t c n]\<rparr>)
     = callStarts firm d @ (if acq_FirmID c = firm then [t] else [])"
  by (simp add: callStarts_def callRow_def)

lemma successively_snoc:
  "successively R xs \<Longrightarrow> (\<And>x. x \<in> set xs \<Longrightarrow> R x y) \<Longrightarrow> successively R (xs @ [y])"
  by (cases "xs = []") (simp_all add: successively_append_iff)

lemma gate_step_inv:
  assumes "gate_step w w'" and "gate_inv w"
  shows "gate_inv w'"
  using assms(1)
proof cases
  case (time_passes n)
  with assms(2) show ?thesis by (fastforce simp: gate_inv_def)
next
  case (gate_opens c d' allowed)
  let ?firm = "acq_FirmID c"
  have dist: "distinct (map g_firm (db_gates (gw_db w)))" using assms(2) by (simp add: gate_inv_def)
  note o = openGate_Inr [OF gate_opens(3) dist]
  have starts: "callStarts firm d' = callStarts firm (gw_db w)" for firm
    using o(1) by (simp add: callStarts_def)
  have keep: "gateFor firm s d'" if "gateFor firm s (gw_db w)" for firm s
    using that o(3) by (auto simp: gateFor_def)
  have due: "s + minimumCallSpacing \<le> gw_clock w + gateWait allowed (gw_clock w)"
    if "s \<in> set (callStarts ?firm (gw_db w))" for s
    using assms(2) that o(5) by (force simp: gate_inv_def gateWait_def)
  have "lock_inv firm d' (gw_lock w firm)" if "lock_inv firm (gw_db w) (gw_lock w firm)" for firm
    using that o(3) starts by (auto simp: lock_inv_def hasGate_def split: lock_state.splits)
  with assms(2) o(2,4) starts keep due show ?thesis
    unfolding gate_opens(1) by (auto simp: gate_inv_def lock_inv_def)
next
  case (call_starts c due t2 d' p)
  let ?firm = "acq_FirmID c"
  note s = startCall_Inr [OF call_starts(5)]
  have starts: "callStarts firm d' = callStarts firm (gw_db w) @ (if ?firm = firm then [gw_clock w] else [])" for firm
    unfolding s(1) by (simp add: callStarts_started)
  have waiting: "lock_inv ?firm (gw_db w) (Waiting c due)"
    using assms(2) call_starts(2) by (metis gate_inv_def)
  then have has: "hasGate ?firm (gw_db w)"
    and old: "\<forall>s \<in> set (callStarts ?firm (gw_db w)). s + minimumCallSpacing \<le> gw_clock w"
    using call_starts(3) by (force simp: lock_inv_def)+
  have raised: "gateFor ?firm s d'" if "s \<le> t2" for s
    unfolding s(1) using has that
    by (intro gateFor_raised) (auto simp: allowedAt_def minimumCallSpacing_def crashFenceDuration_def instant_def)
  have kept: "gateFor firm s d'" if "gateFor firm s (gw_db w)" "firm \<noteq> ?firm" for firm s
    unfolding s(1) using that by (intro gateFor_other) simp_all
  have "map g_firm (db_gates d') = map g_firm (db_gates (gw_db w))"
    unfolding s(1) by (simp add: updateGates_distinct)
  moreover have gates: "hasGate firm d' = hasGate firm (gw_db w)" for firm unfolding s(1) by simp
  have "lock_inv firm d' (gw_lock w firm)" if "lock_inv firm (gw_db w) (gw_lock w firm)" "firm \<noteq> ?firm" for firm
    using that gates starts by (auto simp: lock_inv_def split: lock_state.splits)
  moreover have "lock_inv ?firm d' (Calling p)" using has gates s(2) by (simp add: lock_inv_def)
  moreover have "successively (\<lambda>a b. a + minimumCallSpacing \<le> b) (callStarts firm d')" for firm
    unfolding starts using assms(2) old by (auto simp: gate_inv_def intro: successively_snoc)
  moreover have "s \<le> t2 \<and> gateFor firm s d'" if "s \<in> set (callStarts firm d')" for firm s
  proof (cases "firm = ?firm")
    case True
    with that assms(2) have "s \<le> gw_clock w" by (auto simp: starts gate_inv_def)
    with call_starts(4) raised True show ?thesis by auto
  next
    case False
    with that assms(2) have "s \<le> gw_clock w" "gateFor firm s (gw_db w)" by (auto simp: starts gate_inv_def)
    with call_starts(4) kept False show ?thesis by auto
  qed
  ultimately show ?thesis using assms(2) unfolding call_starts(1) by (auto simp: gate_inv_def)
next
  case (call_finishes firm p t2 res p' d')
  have calling: "lock_inv firm (gw_db w) (Calling p)"
    using assms(2) call_finishes(2) by (metis gate_inv_def)
  then have p: "cp_firmID p = firm" and has: "hasGate firm (gw_db w)" by (auto simp: lock_inv_def)
  from call_finishes(4) obtain q where d': "d' = updateGates firm (finishedGate t2 (cr_Outcome res = CallAmbiguous))
      (gw_db w\<lparr>db_calls := map (\<lambda>l. if q l then finishedCall (gw_clock w) res l else l) (db_calls (gw_db w))\<rparr>)"
    unfolding p [symmetric] by (rule Finish_Inr)
  have starts: "callStarts f d' = callStarts f (gw_db w)" for f
    unfolding d' by (simp add: callStarts_finished)
  have raised: "gateFor firm s d'" if "s \<le> t2" for s
    unfolding d' using has that
    by (intro gateFor_raised) (auto simp: finishedGate_def allowedAt_def instant_def)
  have kept: "gateFor f s d'" if "gateFor f s (gw_db w)" "f \<noteq> firm" for f s
    unfolding d' using that by (intro gateFor_other) simp_all
  have "map g_firm (db_gates d') = map g_firm (db_gates (gw_db w))"
    unfolding d' by (simp add: updateGates_distinct finishedGate_def)
  moreover have gates: "hasGate f d' = hasGate f (gw_db w)" for f
    unfolding d' by (simp add: finishedGate_def)
  have "lock_inv f d' (gw_lock w f)" if "lock_inv f (gw_db w) (gw_lock w f)" for f
    using that gates starts by (auto simp: lock_inv_def split: lock_state.splits)
  moreover have "s \<le> t2 \<and> gateFor f s d'" if "s \<in> set (callStarts f (gw_db w))" for f s
  proof -
    from that assms(2) have "s \<le> gw_clock w" "gateFor f s (gw_db w)" by (auto simp: gate_inv_def)
    with call_finishes(3) raised kept show ?thesis by (cases "f = firm") auto
  qed
  ultimately show ?thesis using assms(2) starts unfolding call_finishes(1)
    by (auto simp: gate_inv_def lock_inv_def)
next
  case (lock_freed firm)
  with assms(2) show ?thesis by (auto simp: gate_inv_def lock_inv_def)
next
  case (other_work d')
  then have "callStarts firm d' = callStarts firm (gw_db w)" "gateFor firm s d' = gateFor firm s (gw_db w)"
    "hasGate firm d' = hasGate firm (gw_db w)" for firm s
    by (simp_all add: callStarts_def gateFor_def hasGate_def)
  with assms(2) other_work show ?thesis
    by (auto simp: gate_inv_def lock_inv_def split: lock_state.splits)
qed

lemma gate_reachable_inv: "gate_reachable w \<Longrightarrow> gate_inv w"
proof (induction rule: gate_reachable.induct)
  case (fresh clock d)
  then show ?case by (simp add: gate_inv_def callStarts_def lock_inv_def)
next
  case (step w w')
  then show ?case by (blast intro: gate_step_inv)
qed

interpretation firm_log: spaced_log gate_reachable "\<lambda>w. callStarts firm (gw_db w)" minimumCallSpacing for firm
  by unfold_locales (auto dest: gate_reachable_inv simp: gate_inv_def)

text \<open>C8. However callers, crashes, ambiguous outcomes and other work interleave, the calls a firm
  starts at the IRS are at least 3.1 seconds apart and any rolling minute holds at most 20 of them.\<close>

theorem rate_gate_bound:
  assumes "gate_reachable w"
  shows "successively (\<lambda>a b. a + 3100000 \<le> b) (callStarts firm (gw_db w))
    \<and> length (filter (\<lambda>s. lo \<le> s \<and> s < lo + 60000000) (callStarts firm (gw_db w))) \<le> 20"
  using firm_log.window_bound [OF assms, where n = 20 and width = 60000000 and lo = lo and firm = firm]
    gate_reachable_inv [OF assms]
  by (simp add: gate_inv_def minimumCallSpacing_def)

section \<open>A permit is spent once\<close>

lemma Finish_schema:
  assumes "schema_ok d" and "Finish t1 t2 res p d = (p', d', r)"
  shows "schema_ok d'"
proof (cases "\<exists>calls n. sql_update call_update_ok call_row_ok (\<lambda>_. True)
    (\<lambda>l. l_id l = cp_logID p \<and> l_firm l = cp_firmID p \<and> l_completed_at l = None)
    (finishedCall t1 res) (db_calls d) = Inr (calls, n)
    \<and> d' = updateGates (cp_firmID p) (finishedGate t2 (cr_Outcome res = CallAmbiguous)) (d\<lparr>db_calls := calls\<rparr>)")
  case True
  then obtain calls n where u: "sql_update call_update_ok call_row_ok (\<lambda>_. True)
    (\<lambda>l. l_id l = cp_logID p \<and> l_firm l = cp_firmID p \<and> l_completed_at l = None)
    (finishedCall t1 res) (db_calls d) = Inr (calls, n)"
    and d': "d' = updateGates (cp_firmID p) (finishedGate t2 (cr_Outcome res = CallAmbiguous)) (d\<lparr>db_calls := calls\<rparr>)"
    by blast
  have "\<forall>l \<in> set calls. call_row_ok l" using sql_update_integrity [OF u] assms(1) by (simp add: schema_ok_def)
  moreover have "map l_id calls = map l_id (db_calls d)"
    unfolding sql_update_Inr(1) [OF u] by (simp add: finishedCall_def)
  then have "distinct (map l_id calls)" using assms(1) by (metis schema_ok_def)
  moreover have "map g_firm (db_gates d') = map g_firm (db_gates d)"
    unfolding d' by (simp add: updateGates_distinct finishedGate_def)
  then have "distinct (map g_firm (db_gates d'))" using assms(1) by (metis schema_ok_def)
  ultimately show ?thesis
    by (intro schema_ok_calls [OF assms(1)]) (simp_all add: d' updateGates_def)
next
  case False
  with assms(2) have "d' = d" by (auto simp: Finish_def split: if_splits sum.splits)
  with assms(1) show ?thesis by simp
qed

text \<open>A permit is finished at most once: a rejected \<open>Finish\<close> leaves permit and database as
  they were, a successful one completes the call's log row, and after it, or after \<open>Close\<close>,
  every further \<open>Finish\<close> is an invalid transition that changes nothing.\<close>

theorem permit_once:
  assumes "Finish t1 t2 res p d = (p', d', r)"
  shows "(case r of
      Inl e \<Rightarrow> p' = p \<and> d' = d
    | Inr _ \<Rightarrow> (\<exists>l \<in> set (db_calls d'). l_id l = cp_logID p \<and> l_firm l = cp_firmID p
                 \<and> l_completed_at l = Some t1 \<and> l_outcome l = Some (cr_Outcome res))
        \<and> Finish t3 t4 res' p' d2 = (p', d2, Inl ErrInvalidTransition))
    \<and> Finish t3 t4 res' (closePermit p) d2 = (closePermit p, d2, Inl ErrInvalidTransition)"
proof (cases r)
  case (Inl e)
  with assms show ?thesis
    by (auto simp: Finish_def closePermit_def split: if_splits sum.splits)
next
  case (Inr u)
  let ?p = "\<lambda>l. l_id l = cp_logID p \<and> l_firm l = cp_firmID p \<and> l_completed_at l = None"
  from assms Inr obtain calls where u: "sql_update call_update_ok call_row_ok (\<lambda>_. True) ?p
      (finishedCall t1 res) (db_calls d) = Inr (calls, 1)"
    and d': "db_calls d' = calls" and p': "cp_finished p'"
    by (auto simp: Finish_def updateGates_def split: if_splits sum.splits)
  from sql_update_Inr(2) [OF u] have "filter ?p (db_calls d) \<noteq> []" by auto
  then obtain l where l: "l \<in> set (db_calls d)" "?p l" by (auto simp: filter_empty_conv)
  then have "finishedCall t1 res l \<in> set calls"
    using updated_in_map [of l "db_calls d" ?p "finishedCall t1 res"] sql_update_Inr(1) [OF u] by simp
  with l(2) d' have "\<exists>l \<in> set (db_calls d'). l_id l = cp_logID p \<and> l_firm l = cp_firmID p
                 \<and> l_completed_at l = Some t1 \<and> l_outcome l = Some (cr_Outcome res)"
    by (intro bexI [of _ "finishedCall t1 res l"]) (auto simp: finishedCall_def)
  with Inr p' show ?thesis by (simp add: Finish_def closePermit_def)
qed

section \<open>Witnesses\<close>

definition sampleAcquire :: AcquireCallCommand where
  "sampleAcquire = \<lparr>acq_FirmID = ''acme'', acq_BatchID = 1, acq_Operation = ''submit''\<rparr>"

definition sampleGateDb :: db where
  "sampleGateDb = (claimedDb BSubmitting None (Some ''tok''))\<lparr>db_gates :=
     [\<lparr>g_firm = ''acme'', g_next_call_at = NegInfinity, g_crash_fence_until = NegInfinity\<rparr>]\<rparr>"

definition sampleCallDb :: db where
  "sampleCallDb = updateGates ''acme'' (\<lambda>g. g\<lparr>g_crash_fence_until := At 60000000\<rparr>)
     (sampleGateDb\<lparr>db_calls := [callRow 0 sampleAcquire 1]\<rparr>)"

definition samplePermit :: callPermit where
  "samplePermit = \<lparr>cp_firmID = ''acme'', cp_logID = 1, cp_finished = False, cp_released = False\<rparr>"

definition sampleWorld :: gate_world where
  "sampleWorld = \<lparr>gw_clock = 0, gw_db = claimedDb BSubmitting None (Some ''tok''), gw_lock = (\<lambda>_. Unlocked)\<rparr>"

lemma acme_valid [simp]: "validateFirmID ''acme'' = Inr ()"
  by code_simp

lemma sample_firm [simp]: "acq_FirmID sampleAcquire = ''acme''"
  by (simp add: sampleAcquire_def)

lemma sample_open: "openGate sampleAcquire (gw_db sampleWorld) = (sampleGateDb, Inr 0)"
  by (simp add: openGate_def validAcquire_def sampleAcquire_def ensureGate_def sampleWorld_def
      sampleGateDb_def claimedDb_def sampleDb_def allowedAt_def instant_def)

lemma sample_start: "startCall 0 0 sampleAcquire sampleGateDb = (sampleCallDb, Inr samplePermit)"
  by (simp add: startCall_def Let_def sampleCallDb_def samplePermit_def sampleGateDb_def sampleAcquire_def
      claimedDb_def sampleDb_def sampleBatch_def nextId_def callRow_def call_row_ok_def optIn_def
      crashFenceDuration_def)

theorem rate_gate_bound_witness:
  "\<exists>w::gate_world. callStarts ''acme'' (gw_db w) = [0]
     \<and> length (filter (\<lambda>s. 0 \<le> s \<and> s < 0 + 60000000) (callStarts ''acme'' (gw_db w))) \<le> 20"
proof -
  let ?w = "sampleWorld" and ?c = "sampleAcquire"
  let ?w1 = "?w\<lparr>gw_db := sampleGateDb, gw_lock := (gw_lock ?w)(acq_FirmID ?c :=
                Waiting ?c (gw_clock ?w + gateWait 0 (gw_clock ?w)))\<rparr>"
  let ?w2 = "?w1\<lparr>gw_clock := 0, gw_db := sampleCallDb, gw_lock := (gw_lock ?w1)(acq_FirmID ?c := Calling samplePermit)\<rparr>"
  have "gate_reachable ?w"
    unfolding sampleWorld_def by (rule gate_reachable.fresh) (simp_all add: claimedDb_def sampleDb_def)
  moreover have "gate_step ?w ?w1"
    by (rule gate_opens [OF _ sample_open]) (simp add: sampleWorld_def)
  ultimately have "gate_reachable ?w1" by (rule gate_reachable.step)
  moreover have "gate_step ?w1 ?w2"
    by (rule gate_step.call_starts [of _ _ 0]) (simp_all add: sampleWorld_def gateWait_def sample_start)
  ultimately have r: "gate_reachable ?w2" by (rule gate_reachable.step)
  have "callStarts ''acme'' (gw_db ?w2) = [0]"
    by (simp add: sampleCallDb_def callStarts_def updateGates_def callRow_def)
  with rate_gate_bound [OF r, of "''acme''" 0] show ?thesis by (intro exI [of _ ?w2]) simp
qed

theorem permit_once_witness:
  "Finish 0 0 \<lparr>cr_Outcome = ''bad'', cr_HTTPStatus = 0, cr_ErrorCode = ''''\<rparr>
     (closePermit \<lparr>cp_firmID = ''acme'', cp_logID = 1, cp_finished = False, cp_released = False\<rparr>) sampleDb
   = (closePermit \<lparr>cp_firmID = ''acme'', cp_logID = 1, cp_finished = False, cp_released = False\<rparr>, sampleDb,
      Inl ErrInvalidTransition)"
proof -
  let ?p = "\<lparr>cp_firmID = ''acme'', cp_logID = 1, cp_finished = False, cp_released = False\<rparr>"
  let ?r = "\<lparr>cr_Outcome = ''bad'', cr_HTTPStatus = 0, cr_ErrorCode = ''''\<rparr>"
  have "Finish 0 0 ?r ?p sampleDb = (?p, sampleDb, Inl (ErrMsg ''invalid call outcome''))"
    by (simp add: Finish_def callOutcomes_def)
  from permit_once [OF this] show ?thesis by blast
qed

end
