(* ===== verification/Store_Machine.thy ===== *)
theory Store_Machine
  imports Batch_Lifecycle Planning_Facts Determination_Facts Rate
begin

text \<open>
  The store as one machine: every state-changing operation of \<open>DataLifecycle\<close> as a step on
  the database, runs of steps (each operation is one transaction, taken one after another),
  how invariants of steps become invariants of runs, and the first of them: the schema.
\<close>

section \<open>Operations\<close>

datatype store_op =
    OpImport ImportDatasetCommand "rowSource option"
  | OpDetermine DetermineDatasetCommand
  | OpPlan int PlanBatchesCommand
  | OpClaim int "int list" "bytes option" ClaimBatchCommand
  | OpEvent int int Claim lifecycle_event
  | OpOpenGate AcquireCallCommand
  | OpStartCall int int AcquireCallCommand
  | OpFinish int int CallResult callPermit

fun storeStep :: "store_op \<Rightarrow> db \<Rightarrow> db" where
  "storeStep (OpImport cmd src) d = fst (ImportDataset cmd src d)"
| "storeStep (OpDetermine cmd) d = fst (DetermineDataset cmd d)"
| "storeStep (OpPlan now cmd) d = fst (PlanBatches now cmd d)"
| "storeStep (OpClaim now locked entropy cmd) d = fst (ClaimNextBatch now locked entropy cmd d)"
| "storeStep (OpEvent t1 t2 c ev) d = fst (applyEvent t1 t2 c ev d)"
| "storeStep (OpOpenGate cmd) d = fst (openGate cmd d)"
| "storeStep (OpStartCall t1 t2 cmd) d = fst (startCall t1 t2 cmd d)"
| "storeStep (OpFinish t1 t2 res permit) d = fst (snd (Finish t1 t2 res permit d))"

definition storeRun :: "store_op list \<Rightarrow> db \<Rightarrow> db" where
  "storeRun ops d = fold storeStep ops d"

lemma storeRun_simps [simp]:
  "storeRun [] d = d" "storeRun (op # ops) d = storeRun ops (storeStep op d)"
  by (simp_all add: storeRun_def)

text \<open>An invariant of every step is an invariant of every run; a reflexive and transitive
  relation every step respects is respected by every run.\<close>

lemma storeRun_invariant:
  assumes "I d" and "\<And>op d. I d \<Longrightarrow> I (storeStep op d)"
  shows "I (storeRun ops d)"
  using assms(1) by (induction ops arbitrary: d) (auto intro: assms(2))

lemma storeRun_related:
  assumes "I d" and "\<And>op d. I d \<Longrightarrow> I (storeStep op d)" and "\<And>op d. I d \<Longrightarrow> R d (storeStep op d)"
    and "\<And>d. R d d" and "\<And>a b c. R a b \<Longrightarrow> R b c \<Longrightarrow> R a c"
  shows "R d (storeRun ops d)"
  using assms(1)
proof (induction ops arbitrary: d)
  case (Cons op ops)
  from assms(5) [OF assms(3) [OF Cons.prems] Cons.IH [OF assms(2) [OF Cons.prems]]]
  show ?case by simp
qed (simp add: assms(4))

section \<open>The schema is an invariant\<close>

lemma updateBatches_schema:
  assumes "schema_ok d" and "updateBatches p u d = Inr (d', n)"
    and "\<And>r. b_id (u r) = b_id r \<and> b_firm (u r) = b_firm r \<and> b_client (u r) = b_client r"
  shows "schema_ok d'"
proof -
  note facts = updateBatches_Inr [OF assms(2)]
  have d': "d' = d\<lparr>db_batches := map (\<lambda>r. if p r then u r else r) (db_batches d)\<rparr>" by (rule facts(1))
  have rows: "\<forall>b \<in> set (db_batches d'). batch_row_ok b"
    using facts(3) assms(1) by (auto simp: d' schema_ok_def)
  have "map (\<lambda>b. (b_id b, b_firm b, b_client b)) (db_batches d') = map (\<lambda>b. (b_id b, b_firm b, b_client b)) (db_batches d)"
    using assms(3) by (simp add: d')
  then have "set (map (\<lambda>b. (b_id b, b_firm b, b_client b)) (db_batches d'))
      = set (map (\<lambda>b. (b_id b, b_firm b, b_client b)) (db_batches d))" by metis
  then have "linkRef_ok d' x = linkRef_ok d x" for x
    unfolding linkRef_ok_def by (simp add: d')
  then show ?thesis
    using assms(1) rows facts(4) by (simp add: schema_ok_def filingRefs_ok_def d')
qed

lemma eventUpdate_keys [simp]:
  "b_firm (eventUpdate t1 ev b) = b_firm b" "b_client (eventUpdate t1 ev b) = b_client b"
  by (cases ev; simp add: eventRow_def statusRetryRow_def acknowledgedRow_def terminalRow_def)+

lemma claimRow_keys [simp]:
  "b_id (claimRow now w l token b) = b_id b" "b_firm (claimRow now w l token b) = b_firm b"
  "b_client (claimRow now w l token b) = b_client b"
  by (simp_all add: claimRow_def)

lemma hashMismatchRow_keys [simp]:
  "b_id (hashMismatchRow b) = b_id b" "b_firm (hashMismatchRow b) = b_firm b"
  "b_client (hashMismatchRow b) = b_client b"
  by (simp_all add: hashMismatchRow_def)

text \<open>Settling outcomes changes states and results only.\<close>

definition filingKeyOf :: "filing_row \<Rightarrow> int \<times> string \<times> string \<times> int" where
  "filingKeyOf f = (f_id f, f_firm f, f_client f, f_determination f)"

lemma settleOutcomes_step:
  assumes "settleOutcomes t firmID expected seen (outcome # rest) fs = Inr fs'"
  obtains i fs1 where "map_of (rev expected) (FilingKey outcome) = Some i"
    "FilingKey outcome \<notin> set seen" "validOutcome outcome"
    "sql_update filing_update_ok filing_row_ok filing_table_ok
        (\<lambda>f. f_id f = i \<and> f_firm f = firmID \<and> f_state f = FBatched) (outcomeRow t outcome) fs = Inr (fs1, 1)"
    "settleOutcomes t firmID expected (FilingKey outcome # seen) rest fs1 = Inr fs'"
proof -
  from assms obtain i where i: "map_of (rev expected) (FilingKey outcome) = Some i"
    by (cases "map_of (rev expected) (FilingKey outcome)") simp_all
  let ?u = "sql_update filing_update_ok filing_row_ok filing_table_ok
        (\<lambda>f. f_id f = i \<and> f_firm f = firmID \<and> f_state f = FBatched) (outcomeRow t outcome) fs"
  from assms i have guards: "FilingKey outcome \<notin> set seen" "validOutcome outcome"
    by (simp_all split: if_splits)
  with assms i obtain fs1 n where u: "?u = Inr (fs1, n)"
    by (cases ?u) auto
  with assms i guards have "n = 1" "settleOutcomes t firmID expected (FilingKey outcome # seen) rest fs1 = Inr fs'"
    by (simp_all split: if_splits)
  with i guards u show thesis by (intro that) simp_all
qed

lemma settleOutcomes_facts:
  assumes "settleOutcomes t firmID expected seen outcomes fs = Inr fs'"
    and "\<forall>f \<in> set fs. filing_row_ok f" and "filing_table_ok fs"
  shows "(\<forall>f \<in> set fs'. filing_row_ok f) \<and> filing_table_ok fs' \<and> map filingKeyOf fs' = map filingKeyOf fs"
  using assms
proof (induction outcomes arbitrary: seen fs)
  case (Cons outcome rest)
  from Cons.prems(1) obtain i fs1 where u: "sql_update filing_update_ok filing_row_ok filing_table_ok
        (\<lambda>f. f_id f = i \<and> f_firm f = firmID \<and> f_state f = FBatched) (outcomeRow t outcome) fs = Inr (fs1, 1)"
    and rest: "settleOutcomes t firmID expected (FilingKey outcome # seen) rest fs1 = Inr fs'"
    by (rule settleOutcomes_step)
  have "(\<forall>f \<in> set fs1. filing_row_ok f) \<and> filing_table_ok fs1"
    by (rule sql_update_integrity [OF u Cons.prems(2)])
  moreover have "map filingKeyOf fs1 = map filingKeyOf fs"
    unfolding sql_update_Inr(1) [OF u] by (simp add: filingKeyOf_def outcomeRow_def)
  ultimately show ?case using Cons.IH [OF rest] by simp
qed simp

lemma filings_replaced_schema:
  assumes "schema_ok d" and "\<forall>f \<in> set fs. filing_row_ok f" and "filing_table_ok fs"
    and "map filingKeyOf fs = map filingKeyOf (db_filings d)"
  shows "schema_ok (d\<lparr>db_filings := fs\<rparr>)"
proof -
  have "map (\<lambda>k. (fst k, fst (snd k), fst (snd (snd k)))) (map filingKeyOf fs)
      = map (\<lambda>k. (fst k, fst (snd k), fst (snd (snd k)))) (map filingKeyOf (db_filings d))"
    using assms(4) by simp
  then have "map (\<lambda>f. (f_id f, f_firm f, f_client f)) fs = map (\<lambda>f. (f_id f, f_firm f, f_client f)) (db_filings d)"
    by (simp add: filingKeyOf_def comp_def)
  then have sets: "set (map (\<lambda>f. (f_id f, f_firm f, f_client f)) fs)
      = set (map (\<lambda>f. (f_id f, f_firm f, f_client f)) (db_filings d))" by metis
  have links: "linkRef_ok (d\<lparr>db_filings := fs\<rparr>) x = linkRef_ok d x" for x
    using sets unfolding linkRef_ok_def by simp
  have "map (\<lambda>k. (snd (snd (snd k)), fst (snd k))) (map filingKeyOf fs)
      = map (\<lambda>k. (snd (snd (snd k)), fst (snd k))) (map filingKeyOf (db_filings d))"
    using assms(4) by simp
  then have refs: "map (\<lambda>f. (f_determination f, f_firm f)) fs = map (\<lambda>f. (f_determination f, f_firm f)) (db_filings d)"
    by (simp add: filingKeyOf_def comp_def)
  have "filingRefs_ok d" using assms(1) by (simp only: schema_ok_def)
  then have "filingRefs_ok (d\<lparr>db_filings := fs\<rparr>)"
    by (rule filingRefs_ok_map) (simp_all add: refs)
  with assms(1-3) links show ?thesis by (simp only: schema_ok_def db.simps) simp
qed

lemma applyEvent_schema:
  assumes "schema_ok d" and "applyEvent t1 t2 c ev d = (d', r)"
  shows "schema_ok d'"
proof (cases r)
  case (Inl e)
  with assms show ?thesis by (auto dest: applyEvent_Inl)
next
  case (Inr u)
  with assms(2) have ok: "applyEvent t1 t2 c ev d = (d', Inr ())" by simp
  show ?thesis
  proof (cases "\<exists>os. ev = EvCompleteAcknowledgment os")
    case True
    then obtain os where "ev = EvCompleteAcknowledgment os" by blast
    with ok have "CompleteAcknowledgment t1 t2 c os d = (d', Inr ())" by simp
    then obtain fs where
      s: "settleOutcomes t1 (c_firmID c) (batchFilings (c_batchID c) (c_firmID c) d) [] os (db_filings d) = Inr fs"
      and u: "updateBatches (claimRowOf t1 c [BSubmitted, BAwaitingAck]) (acknowledgedRow t1) (d\<lparr>db_filings := fs\<rparr>) = Inr (d', 1)"
      by (rule CompleteAcknowledgment_Inr)
    have "schema_ok (d\<lparr>db_filings := fs\<rparr>)"
      using settleOutcomes_facts [OF s] assms(1) by (intro filings_replaced_schema) (auto simp: schema_ok_def)
    then show ?thesis by (rule updateBatches_schema [OF _ u]) (simp add: acknowledgedRow_def)
  next
    case False
    from ok obtain d1 where d1: "d1 = d\<lparr>db_filings := db_filings d'\<rparr>"
      and u: "updateBatches (claimRowOf t1 c (eventStates ev)) (eventUpdate t1 ev) d1 = Inr (d', 1)"
      by (rule applyEvent_Inr)
    have "db_filings d' = db_filings d"
      using ok False by (cases ev) (auto simp: event_defs split: if_splits dest!: recordOutcome_Inr updateBatches_Inr(1))
    then have "d1 = d" by (simp add: d1)
    with assms(1) u show ?thesis by (auto intro: updateBatches_schema)
  qed
qed

lemma ClaimNextBatch_schema:
  assumes "schema_ok d" and "ClaimNextBatch now locked entropy cmd d = (d', r)"
  shows "schema_ok d'"
  using assms(2)
proof (cases rule: ClaimNextBatch_cases)
  case (claimed b token action)
  show ?thesis by (rule updateBatches_schema [OF assms(1) claimed(4)]) simp
next
  case (mismatch b token d1 n)
  have "schema_ok d1" by (rule updateBatches_schema [OF assms(1) mismatch(3)]) simp
  then show ?thesis by (rule updateBatches_schema [OF _ mismatch(4)]) simp
qed (use assms(1) in simp)

lemma openGate_schema:
  assumes "schema_ok d" and "openGate cmd d = (d', r)"
  shows "schema_ok d'"
proof -
  have "d' = d \<or> (acq_FirmID cmd \<notin> set (map g_firm (db_gates d)) \<and> d' = d\<lparr>db_gates := db_gates d
      @ [\<lparr>g_firm = acq_FirmID cmd, g_next_call_at = NegInfinity, g_crash_fence_until = NegInfinity\<rparr>]\<rparr>)"
    using assms(2) by (auto simp: openGate_def ensureGate_def split: if_splits list.splits)
  then show ?thesis
  proof
    assume "acq_FirmID cmd \<notin> set (map g_firm (db_gates d)) \<and> d' = d\<lparr>db_gates := db_gates d
      @ [\<lparr>g_firm = acq_FirmID cmd, g_next_call_at = NegInfinity, g_crash_fence_until = NegInfinity\<rparr>]\<rparr>"
    with assms(1) show ?thesis by (intro schema_ok_calls [OF assms(1)]) (simp_all add: schema_ok_def)
  qed (use assms(1) in simp)
qed

lemma startCall_schema:
  assumes "schema_ok d" and "startCall t1 t2 cmd d = (d', r)"
  shows "schema_ok d'"
proof (cases r)
  case (Inl e)
  with assms show ?thesis by (auto simp: startCall_def Let_def split: if_splits list.splits)
next
  case (Inr p)
  let ?row = "callRow t1 cmd (nextId (map l_id (db_calls d)))"
  from assms(2) Inr have d': "d' = updateGates (acq_FirmID cmd)
      (\<lambda>g. g\<lparr>g_crash_fence_until := At (t2 + crashFenceDuration)\<rparr>) (d\<lparr>db_calls := db_calls d @ [?row]\<rparr>)"
    and row: "call_row_ok ?row"
    by (auto simp: startCall_def Let_def split: if_splits list.splits)
  have "map g_firm (db_gates d') = map g_firm (db_gates d)"
    unfolding d' by (simp add: updateGates_distinct)
  then have gates: "distinct (map g_firm (db_gates d'))" using assms(1) by (metis schema_ok_def)
  have "nextId (map l_id (db_calls d)) \<notin> set (map l_id (db_calls d))" by (rule nextId_fresh)
  with assms(1) row gates show ?thesis
    by (intro schema_ok_calls [OF assms(1)])
      (auto simp: schema_ok_def d' updateGates_def callRow_def)
qed

lemma ImportDataset_schema:
  assumes "schema_ok d" and "ImportDataset cmd src d = (d', r)"
  shows "schema_ok d'"
proof -
  have "d' = d \<or> (\<exists>fs ds cs ps. d' = d\<lparr>db_firms := fs, db_datasets := ds, db_clients := cs, db_payments := ps\<rparr>)"
    using assms(2) unfolding ImportDataset_def storeDataset_def Let_def
    by (auto split: option.splits if_splits sum.splits list.splits)
  with assms(1) show ?thesis
    by (auto simp: schema_ok_def linkRef_ok_def filingRefs_ok_def)
qed

lemma storeStep_schema:
  assumes "schema_ok d"
  shows "schema_ok (storeStep op d)"
proof (cases op)
  case (OpImport cmd src)
  then show ?thesis using ImportDataset_schema [OF assms] by (metis prod.collapse storeStep.simps(1))
next
  case (OpDetermine cmd)
  then show ?thesis using DetermineDataset_schema [OF assms] by (metis prod.collapse storeStep.simps(2))
next
  case (OpPlan now cmd)
  then show ?thesis using PlanBatches_schema [OF assms] by (metis prod.collapse storeStep.simps(3))
next
  case (OpClaim now locked entropy cmd)
  then show ?thesis using ClaimNextBatch_schema [OF assms] by (metis prod.collapse storeStep.simps(4))
next
  case (OpEvent t1 t2 c ev)
  then show ?thesis using applyEvent_schema [OF assms] by (metis prod.collapse storeStep.simps(5))
next
  case (OpOpenGate cmd)
  then show ?thesis using openGate_schema [OF assms] by (metis prod.collapse storeStep.simps(6))
next
  case (OpStartCall t1 t2 cmd)
  then show ?thesis using startCall_schema [OF assms] by (metis prod.collapse storeStep.simps(7))
next
  case (OpFinish t1 t2 res permit)
  then show ?thesis using Finish_schema [OF assms] by (metis prod.collapse storeStep.simps(8))
qed


end
