(* ===== verification/Store_Safety.thy ===== *)
theory Store_Safety
  imports Store_Machine
begin

text \<open>
  Safety of runs of the store: batches only move forward along their state machine, a claim is
  spent at most once, and an event under a claim no batch holds fails and changes nothing.
\<close>

section \<open>Batches only move forward\<close>

lemma other_batches:
  "db_batches (fst (ImportDataset cmd src d)) = db_batches d"
  "db_batches (fst (DetermineDataset dcmd d)) = db_batches d"
  "db_batches (fst (openGate acq d)) = db_batches d"
  "db_batches (fst (startCall t1 t2 acq d)) = db_batches d"
  "db_batches (fst (snd (Finish t1 t2 res permit d))) = db_batches d"
proof -
  show "db_batches (fst (ImportDataset cmd src d)) = db_batches d"
    unfolding ImportDataset_def storeDataset_def Let_def
    by (auto split: option.splits if_splits sum.splits list.splits)
  show "db_batches (fst (DetermineDataset dcmd d)) = db_batches d"
    unfolding DetermineDataset_def insertDetermination_def insertFilings_def Let_def
    by (auto split: option.splits if_splits sum.splits list.splits)
  show "db_batches (fst (openGate acq d)) = db_batches d"
    by (auto simp: openGate_def ensureGate_def split: if_splits sum.splits list.splits)
  show "db_batches (fst (startCall t1 t2 acq d)) = db_batches d"
    by (auto simp: startCall_def Let_def updateGates_def split: if_splits list.splits)
  show "db_batches (fst (snd (Finish t1 t2 res permit d))) = db_batches d"
    by (auto simp: Finish_def updateGates_def split: if_splits sum.splits)
qed

lemma PlanBatches_batches:
  obtains new where "db_batches (fst (PlanBatches now cmd d)) = db_batches d @ new"
    "\<forall>b \<in> set new. b_state b = BPlanned \<and> b_token b = None \<and> b_receipt b = None \<and> b_firm b = plan_FirmID cmd"
proof (cases "PlanBatches now cmd d")
  case (Pair d' r)
  show thesis
  proof (cases r)
    case (Inl e)
    with Pair have "db_batches (fst (PlanBatches now cmd d)) = db_batches d @ []" by (auto dest: PlanBatches_Inl)
    then show thesis by (rule that) simp
  next
    case (Inr res)
    with Pair have "PlanBatches now cmd d = (d', Inr res)" by simp
    then show thesis
    proof (cases rule: PlanBatches_Inr)
      case nothing
      with Pair have "db_batches (fst (PlanBatches now cmd d)) = db_batches d @ []" by simp
      then show thesis by (rule that) simp
    next
      case (planned groups base rows links)
      with Pair have "db_batches (fst (PlanBatches now cmd d)) = db_batches d @ rows" by simp
      then show thesis
        by (rule that) (auto simp: planned(4) groupRow_def plannedRow_def)
    qed
  qed
qed

lemma storeStep_evolves:
  assumes "schema_ok d"
  shows "batchesEvolve (db_batches d) (db_batches (storeStep op d))"
proof (cases op)
  case (OpPlan now cmd)
  then show ?thesis by (metis PlanBatches_batches batchesEvolve_append storeStep.simps(3))
next
  case (OpClaim now locked entropy cmd)
  then show ?thesis
    using ClaimNextBatch_evolves by (metis prod.collapse storeStep.simps(4))
next
  case (OpEvent t1 t2 c ev)
  have "\<forall>b \<in> set (db_batches d). batch_row_ok b" using assms by (simp add: schema_ok_def)
  with OpEvent applyEvent_evolves show ?thesis by (metis prod.collapse storeStep.simps(5))
qed (simp_all add: other_batches)

text \<open>C7. Through any run every batch keeps its identity, payload and hash, moves only along the
  batch state machine, never loses or changes a receipt, never counts attempts down, and once
  acknowledged or failed never changes again.\<close>

theorem batch_evolution:
  assumes "schema_ok d" and "b \<in> set (db_batches d)"
  shows "\<exists>b' \<in> set (db_batches (storeRun ops d)).
      b_id b' = b_id b \<and> b_firm b' = b_firm b \<and> b_utid b' = b_utid b \<and> b_xml b' = b_xml b \<and> b_hash b' = b_hash b
      \<and> batch_next\<^sup>*\<^sup>* (b_state b) (b_state b')
      \<and> (\<forall>r. b_receipt b = Some r \<longrightarrow> b_receipt b' = Some r)
      \<and> b_attempts b \<le> b_attempts b'
      \<and> (terminalState (b_state b) \<longrightarrow> b' = b)"
proof -
  have "batchesEvolve (db_batches d) (db_batches (storeRun ops d))"
    by (rule storeRun_related [of schema_ok, OF assms(1) storeStep_schema storeStep_evolves batchesEvolve_refl])
      (auto intro: batchesEvolve_trans)
  then obtain b' where "b' \<in> set (db_batches (storeRun ops d))" "rowEvolves b b'"
    using assms(2) by (auto simp: batchesEvolve_def)
  then show ?thesis by (intro bexI [of _ b']) (auto simp: rowEvolves_def)
qed

section \<open>A claim is spent once\<close>

text \<open>The tokens a step can mint.\<close>

fun mintedToken :: "store_op \<Rightarrow> string option" where
  "mintedToken (OpClaim now locked entropy cmd) = newClaimToken entropy"
| "mintedToken _ = None"

text \<open>A run as a history of one claim: its own events are fired, all else is environment.\<close>

fun claimStep :: "Claim \<Rightarrow> store_op \<Rightarrow> (db, int \<times> int, lifecycle_event) claim_step" where
  "claimStep c (OpEvent t1 t2 c' ev) = (if c' = c then Fire (t1, t2) ev else Env (storeStep (OpEvent t1 t2 c' ev)))"
| "claimStep c op = Env (storeStep op)"

definition claimUses :: "Claim \<Rightarrow> store_op list \<Rightarrow> db \<Rightarrow> nat" where
  "claimUses c ops d = snd (fireAll (\<lambda>(t1, t2). applyEvent t1 t2) c (map (claimStep c) ops) d)"

lemma holdsClaim_map:
  assumes "db_batches d' = map (\<lambda>r. if p r then u r else r) (db_batches d)"
    and "\<And>r. p r \<Longrightarrow> b_token (u r) \<noteq> Some (c_token c)"
    and "holdsClaim d' c"
  shows "holdsClaim d c"
  using assms by (auto simp: holdsClaim_def split: if_splits)

lemma updates_drop_claims:
  assumes "updateBatches p u d = Inr (d', n)" and "holdsClaim d' c"
    and "\<And>r. b_token (u r) \<noteq> Some (c_token c)"
  shows "holdsClaim d c"
proof (rule holdsClaim_map)
  show "db_batches d' = map (\<lambda>r. if p r then u r else r) (db_batches d)"
    using updateBatches_Inr(1) [OF assms(1)] by simp
qed (use assms in auto)

lemma storeStep_never_takes:
  assumes "holdsClaim (storeStep op d) c" and "mintedToken op \<noteq> Some (c_token c)"
  shows "holdsClaim d c"
proof (cases op)
  case (OpPlan now cmd)
  obtain new where "db_batches (fst (PlanBatches now cmd d)) = db_batches d @ new"
    "\<forall>b \<in> set new. b_state b = BPlanned \<and> b_token b = None \<and> b_receipt b = None \<and> b_firm b = plan_FirmID cmd"
    by (rule PlanBatches_batches)
  with assms(1) OpPlan show ?thesis by (auto simp: holdsClaim_def)
next
  case (OpEvent t1 t2 c' ev)
  obtain d' r where e: "applyEvent t1 t2 c' ev d = (d', r)" by (cases "applyEvent t1 t2 c' ev d") auto
  show ?thesis
  proof (cases r)
    case (Inl err)
    with e applyEvent_Inl have "d' = d" by blast
    with assms(1) OpEvent e show ?thesis by simp
  next
    case (Inr u)
    with e have "applyEvent t1 t2 c' ev d = (d', Inr ())" by simp
    then obtain b :: batch_row where "db_batches d' = map (\<lambda>r. if b_id r = b_id b then eventUpdate t1 ev r else r) (db_batches d)"
      by (rule applyEvent_row)
    then show ?thesis by (rule holdsClaim_map) (use assms(1) OpEvent e in auto)
  qed
next
  case (OpClaim now locked entropy cmd)
  obtain d' r where e: "ClaimNextBatch now locked entropy cmd d = (d', r)"
    by (cases "ClaimNextBatch now locked entropy cmd d") auto
  from assms(1) OpClaim e have held: "holdsClaim d' c" by simp
  from e show ?thesis
  proof (cases rule: ClaimNextBatch_cases)
    case unchanged
    with held show ?thesis by simp
  next
    case (claimed b token action)
    then have "token \<noteq> c_token c" using assms(2) OpClaim claimed by auto
    with updates_drop_claims [OF claimed(4) held] show ?thesis by (simp add: claimRow_def)
  next
    case (mismatch b token d1 n)
    have "holdsClaim d1 c"
      using updates_drop_claims [OF mismatch(4) held] by (simp add: hashMismatchRow_def)
    moreover have "token \<noteq> c_token c" using assms(2) OpClaim mismatch(7) by simp
    ultimately show ?thesis
      using updates_drop_claims [OF mismatch(3)] by (simp add: claimRow_def)
  qed
qed (use assms(1) in \<open>simp_all add: holdsClaim_def other_batches\<close>)

text \<open>C5. A claim is good for one outcome: however its events and all other operations interleave,
  at most one event under the claim ever succeeds, as long as the random claim tokens minted
  during the run differ from its own.\<close>

theorem claim_spent_once:
  assumes "\<forall>op \<in> set ops. mintedToken op \<noteq> Some (c_token c)"
  shows "claimUses c ops d \<le> 1"
proof -
  have "neverTakes holdsClaim c (map (claimStep c) ops)"
    unfolding neverTakes_def
  proof (intro allI impI)
    fix g s assume "Env g \<in> set (map (claimStep c) ops)" and held: "holdsClaim (g s) c"
    then obtain op where op: "op \<in> set ops" "Env g = claimStep c op" by auto
    from op(2) have "g = storeStep op" by (cases op) (auto split: if_splits)
    with held op(1) assms show "holdsClaim s c" using storeStep_never_takes by blast
  qed
  then show ?thesis unfolding claimUses_def by (rule lifecycle.claim_used_at_most_once)
qed

text \<open>A stale claim is powerless: if no batch is held under the claim's token, every event fails
  and leaves the database exactly as it was.\<close>

theorem stale_claim_fenced:
  assumes "\<not> holdsClaim d c"
  shows "\<exists>err. applyEvent t1 t2 c ev d = (d, Inl err)"
  using lifecycle.stale_no_effect [OF assms, of "(t1, t2)" ev] by simp


section \<open>Witnesses\<close>

definition sampleAccepted :: lifecycle_event where
  "sampleAccepted = EvSubmitAccepted \<lparr>sa_ReceiptID = ''r-1'', sa_PollDelay = 0\<rparr>"

lemma sampleAccepted_applies:
  "applyEvent 5 5 sampleClaim sampleAccepted (claimedDb BSubmitting None (Some ''tok''))
   = ((claimedDb BSubmitted (Some ''r-1'') None)\<lparr>db_batches := [(sampleBatch BSubmitted (Some ''r-1'') None)
        \<lparr>b_next_action_at := 5, b_submitted_at := Some 5\<rparr>]\<rparr>, Inr ())"
  by (simp add: sampleAccepted_def RecordSubmitAccepted_def eventTransition_def recordOutcome_def
      StoreClaimParts_def updateBatches_def sql_update_def claimedBy_def eventRow_def
      sample_defs schema_defs validDelay_def validFailureCode_def nullIfEmpty_def Microseconds_def go_div_def duration_defs)


theorem batch_evolution_witness:
  "\<exists>b' \<in> set (db_batches (storeRun [OpEvent 5 5 sampleClaim sampleAccepted] (claimedDb BSubmitting None (Some ''tok'')))).
     b_xml b' = ''x'' \<and> batch_next\<^sup>*\<^sup>* BSubmitting (b_state b')"
proof -
  have "schema_ok (claimedDb BSubmitting None (Some ''tok''))" by (rule claimedDb_ok) simp_all
  from batch_evolution [OF this, of "sampleBatch BSubmitting None (Some ''tok'')" "[OpEvent 5 5 sampleClaim sampleAccepted]"]
  show ?thesis
    by (auto simp: claimedDb_def sampleBatch_def)
qed

theorem claim_spent_once_witness:
  "claimUses sampleClaim [OpEvent 5 5 sampleClaim sampleAccepted, OpEvent 5 5 sampleClaim sampleAccepted]
     (claimedDb BSubmitting None (Some ''tok'')) = 1"
proof (rule antisym)
  show "claimUses sampleClaim [OpEvent 5 5 sampleClaim sampleAccepted, OpEvent 5 5 sampleClaim sampleAccepted]
     (claimedDb BSubmitting None (Some ''tok'')) \<le> 1"
    by (rule claim_spent_once) simp
qed (simp add: claimUses_def sampleAccepted_applies split: prod.splits sum.splits)

theorem stale_claim_fenced_witness:
  "\<exists>err. applyEvent 5 5 sampleClaim sampleAccepted (claimedDb BSubmitting None (Some ''other''))
     = (claimedDb BSubmitting None (Some ''other''), Inl err)"
  by (rule stale_claim_fenced) (simp add: holdsClaim_def sample_defs)

end
