(* ===== verification/Store_Settlement.thy ===== *)
theory Store_Settlement
  imports Store_Safety
begin

text \<open>
  What a run of the store means for filings: an acknowledgment settles every filing of its
  batch or changes nothing, and filings keep what was determined for them and only move forward.
\<close>

section \<open>Settling a batch\<close>

lemma settleOutcomes_keeps:
  assumes "settleOutcomes t firmID expected seen outcomes fs = Inr fs'"
    and "f \<in> set fs" and "f_state f \<noteq> FBatched"
  shows "f \<in> set fs'"
  using assms
proof (induction outcomes arbitrary: seen fs)
  case (Cons outcome rest)
  from Cons.prems(1) obtain i fs1 where u: "sql_update filing_update_ok filing_row_ok filing_table_ok
        (\<lambda>f. f_id f = i \<and> f_firm f = firmID \<and> f_state f = FBatched) (outcomeRow t outcome) fs = Inr (fs1, 1)"
    and rest: "settleOutcomes t firmID expected (FilingKey outcome # seen) rest fs1 = Inr fs'"
    by (rule settleOutcomes_step)
  from Cons.prems(2,3) have "f \<in> set fs1" unfolding sql_update_Inr(1) [OF u] by force
  with Cons.IH [OF rest] Cons.prems(3) show ?case by simp
qed simp

lemma settleOutcomes_others:
  assumes "settleOutcomes t firmID expected seen outcomes fs = Inr fs'"
    and "f \<in> set fs" and "f_id f \<notin> snd ` set expected"
  shows "f \<in> set fs'"
  using assms
proof (induction outcomes arbitrary: seen fs)
  case (Cons outcome rest)
  from Cons.prems(1) obtain i fs1 where i: "map_of (rev expected) (FilingKey outcome) = Some i"
    and u: "sql_update filing_update_ok filing_row_ok filing_table_ok
        (\<lambda>f. f_id f = i \<and> f_firm f = firmID \<and> f_state f = FBatched) (outcomeRow t outcome) fs = Inr (fs1, 1)"
    and rest: "settleOutcomes t firmID expected (FilingKey outcome # seen) rest fs1 = Inr fs'"
    by (rule settleOutcomes_step)
  from map_of_SomeD [OF i] Cons.prems(3) have "f_id f \<noteq> i" by force
  with Cons.prems(2) have "f \<in> set fs1" unfolding sql_update_Inr(1) [OF u] by force
  with Cons.IH [OF rest] Cons.prems(3) show ?case by simp
qed simp

definition settledBy :: "FilingOutcome \<Rightarrow> filing_row \<Rightarrow> bool" where
  "settledBy outcome f \<longleftrightarrow>
     (if IRSRecordID outcome = ''''
      then f_state f = FRejected \<and> f_rejection_reason f = Some (RejectionReason outcome)
      else f_state f = FAccepted \<and> f_irs_record_id f = Some (IRSRecordID outcome))"

lemma outcomeRow_settled: "validOutcome outcome \<Longrightarrow> settledBy outcome (outcomeRow t outcome f)"
  by (auto simp: validOutcome_def outcomeRow_def settledBy_def)

lemma settledBy_final: "settledBy outcome f \<Longrightarrow> f_state f \<noteq> FBatched"
  by (auto simp: settledBy_def split: if_splits)

lemma settleOutcomes_settles:
  assumes "settleOutcomes t firmID expected seen outcomes fs = Inr fs'"
  shows "(\<forall>outcome \<in> set outcomes. \<exists>i f. map_of (rev expected) (FilingKey outcome) = Some i
            \<and> f \<in> set fs' \<and> f_id f = i \<and> settledBy outcome f)
     \<and> distinct (map FilingKey outcomes) \<and> set (map FilingKey outcomes) \<inter> set seen = {}"
  using assms
proof (induction outcomes arbitrary: seen fs)
  case (Cons outcome rest)
  from Cons.prems obtain i fs1 where i: "map_of (rev expected) (FilingKey outcome) = Some i"
    and new: "FilingKey outcome \<notin> set seen" and valid: "validOutcome outcome"
    and u: "sql_update filing_update_ok filing_row_ok filing_table_ok
        (\<lambda>f. f_id f = i \<and> f_firm f = firmID \<and> f_state f = FBatched) (outcomeRow t outcome) fs = Inr (fs1, 1)"
    and rest: "settleOutcomes t firmID expected (FilingKey outcome # seen) rest fs1 = Inr fs'"
    by (rule settleOutcomes_step)
  let ?p = "\<lambda>f. f_id f = i \<and> f_firm f = firmID \<and> f_state f = FBatched"
  from sql_update_Inr(2) [OF u] have "filter ?p fs \<noteq> []" by auto
  then obtain f where f: "f \<in> set fs" "?p f" by (auto simp: filter_empty_conv)
  have settled: "settledBy outcome (outcomeRow t outcome f)" by (rule outcomeRow_settled [OF valid])
  have "outcomeRow t outcome f \<in> set fs1"
    unfolding sql_update_Inr(1) [OF u] by (rule updated_in_map [where p = ?p, OF f])
  with settleOutcomes_keeps [OF rest] settledBy_final [OF settled]
  have "outcomeRow t outcome f \<in> set fs'" by blast
  moreover have "f_id (outcomeRow t outcome f) = i" using f(2) by (simp add: outcomeRow_def)
  ultimately have "\<exists>i f. map_of (rev expected) (FilingKey outcome) = Some i
            \<and> f \<in> set fs' \<and> f_id f = i \<and> settledBy outcome f"
    using i settled by blast
  with Cons.IH [OF rest] new show ?case by auto
qed simp

lemma batchFilings_mem:
  assumes "(key, i) \<in> set (batchFilings batchID firmID d)"
  obtains f where "f \<in> set (db_filings d)" "hexEncode (f_key f) = key" "f_id f = i" "f_firm f = firmID"
  using assms by (auto simp: batchFilings_def)

text \<open>The key of an expected filing decides it.\<close>

lemma batchFilings_key:
  assumes "schema_ok d" and "(key, i) \<in> set (batchFilings m firm1 d)" and "(key, j) \<in> set (batchFilings n firm2 d)"
  shows "i = j"
proof -
  from assms(3) obtain g where g: "g \<in> set (db_filings d)" "hexEncode (f_key g) = key" "f_id g = j" by (rule batchFilings_mem)
  from assms(2) obtain h where h: "h \<in> set (db_filings d)" "hexEncode (f_key h) = key" "f_id h = i" by (rule batchFilings_mem)
  from g h have "f_key g = f_key h" by (metis hexEncode_inject)
  with g h assms(1) show ?thesis
    by (auto simp: schema_ok_def filing_table_ok_def distinct_map dest: inj_onD)
qed

text \<open>As many outcomes as keys, each for an expected key and none twice: every key has its outcome.\<close>

lemma outcomes_cover:
  assumes "settleOutcomes t1 firmID expected [] outcomes fs0 = Inr fs"
    and "length (remdups (map fst expected)) = length outcomes"
  shows "set (map FilingKey outcomes) = fst ` set expected"
proof (rule card_subset_eq)
  note settles = settleOutcomes_settles [OF assms(1)]
  show "set (map FilingKey outcomes) \<subseteq> fst ` set expected"
  proof
    fix key assume "key \<in> set (map FilingKey outcomes)"
    with settles obtain i where "map_of (rev expected) key = Some i" by auto
    from map_of_SomeD [OF this] show "key \<in> fst ` set expected" by force
  qed
  show "card (set (map FilingKey outcomes)) = card (fst ` set expected)"
    using settles assms(2) by (metis distinct_card length_map length_remdups_card_conv list.set_map)
qed simp

lemma acknowledged_stored:
  assumes "updateBatches (claimRowOf t1 c states) (acknowledgedRow t1) d = Inr (d', 1)"
  shows "\<exists>b \<in> set (db_batches d'). b_id b = c_batchID c \<and> b_state b = BAcknowledged"
proof -
  let ?p = "claimRowOf t1 c states"
  from updateBatches_Inr(2) [OF assms] have "filter ?p (db_batches d) \<noteq> []" by auto
  then obtain b where b: "b \<in> set (db_batches d)" "?p b" by (auto simp: filter_empty_conv)
  have "acknowledgedRow t1 b \<in> set (db_batches d')"
    using updateBatches_Inr(1) [OF assms] updated_in_map [where p = ?p, OF b] by simp
  with b(2) show ?thesis
    by (intro bexI) (auto simp: acknowledgedRow_def claimRowOf_def claimedBy_def)
qed

text \<open>C28. An acknowledgment is all or nothing: a failing one changes nothing, a successful one
  settles every filing of the batch as its outcome says, accepted with its IRS record ID or
  rejected with its reason, marks the batch acknowledged, and leaves every filing outside the
  batch as it was.\<close>

theorem acknowledgment_settles:
  assumes "schema_ok d" and "CompleteAcknowledgment t1 t2 c outcomes d = (d', r)"
  shows "(case r of
      Inl e \<Rightarrow> d' = d
    | Inr _ \<Rightarrow>
        (\<forall>(key, i) \<in> set (batchFilings (c_batchID c) (c_firmID c) d).
           \<exists>outcome \<in> set outcomes. FilingKey outcome = key
             \<and> (\<exists>f \<in> set (db_filings d'). f_id f = i \<and> settledBy outcome f))
        \<and> (\<exists>b \<in> set (db_batches d'). b_id b = c_batchID c \<and> b_state b = BAcknowledged)
        \<and> (\<forall>f \<in> set (db_filings d). f_id f \<notin> snd ` set (batchFilings (c_batchID c) (c_firmID c) d)
             \<longrightarrow> f \<in> set (db_filings d')))"
proof (cases r)
  case (Inl e)
  with assms(2) CompleteAcknowledgment_Inl show ?thesis by simp
next
  case (Inr u)
  let ?expected = "batchFilings (c_batchID c) (c_firmID c) d"
  from assms(2) Inr have ok: "CompleteAcknowledgment t1 t2 c outcomes d = (d', Inr ())" by simp
  then obtain fs where s: "settleOutcomes t1 (c_firmID c) ?expected [] outcomes (db_filings d) = Inr fs"
    and len: "length (remdups (map fst ?expected)) = length outcomes"
    and u: "updateBatches (claimRowOf t1 c [BSubmitted, BAwaitingAck]) (acknowledgedRow t1)
       (d\<lparr>db_filings := fs\<rparr>) = Inr (d', 1)"
    by (rule CompleteAcknowledgment_Inr)
  from updateBatches_Inr(1) [OF u] have filings: "db_filings d' = fs" by simp
  note settles = settleOutcomes_settles [OF s]
  have "\<exists>outcome \<in> set outcomes. FilingKey outcome = key
             \<and> (\<exists>f \<in> set fs. f_id f = i \<and> settledBy outcome f)"
    if e: "(key, i) \<in> set ?expected" for key i
  proof -
    from e have "key \<in> set (map FilingKey outcomes)" unfolding outcomes_cover [OF s len] by force
    then obtain outcome where out: "outcome \<in> set outcomes" "FilingKey outcome = key" by auto
    with settles obtain j f where j: "map_of (rev ?expected) key = Some j" "f \<in> set fs" "f_id f = j" "settledBy outcome f"
      by blast
    from map_of_SomeD [OF j(1)] have "i = j" by (intro batchFilings_key [OF assms(1) e]) simp
    with out j show ?thesis by blast
  qed
  moreover note acknowledged_stored [OF u]
  ultimately show ?thesis
    using settleOutcomes_others [OF s] Inr by (auto simp: filings)
qed

section \<open>Filings only move forward\<close>

inductive filing_next :: "filing_state \<Rightarrow> filing_state \<Rightarrow> bool" where
  batched: "filing_next FReady FBatched"
| accepted: "filing_next FBatched FAccepted"
| rejected: "filing_next FBatched FRejected"

inductive_simps filing_next_simps [simp]:
  "filing_next st FBlockedPreflight" "filing_next st FReady" "filing_next st FBatched"
  "filing_next st FAccepted" "filing_next st FRejected"

inductive_cases filing_next_from: "filing_next FAccepted st" "filing_next FRejected st" "filing_next FBlockedPreflight st"

text \<open>Everything a determination decided about a filing.\<close>

definition decided :: "filing_row \<Rightarrow> filing_row" where
  "decided f = f\<lparr>f_state := FReady, f_irs_record_id := None, f_rejection_reason := None, f_acknowledged_at := None\<rparr>"

definition filingEvolves :: "filing_row \<Rightarrow> filing_row \<Rightarrow> bool" where
  "filingEvolves f f' \<longleftrightarrow>
     decided f' = decided f \<and> filing_next\<^sup>*\<^sup>* (f_state f) (f_state f')
     \<and> (f_state f \<in> {FAccepted, FRejected} \<longrightarrow> f' = f)"

lemma filingEvolves_refl [simp]: "filingEvolves f f"
  by (simp add: filingEvolves_def)

lemma filingEvolves_trans: "filingEvolves f g \<Longrightarrow> filingEvolves g h \<Longrightarrow> filingEvolves f h"
  unfolding filingEvolves_def by (auto elim: rtranclp_trans)

definition filingsEvolve :: "filing_row list \<Rightarrow> filing_row list \<Rightarrow> bool" where
  "filingsEvolve fs fs' \<longleftrightarrow> (\<forall>f \<in> set fs. \<exists>f' \<in> set fs'. filingEvolves f f')"

lemma filingsEvolve_refl [simp]: "filingsEvolve fs fs"
  by (auto simp: filingsEvolve_def intro: filingEvolves_refl)

lemma filingsEvolve_append [simp]: "filingsEvolve fs (fs @ new)"
  unfolding filingsEvolve_def by (auto intro: filingEvolves_refl)

lemma filingsEvolve_trans: "filingsEvolve fs gs \<Longrightarrow> filingsEvolve gs hs \<Longrightarrow> filingsEvolve fs hs"
  unfolding filingsEvolve_def by (meson filingEvolves_trans)

lemma filingsEvolve_update:
  assumes "\<And>f. f \<in> set fs \<Longrightarrow> p f \<Longrightarrow> filingEvolves f (u f)"
  shows "filingsEvolve fs (map (\<lambda>f. if p f then u f else f) fs)"
  unfolding filingsEvolve_def
proof
  fix f assume f: "f \<in> set fs"
  then have "(if p f then u f else f) \<in> set (map (\<lambda>f. if p f then u f else f) fs)" by simp
  moreover have "filingEvolves f (if p f then u f else f)" using assms f by simp
  ultimately show "\<exists>f' \<in> set (map (\<lambda>f. if p f then u f else f) fs). filingEvolves f f'" by blast
qed

lemma settleOutcomes_evolves:
  assumes "settleOutcomes t firmID expected seen outcomes fs = Inr fs'"
  shows "filingsEvolve fs fs'"
  using assms
proof (induction outcomes arbitrary: seen fs)
  case (Cons outcome rest)
  from Cons.prems obtain i fs1 where u: "sql_update filing_update_ok filing_row_ok filing_table_ok
        (\<lambda>f. f_id f = i \<and> f_firm f = firmID \<and> f_state f = FBatched) (outcomeRow t outcome) fs = Inr (fs1, 1)"
    and rest: "settleOutcomes t firmID expected (FilingKey outcome # seen) rest fs1 = Inr fs'"
    by (rule settleOutcomes_step)
  have "filingsEvolve fs fs1"
    unfolding sql_update_Inr(1) [OF u]
    by (rule filingsEvolve_update)
      (auto simp: filingEvolves_def decided_def outcomeRow_def intro: filing_next.intros)
  with Cons.IH [OF rest] show ?case by (blast intro: filingsEvolve_trans)
qed simp

lemma other_filings:
  "db_filings (fst (ImportDataset cmd src d)) = db_filings d"
  "db_filings (fst (ClaimNextBatch now locked entropy ccmd d)) = db_filings d"
  "db_filings (fst (openGate acq d)) = db_filings d"
  "db_filings (fst (startCall t1 t2 acq d)) = db_filings d"
  "db_filings (fst (snd (Finish t1 t2 res permit d))) = db_filings d"
proof -
  show "db_filings (fst (ImportDataset cmd src d)) = db_filings d"
    unfolding ImportDataset_def storeDataset_def Let_def
    by (auto split: option.splits if_splits sum.splits list.splits)
  show "db_filings (fst (ClaimNextBatch now locked entropy ccmd d)) = db_filings d"
  proof (cases "ClaimNextBatch now locked entropy ccmd d")
    case (Pair d' r)
    then have "db_filings d' = db_filings d"
      by (cases rule: ClaimNextBatch_cases) (auto dest!: updateBatches_Inr(1))
    with Pair show ?thesis by simp
  qed
  show "db_filings (fst (openGate acq d)) = db_filings d"
    by (auto simp: openGate_def ensureGate_def split: if_splits sum.splits list.splits)
  show "db_filings (fst (startCall t1 t2 acq d)) = db_filings d"
    by (auto simp: startCall_def Let_def updateGates_def split: if_splits list.splits)
  show "db_filings (fst (snd (Finish t1 t2 res permit d))) = db_filings d"
    by (auto simp: Finish_def updateGates_def split: if_splits sum.splits)
qed

lemma applyEvent_filings:
  assumes "applyEvent t1 t2 c ev d = (d', r)"
  shows "db_filings d' = db_filings d
    \<or> (\<exists>os. ev = EvCompleteAcknowledgment os \<and> settleOutcomes t1 (c_firmID c)
          (batchFilings (c_batchID c) (c_firmID c) d) [] os (db_filings d) = Inr (db_filings d'))"
proof (cases r)
  case (Inl e)
  with assms show ?thesis by (auto dest: applyEvent_Inl)
next
  case (Inr u)
  with assms have ok: "applyEvent t1 t2 c ev d = (d', Inr ())" by simp
  show ?thesis
  proof (cases "\<exists>os. ev = EvCompleteAcknowledgment os")
    case True
    then obtain os where ev: "ev = EvCompleteAcknowledgment os" by blast
    with ok have "CompleteAcknowledgment t1 t2 c os d = (d', Inr ())" by simp
    then obtain fs where
      s: "settleOutcomes t1 (c_firmID c) (batchFilings (c_batchID c) (c_firmID c) d) [] os (db_filings d) = Inr fs"
      and u: "updateBatches (claimRowOf t1 c [BSubmitted, BAwaitingAck]) (acknowledgedRow t1) (d\<lparr>db_filings := fs\<rparr>) = Inr (d', 1)"
      by (rule CompleteAcknowledgment_Inr)
    from updateBatches_Inr(1) [OF u] s ev show ?thesis by simp
  next
    case False
    with ok have "db_filings d' = db_filings d"
      by (cases ev) (auto simp: event_defs split: if_splits dest!: recordOutcome_Inr updateBatches_Inr(1))
    then show ?thesis ..
  qed
qed

lemma PlanBatches_filings_evolve: "filingsEvolve (db_filings d) (db_filings (fst (PlanBatches now cmd d)))"
proof (cases "PlanBatches now cmd d")
  case (Pair d' r)
  show ?thesis
  proof (cases r)
    case (Inl e)
    with Pair show ?thesis by (auto dest: PlanBatches_Inl)
  next
    case (Inr res)
    with Pair have "PlanBatches now cmd d = (d', Inr res)" by simp
    then show ?thesis
    proof (cases rule: PlanBatches_Inr)
      case (planned groups base rows links)
      have "filingsEvolve (db_filings d) (db_filings d')"
        unfolding planned(10)
        by (simp, rule filingsEvolve_update) (auto simp: filingEvolves_def decided_def intro: filing_next.intros)
      with Pair show ?thesis by simp
    qed (use Pair in simp)
  qed
qed

lemma DetermineDataset_filings_evolve: "filingsEvolve (db_filings d) (db_filings (fst (DetermineDataset cmd d)))"
proof -
  have "\<exists>new. db_filings (fst (DetermineDataset cmd d)) = db_filings d @ new"
    unfolding DetermineDataset_def insertDetermination_def insertFilings_def Let_def
    by (auto split: option.splits if_splits sum.splits list.splits dest!: sql_insert_Inr(1))
  then show ?thesis by auto
qed

lemma storeStep_filings_evolve: "filingsEvolve (db_filings d) (db_filings (storeStep op d))"
proof (cases op)
  case (OpEvent t1 t2 c ev)
  obtain d' r where e: "applyEvent t1 t2 c ev d = (d', r)" by (cases "applyEvent t1 t2 c ev d") auto
  from applyEvent_filings [OF e] settleOutcomes_evolves have "filingsEvolve (db_filings d) (db_filings d')" by auto
  with OpEvent e show ?thesis by simp
qed (simp_all add: other_filings PlanBatches_filings_evolve DetermineDataset_filings_evolve)

text \<open>C29. Through any run a filing keeps everything its determination decided (identity, key,
  payee, amounts), moves only from ready to batched to accepted or rejected, and a result, once
  recorded, never changes.\<close>

theorem filing_evolution:
  assumes "f \<in> set (db_filings d)"
  shows "\<exists>f' \<in> set (db_filings (storeRun ops d)).
      decided f' = decided f \<and> filing_next\<^sup>*\<^sup>* (f_state f) (f_state f')
      \<and> (f_state f \<in> {FAccepted, FRejected} \<longrightarrow> f' = f)"
proof -
  have "filingsEvolve (db_filings d) (db_filings (storeRun ops d))"
    by (rule storeRun_related [of "\<lambda>_. True"])
      (auto intro: storeStep_filings_evolve filingsEvolve_trans)
  with assms show ?thesis by (auto simp: filingsEvolve_def filingEvolves_def)
qed

section \<open>Witnesses\<close>

definition sampleOutcome :: FilingOutcome where
  "sampleOutcome = \<lparr>FilingKey = hexEncode (replicate 32 (CHR ''k'')), IRSRecordID = ''irs-1'', RejectionReason = ''''\<rparr>"

lemma sample_batchFilings:
  "batchFilings 1 ''acme'' (claimedDb st receipt token) = [(hexEncode (replicate 32 (CHR ''k'')), 1)]"
  by (simp add: batchFilings_def sample_defs)

lemma sampleOutcome_completes:
  "\<exists>d'. CompleteAcknowledgment 5 5 sampleClaim [sampleOutcome] (claimedDb BSubmitted (Some ''r-1'') (Some ''tok'')) = (d', Inr ())"
proof -
  let ?fs = "[sampleFiling\<lparr>f_state := FAccepted, f_irs_record_id := Some ''irs-1'', f_rejection_reason := None,
      f_acknowledged_at := Some 5\<rparr>]"
  have "settleOutcomes 5 ''acme'' [(hexEncode (replicate 32 (CHR ''k'')), 1)] [] [sampleOutcome]
      [sampleFiling\<lparr>f_state := FBatched\<rparr>] = Inr ?fs"
    by (simp add: sampleOutcome_def sql_update_def validOutcome_def outcomeRow_def sample_defs schema_defs)
  moreover have "updateBatches (claimedBy 5 1 ''acme'' ''tok'' [BSubmitted, BAwaitingAck]) (acknowledgedRow 5)
      ((claimedDb BSubmitted (Some ''r-1'') (Some ''tok''))\<lparr>db_filings := ?fs\<rparr>)
    = Inr ((claimedDb BSubmitted (Some ''r-1'') (Some ''tok''))\<lparr>db_filings := ?fs,
        db_batches := [acknowledgedRow 5 (sampleBatch BSubmitted (Some ''r-1'') (Some ''tok''))]\<rparr>, 1)"
    by (simp add: updateBatches_def sql_update_def claimedBy_def acknowledgedRow_def sample_defs schema_defs)
  ultimately show ?thesis
    by (simp add: CompleteAcknowledgment_def StoreClaimParts_def sample_batchFilings Let_def sampleClaim_def
        del: settleOutcomes.simps)
      (simp add: claimedDb_def del: settleOutcomes.simps)
qed

theorem acknowledgment_settles_witness:
  "\<exists>d' b. CompleteAcknowledgment 5 5 sampleClaim [sampleOutcome] (claimedDb BSubmitted (Some ''r-1'') (Some ''tok'')) = (d', Inr ())
     \<and> b \<in> set (db_batches d') \<and> b_state b = BAcknowledged"
proof -
  obtain d' where ok: "CompleteAcknowledgment 5 5 sampleClaim [sampleOutcome]
      (claimedDb BSubmitted (Some ''r-1'') (Some ''tok'')) = (d', Inr ())"
    using sampleOutcome_completes by blast
  have "schema_ok (claimedDb BSubmitted (Some ''r-1'') (Some ''tok''))"
    by (rule claimedDb_ok) (simp_all add: receiptStates_def)
  from acknowledgment_settles [OF this ok] ok show ?thesis by auto
qed

theorem filing_evolution_witness:
  "\<exists>f' \<in> set (db_filings (storeRun [OpEvent 5 5 sampleClaim (EvCompleteAcknowledgment [sampleOutcome])]
      (claimedDb BSubmitted (Some ''r-1'') (Some ''tok'')))).
      decided f' = decided sampleFiling \<and> filing_next\<^sup>*\<^sup>* FBatched (f_state f')"
  using filing_evolution [of "sampleFiling\<lparr>f_state := FBatched\<rparr>" "claimedDb BSubmitted (Some ''r-1'') (Some ''tok'')"
      "[OpEvent 5 5 sampleClaim (EvCompleteAcknowledgment [sampleOutcome])]"]
  by (auto simp: claimedDb_def decided_def simp del: storeRun_simps)

end
