(* ===== verification/Tenants.thy ===== *)
theory Tenants
  imports Store_Settlement
begin

text \<open>
  Tenant isolation: every operation belongs to one firm, and the rows of all other firms, in
  every table, are the same before and after it.
\<close>

section \<open>What belongs to a firm\<close>

definition firmRows :: "('r \<Rightarrow> string) \<Rightarrow> string \<Rightarrow> 'r list \<Rightarrow> 'r list" where
  "firmRows key firm rows = filter (\<lambda>r. key r = firm) rows"

lemma firmRows_append [simp]: "firmRows key firm (xs @ ys) = firmRows key firm xs @ firmRows key firm ys"
  by (simp add: firmRows_def)

lemma firmRows_foreign: "\<forall>r \<in> set rows. key r \<noteq> firm \<Longrightarrow> firmRows key firm rows = []"
  by (simp add: firmRows_def filter_empty_conv)

lemma firmRows_update:
  assumes "\<And>r. r \<in> set rows \<Longrightarrow> p r \<Longrightarrow> key r \<noteq> firm \<and> key (u r) \<noteq> firm"
  shows "firmRows key firm (map (\<lambda>r. if p r then u r else r) rows) = firmRows key firm rows"
  using assms by (induction rows) (auto simp: firmRows_def)

lemma firmRows_insertNew:
  "key x \<noteq> firm \<Longrightarrow> firmRows key firm (insertNew x xs) = firmRows key firm xs"
  by (auto simp: firmRows_def insertNew_def)

lemma firmRows_fold_insertNew:
  "\<forall>x \<in> set new. key x \<noteq> firm \<Longrightarrow> firmRows key firm (fold insertNew new xs) = firmRows key firm xs"
  by (induction new arbitrary: xs) (auto simp: firmRows_insertNew)

record firm_view =
  fv_clients :: "(string \<times> string) list"
  fv_datasets :: "dataset_row list"
  fv_payments :: "payment_row list"
  fv_determinations :: "determination_row list"
  fv_filings :: "filing_row list"
  fv_batches :: "batch_row list"
  fv_links :: "batch_filing_row list"
  fv_gates :: "gate_row list"
  fv_calls :: "call_row list"

definition firmView :: "string \<Rightarrow> db \<Rightarrow> firm_view" where
  "firmView firm d =
     \<lparr>fv_clients = firmRows fst firm (db_clients d), fv_datasets = firmRows d_firm firm (db_datasets d),
      fv_payments = firmRows p_firm firm (db_payments d),
      fv_determinations = firmRows dt_firm firm (db_determinations d),
      fv_filings = firmRows f_firm firm (db_filings d), fv_batches = firmRows b_firm firm (db_batches d),
      fv_links = firmRows bf_firm firm (db_batch_filings d), fv_gates = firmRows g_firm firm (db_gates d),
      fv_calls = firmRows l_firm firm (db_calls d)\<rparr>"

fun opFirm :: "store_op \<Rightarrow> string" where
  "opFirm (OpImport cmd src) = imp_FirmID cmd"
| "opFirm (OpDetermine cmd) = det_FirmID cmd"
| "opFirm (OpPlan now cmd) = plan_FirmID cmd"
| "opFirm (OpClaim now locked entropy cmd) = clm_FirmID cmd"
| "opFirm (OpEvent t1 t2 c ev) = c_firmID c"
| "opFirm (OpOpenGate cmd) = acq_FirmID cmd"
| "opFirm (OpStartCall t1 t2 cmd) = acq_FirmID cmd"
| "opFirm (OpFinish t1 t2 res permit) = cp_firmID permit"

section \<open>Operation by operation\<close>

lemma import_foreign:
  assumes "imp_FirmID cmd \<noteq> firm"
  shows "firmView firm (fst (ImportDataset cmd src d)) = firmView firm d"
proof -
  have "fst (ImportDataset cmd src d) = d
      \<or> (\<exists>year hash rows i. storeDataset (imp_FirmID cmd) year hash rows d = Inr (fst (ImportDataset cmd src d), i))"
    by (auto simp: ImportDataset_def Let_def split: option.splits if_splits sum.splits list.splits)
  moreover have "firmView firm d' = firmView firm d"
    if "storeDataset (imp_FirmID cmd) year hash rows d = Inr (d', i)" for year hash rows i d'
    using that
  proof (rule storeDataset_Inr)
    fix row :: dataset_row
    assume row: "row = \<lparr>d_id = i, d_firm = imp_FirmID cmd, d_tax_year = year, d_hash = hash,
        d_row_count = int (length rows)\<rparr>"
      and d': "d' = d\<lparr>db_firms := insertNew (imp_FirmID cmd) (db_firms d), db_datasets := db_datasets d @ [row],
            db_clients := fold insertNew (map (\<lambda>r. (imp_FirmID cmd, pr_ClientID r)) rows) (db_clients d),
            db_payments := db_payments d @ map (paymentRowOf i (imp_FirmID cmd)) rows\<rparr>"
    show "firmView firm d' = firmView firm d"
      using assms by (simp add: d' row firmView_def firmRows_fold_insertNew firmRows_foreign paymentRowOf_def)
  qed
  ultimately show ?thesis by metis
qed

lemma determine_foreign:
  assumes "det_FirmID cmd \<noteq> firm"
  shows "firmView firm (fst (DetermineDataset cmd d)) = firmView firm d"
proof -
  have new: "\<forall>f \<in> set (numberFilings n (prepared (det_FirmID cmd) i y ps)). f_firm f \<noteq> firm" for n i y ps
    using assms by (subst numberFilings_ball) (auto simp: prepared_def preparedFiling_def Let_def)
  obtain d' res where e: "DetermineDataset cmd d = (d', res)" by (cases "DetermineDataset cmd d") auto
  show ?thesis
  proof (cases "\<exists>r. res = Inr r \<and> \<not> dr_Existing r")
    case True
    then obtain r where r: "res = Inr r" "\<not> dr_Existing r" by blast
    with e have "DetermineDataset cmd d = (d', Inr r)" by simp
    from this r(2) obtain ds :: dataset_row and row fresh where
      fresh: "fresh = prepared (det_FirmID cmd) (dr_DeterminationID r) (d_tax_year ds)
               (classified (det_DatasetID cmd) (det_FirmID cmd) d)"
      and row: "row = \<lparr>dt_id = dr_DeterminationID r, dt_dataset = det_DatasetID cmd,
              dt_firm = det_FirmID cmd, dt_ruleset = det_RulesetVersion cmd\<rparr>"
      and d': "d' = d\<lparr>db_determinations := db_determinations d @ [row],
              db_filings := db_filings d @ numberFilings (nextId (map f_id (db_filings d))) fresh\<rparr>"
      by (rule DetermineDataset_fresh)
    show ?thesis using e assms new by (simp add: d' row fresh firmView_def firmRows_foreign)
  next
    case False
    with e DetermineDataset_unchanged show ?thesis by auto
  qed
qed

lemma plan_foreign:
  assumes "plan_FirmID cmd \<noteq> firm"
  shows "firmView firm (fst (PlanBatches now cmd d)) = firmView firm d"
proof (cases "PlanBatches now cmd d")
  case (Pair d' r)
  show ?thesis
  proof (cases r)
    case (Inl e)
    with Pair show ?thesis by (auto dest: PlanBatches_Inl)
  next
    case (Inr res)
    with Pair have "PlanBatches now cmd d = (d', Inr res)" by simp
    then show ?thesis
    proof (cases rule: PlanBatches_Inr)
      case (planned groups base rows links)
      have "\<forall>b \<in> set rows. b_firm b \<noteq> firm"
        using assms by (auto simp: planned(4) groupRow_def plannedRow_def)
      moreover have "\<forall>x \<in> set links. bf_firm x \<noteq> firm"
        using assms by (auto simp: planned(5) groupLinkRows_def)
      ultimately have "firmView firm d' = firmView firm d"
        using assms unfolding planned(10) firmView_def
        by (auto simp: firmRows_foreign intro!: firmRows_update)
      with Pair show ?thesis by simp
    qed (use Pair in simp)
  qed
qed

lemma updateBatches_foreign:
  assumes "updateBatches p u d = Inr (d', n)"
    and "\<And>r. r \<in> set (db_batches d) \<Longrightarrow> p r \<Longrightarrow> b_firm r \<noteq> firm \<and> b_firm (u r) \<noteq> firm"
  shows "firmView firm d' = firmView firm d"
  using updateBatches_Inr(1) [OF assms(1)] assms(2)
  by (auto simp: firmView_def intro!: firmRows_update)

lemma claim_foreign:
  assumes "schema_ok d" and "clm_FirmID cmd \<noteq> firm"
  shows "firmView firm (fst (ClaimNextBatch now locked entropy cmd d)) = firmView firm d"
proof (cases "ClaimNextBatch now locked entropy cmd d")
  case (Pair d' r)
  have dist: "distinct (map b_id (db_batches d))" using assms(1) by (simp add: schema_ok_def batch_table_ok_def)
  have own: "b_firm x \<noteq> firm"
    if "b \<in> set (db_batches d)" "claimDue now (clm_FirmID cmd) locked b" "x \<in> set (db_batches d)" "b_id x = b_id b"
    for b x
    using unique_row [OF dist that(3,1,4)] that(2) assms(2) by (auto simp: claimDue_def)
  from Pair have "firmView firm d' = firmView firm d"
  proof (cases rule: ClaimNextBatch_cases)
    case (claimed b token action)
    show ?thesis by (rule updateBatches_foreign [OF claimed(4)]) (use own [OF claimed(1,2)] in auto)
  next
    case (mismatch b token d1 n)
    have "firmView firm d' = firmView firm d1"
      by (rule updateBatches_foreign [OF mismatch(4)]) (use assms(2) in auto)
    also have "\<dots> = firmView firm d"
      by (rule updateBatches_foreign [OF mismatch(3)]) (use own [OF mismatch(1,2)] in auto)
    finally show ?thesis .
  qed simp
  with Pair show ?thesis by simp
qed

lemma settleOutcomes_foreign:
  assumes "settleOutcomes t firmID expected seen outcomes fs = Inr fs'" and "firmID \<noteq> firm"
  shows "firmRows f_firm firm fs' = firmRows f_firm firm fs"
  using assms(1)
proof (induction outcomes arbitrary: seen fs)
  case (Cons outcome rest)
  from Cons.prems obtain i fs1 where u: "sql_update filing_update_ok filing_row_ok filing_table_ok
        (\<lambda>f. f_id f = i \<and> f_firm f = firmID \<and> f_state f = FBatched) (outcomeRow t outcome) fs = Inr (fs1, 1)"
    and rest: "settleOutcomes t firmID expected (FilingKey outcome # seen) rest fs1 = Inr fs'"
    by (rule settleOutcomes_step)
  have "firmRows f_firm firm fs1 = firmRows f_firm firm fs"
    unfolding sql_update_Inr(1) [OF u] by (rule firmRows_update) (use assms(2) in \<open>auto simp: outcomeRow_def\<close>)
  with Cons.IH [OF rest] show ?case by simp
qed simp

lemma event_foreign:
  assumes "c_firmID c \<noteq> firm"
  shows "firmView firm (fst (applyEvent t1 t2 c ev d)) = firmView firm d"
proof (cases "applyEvent t1 t2 c ev d")
  case (Pair d' r)
  show ?thesis
  proof (cases r)
    case (Inl e)
    with Pair show ?thesis by (auto dest: applyEvent_Inl)
  next
    case (Inr u)
    with Pair have ok: "applyEvent t1 t2 c ev d = (d', Inr ())" by simp
    then obtain d1 where d1: "d1 = d\<lparr>db_filings := db_filings d'\<rparr>"
      and u: "updateBatches (claimRowOf t1 c (eventStates ev)) (eventUpdate t1 ev) d1 = Inr (d', 1)"
      by (rule applyEvent_Inr)
    have "firmRows f_firm firm (db_filings d') = firmRows f_firm firm (db_filings d)"
      using applyEvent_filings [OF ok] settleOutcomes_foreign [OF _ assms] by auto
    then have "firmView firm d1 = firmView firm d" by (simp add: d1 firmView_def)
    moreover have "firmView firm d' = firmView firm d1"
      by (rule updateBatches_foreign [OF u]) (use assms in \<open>auto simp: claimRowOf_def claimedBy_def\<close>)
    ultimately show ?thesis using Pair by simp
  qed
qed

lemma gate_foreign:
  "acq_FirmID cmd \<noteq> firm \<Longrightarrow> firmView firm (fst (openGate cmd d)) = firmView firm d"
  "acq_FirmID cmd \<noteq> firm \<Longrightarrow> firmView firm (fst (startCall t1 t2 cmd d)) = firmView firm d"
  by (auto simp: openGate_def ensureGate_def startCall_def updateGates_def Let_def firmView_def
      firmRows_foreign firmRows_update callRow_def split: if_splits sum.splits list.splits)

lemma finish_foreign:
  assumes "cp_firmID permit \<noteq> firm"
  shows "firmView firm (fst (snd (Finish t1 t2 res permit d))) = firmView firm d"
  using assms
  by (auto simp: Finish_def updateGates_def firmView_def finishedCall_def finishedGate_def
      intro!: firmRows_update dest!: sql_update_Inr(1) split: if_splits sum.splits)

lemma storeStep_foreign:
  assumes "schema_ok d" and "opFirm op \<noteq> firm"
  shows "firmView firm (storeStep op d) = firmView firm d"
  using assms
  by (cases op) (simp_all add: import_foreign determine_foreign plan_foreign claim_foreign event_foreign
      gate_foreign finish_foreign)

text \<open>C30. Tenants are isolated: whatever operations of other firms run, every row of a firm (its
  clients, datasets, payments, determinations, filings, batches, links, gate and call log) is
  exactly as it was.\<close>

theorem tenant_isolation:
  assumes "schema_ok d" and "\<forall>op \<in> set ops. opFirm op \<noteq> firm"
  shows "firmView firm (storeRun ops d) = firmView firm d"
  using assms
proof (induction ops arbitrary: d)
  case (Cons op ops)
  then have "firmView firm (storeRun ops (storeStep op d)) = firmView firm (storeStep op d)"
    using storeStep_schema by simp
  with Cons.prems show ?case by (simp add: storeStep_foreign)
qed simp

theorem tenant_isolation_witness:
  "firmView ''globex'' (storeRun [OpEvent 5 5 sampleClaim sampleAccepted, OpPlan 0 \<lparr>plan_FirmID = ''acme'', plan_DeterminationID = 1\<rparr>]
     (claimedDb BSubmitting None (Some ''tok''))) = firmView ''globex'' (claimedDb BSubmitting None (Some ''tok''))"
  by (rule tenant_isolation [OF claimedDb_ok]) (simp_all add: sampleClaim_def)

end
