(* ===== verification/Xml_Reader.thy ===== *)
theory Xml_Reader
  imports Xml
begin

text \<open>
  The reading side of \<open>encoding/xml\<close> as the IRS stub and the IRS client use it: the strict
  tokenizer behind \<open>Decoder.Token\<close> (tags, attributes, character data with entities and
  CDATA, comments, processing instructions, directives, matching of end tags), and the tree
  \<open>xml.Unmarshal\<close> walks. A syntax error is \<open>None\<close>; its message is not modelled. Element and
  attribute names must be ASCII here; Go also reads Unicode names, which no element set of
  the program contains.
\<close>

section \<open>Characters and names\<close>

definition xmlSpace :: "char \<Rightarrow> bool" where
  "xmlSpace c \<longleftrightarrow> byte_val c \<in> {9, 10, 13, 32}"

definition skipSpace :: "string \<Rightarrow> string" where
  "skipSpace s = dropWhile xmlSpace s"

definition isLetter :: "char \<Rightarrow> bool" where
  "isLetter c \<longleftrightarrow> (65 \<le> byte_val c \<and> byte_val c \<le> 90) \<or> (97 \<le> byte_val c \<and> byte_val c \<le> 122)"

definition isNameByte :: "char \<Rightarrow> bool" where
  "isNameByte c \<longleftrightarrow> isLetter c \<or> is_digit c \<or> byte_val c \<in> {95, 58, 46, 45}"

definition isName :: "string \<Rightarrow> bool" where
  "isName n \<longleftrightarrow> (case n of [] \<Rightarrow> False | c # _ \<Rightarrow> (isLetter c \<or> byte_val c = 95 \<or> byte_val c = 58) \<and> list_all isNameByte n)"

text \<open>A name and the rest; a byte above 127 right after it would belong to the name.\<close>

definition readName :: "string \<Rightarrow> (string \<times> string) option" where
  "readName s =
     (let n = takeWhile isNameByte s; rest = dropWhile isNameByte s
      in if \<not> isName n \<or> (\<exists>c \<in> set (take 1 rest). 128 \<le> byte_val c) then None else Some (n, rest))"

text \<open>\<open>nsname\<close>: at most one colon; a prefix and a local part, or no prefix.\<close>

definition colon :: char where "colon = CHR '':''"

definition splitName :: "string \<Rightarrow> string \<times> string" where
  "splitName n =
     (let space = takeWhile (\<lambda>c. c \<noteq> colon) n; rest = dropWhile (\<lambda>c. c \<noteq> colon) n
      in if rest = [] \<or> space = [] \<or> tl rest = [] then ([], n) else (space, tl rest))"

definition nsname :: "string \<Rightarrow> (string \<times> string) option" where
  "nsname s =
     (case readName s of
        None \<Rightarrow> None
      | Some (n, rest) \<Rightarrow> if 1 < count_list n colon then None else Some (n, rest))"

section \<open>Character data\<close>

text \<open>\<open>string(rune(n))\<close>\<close>

definition encodeRune :: "nat \<Rightarrow> string" where
  "encodeRune n =
     (if n < 128 then [char_of n]
      else if n < 2048 then [char_of (192 + n div 64), char_of (128 + n mod 64)]
      else if (55296 \<le> n \<and> n \<le> 57343) \<or> 1114111 < n
      then [char_of (239::nat), char_of (191::nat), char_of (189::nat)]
      else if n < 65536
      then [char_of (224 + n div 4096), char_of (128 + n div 64 mod 64), char_of (128 + n mod 64)]
      else [char_of (240 + n div 262144), char_of (128 + n div 4096 mod 64),
            char_of (128 + n div 64 mod 64), char_of (128 + n mod 64)])"

definition hexVal :: "char \<Rightarrow> nat" where
  "hexVal c = (if is_digit c then digit_val c else if byte_val c < 97 then byte_val c - 55 else byte_val c - 87)"

definition isHexDigit :: "char \<Rightarrow> bool" where
  "isHexDigit c \<longleftrightarrow> is_digit c \<or> (65 \<le> byte_val c \<and> byte_val c \<le> 70) \<or> (97 \<le> byte_val c \<and> byte_val c \<le> 102)"

text \<open>The number of a character reference, up to its semicolon.\<close>

definition numericEntity :: "nat \<Rightarrow> (char \<Rightarrow> bool) \<Rightarrow> string \<Rightarrow> (string \<times> string) option" where
  "numericEntity base isDig s =
     (let ds = takeWhile isDig s; rest = dropWhile isDig s; n = foldl (\<lambda>a c. base * a + hexVal c) 0 ds
      in if ds = [] \<or> take 1 rest \<noteq> '';'' \<or> 1114111 < n then None else Some (encodeRune n, tl rest))"

definition namedEntities :: "(string \<times> string) list" where
  "namedEntities = [(''lt'', ''<''), (''gt'', ''>''), (''amp'', ''&''), (''apos'', [char_of (39::nat)]),
     (''quot'', [char_of (34::nat)])]"

text \<open>What follows an ampersand: its text and the rest.\<close>

definition entityText :: "string \<Rightarrow> (string \<times> string) option" where
  "entityText s =
     (if take 2 s = ''#x'' then numericEntity 16 isHexDigit (drop 2 s)
      else if take 1 s = ''#'' then numericEntity 10 is_digit (drop 1 s)
      else let n = takeWhile isNameByte s; rest = dropWhile isNameByte s
           in if take 1 rest \<noteq> '';'' then None
              else map_option (\<lambda>t. (t, tl rest)) (map_of namedEntities n))"

text \<open>Disallowed characters are found after the text is read.\<close>

fun validChars :: "string \<Rightarrow> bool" where
  "validChars [] = True"
| "validChars (c # s) =
     (let rw = decodeRune (map byte_val (take 4 (c # s)))
      in \<not> (fst rw = RuneError \<and> snd rw = 1) \<and> isInCharacterRange (fst rw) \<and> validChars (drop (snd rw - 1) s))"

lemma entityText_shorter: "entityText s = Some (t, rest) \<Longrightarrow> length rest < length s"
proof -
  have drop: "length (tl (dropWhile p x)) < length x" if "take 1 (dropWhile p x) = '';''" for p and x :: string
    using that length_dropWhile_le [of p x] by (cases "dropWhile p x") auto
  have num: "length rest < length x" if "numericEntity base isDig x = Some (t, rest)" for base isDig x
    using that drop [of isDig x] by (auto simp: numericEntity_def Let_def split: if_splits)
  assume "entityText s = Some (t, rest)"
  then show ?thesis
    using drop [of isNameByte s] num by (fastforce simp: entityText_def Let_def split: if_splits)
qed

text \<open>
  \<open>Decoder.text\<close>: up to \<open><\<close> in an element, up to the quote in an attribute, up to \<open>]]>\<close> in a
  CDATA section. \<open>b0\<close> and \<open>b1\<close> are the two bytes read last (0 after an entity).
\<close>

datatype text_end = InElement | InQuote char | InCData

function lexText :: "text_end \<Rightarrow> nat \<Rightarrow> nat \<Rightarrow> string \<Rightarrow> (string \<times> string) option" where
  "lexText m b0 b1 [] = (if m = InCData then None else Some ([], []))"
| "lexText m b0 b1 (c # s) =
     (let b = byte_val c in
      if (m = InElement \<or> m = InCData) \<and> b0 = 93 \<and> b1 = 93 \<and> b = 62
      then (if m = InCData then Some ([], s) else None)
      else if b = 60 \<and> m \<noteq> InCData then (if m = InElement then Some ([], c # s) else None)
      else if m = InQuote c then Some ([], s)
      else if b = 38 \<and> m \<noteq> InCData
      then (case entityText s of
              None \<Rightarrow> None
            | Some (t, rest) \<Rightarrow> map_option (\<lambda>(d, r). (t @ d, r)) (lexText m 0 0 rest))
      else map_option (\<lambda>(d, r).
             ((if b = 13 then [char_of (10::nat)] else if b1 = 13 \<and> b = 10 then [] else [c]) @ d, r))
             (lexText m b1 b s))"
  by pat_completeness auto
termination
  by (relation "measure (\<lambda>(m, b0, b1, s). length s)") (auto dest: entityText_shorter)

declare lexText.simps [simp del]

text \<open>In a CDATA section the two brackets before the end are part of what was read.\<close>

definition readText :: "text_end \<Rightarrow> string \<Rightarrow> (string \<times> string) option" where
  "readText m s =
     (case lexText m 0 0 s of
        None \<Rightarrow> None
      | Some (d, rest) \<Rightarrow>
          let text = (if m = InCData then take (length d - 2) d else d)
          in if validChars text then Some (text, rest) else None)"

section \<open>Tokens\<close>

text \<open>A start tag keeps its name space, its local name and how many attributes it has.\<close>

datatype xml_token = StartElement string string nat | EndElement string string | Characters string | OtherToken

text \<open>\<open>attrs\<close>: the attributes and the end of a start tag. The result is the number of
  attributes, whether the tag was self-closing, and the rest.\<close>

lemma skipSpace_le: "length (skipSpace s) \<le> length s"
  by (simp add: skipSpace_def length_dropWhile_le)

lemma readName_shorter: "readName s = Some (n, rest) \<Longrightarrow> length rest < length s"
proof -
  assume "readName s = Some (n, rest)"
  then have n: "n = takeWhile isNameByte s" "rest = dropWhile isNameByte s" "n \<noteq> []"
    by (auto simp: readName_def Let_def isName_def split: if_splits)
  have "length s = length n + length rest" unfolding n(1,2) by (metis length_append takeWhile_dropWhile_id)
  with n(3) show ?thesis by simp
qed

lemma nsname_shorter: "nsname s = Some (n, rest) \<Longrightarrow> length rest < length s"
  by (auto simp: nsname_def split: option.splits if_splits dest: readName_shorter)

lemma lexText_le: "lexText m b0 b1 s = Some (d, rest) \<Longrightarrow> length rest \<le> length s"
proof (induction m b0 b1 s arbitrary: d rest rule: lexText.induct)
  case (1 m b0 b1)
  then show ?case by (simp add: lexText.simps split: if_splits)
next
  case (2 m b0 b1 c s)
  let ?b = "byte_val c"
  show ?case
  proof (cases "(m = InElement \<or> m = InCData) \<and> b0 = 93 \<and> b1 = 93 \<and> ?b = 62 \<or> ?b = 60 \<and> m \<noteq> InCData \<or> m = InQuote c")
    case True
    with "2.prems" show ?thesis by (auto simp: lexText.simps Let_def split: if_splits)
  next
    case plain: False
    show ?thesis
    proof (cases "?b = 38 \<and> m \<noteq> InCData")
      case True
      with plain "2.prems" obtain t r1 d1 where "entityText s = Some (t, r1)" "lexText m 0 0 r1 = Some (d1, rest)"
        by (auto simp: lexText.simps Let_def split: if_splits option.splits)
      with "2.IH"(1) [OF refl _ _ _ True] plain entityText_shorter [of s t r1] show ?thesis by fastforce
    next
      case False
      with plain "2.prems" obtain d1 where "lexText m b1 ?b s = Some (d1, rest)"
        by (auto simp: lexText.simps Let_def split: if_splits)
      with "2.IH"(2) [OF refl _ _ _ False] plain show ?thesis by fastforce
    qed
  qed
qed

lemma readText_le: "readText m s = Some (d, rest) \<Longrightarrow> length rest \<le> length s"
  by (auto simp: readText_def Let_def split: option.splits if_splits dest: lexText_le)

text \<open>One attribute, \<open>name = "value"\<close>: what comes after it.\<close>

definition lexAttr :: "string \<Rightarrow> string option" where
  "lexAttr s =
     (case nsname s of
        None \<Rightarrow> None
      | Some (n, r1) \<Rightarrow>
          (case skipSpace r1 of
             [] \<Rightarrow> None
           | e # r2 \<Rightarrow>
               if e \<noteq> CHR ''='' then None
               else (case skipSpace r2 of
                       [] \<Rightarrow> None
                     | q # r3 \<Rightarrow>
                         if byte_val q \<noteq> 34 \<and> byte_val q \<noteq> 39 then None
                         else map_option snd (readText (InQuote q) r3))))"

lemma lexAttr_shorter: "lexAttr s = Some rest \<Longrightarrow> length rest < length s"
proof -
  assume "lexAttr s = Some rest"
  then obtain n r1 e r2 q r3 d where steps: "nsname s = Some (n, r1)" "skipSpace r1 = e # r2" "skipSpace r2 = q # r3"
    "readText (InQuote q) r3 = Some (d, rest)"
    by (auto simp: lexAttr_def split: option.splits list.splits if_splits)
  have "length rest \<le> length r3" by (rule readText_le [OF steps(4)])
  also have "\<dots> < length (skipSpace r2)" by (simp add: steps(3))
  also have "\<dots> \<le> length r2" by (rule skipSpace_le)
  also have "\<dots> < length (skipSpace r1)" by (simp add: steps(2))
  also have "\<dots> \<le> length r1" by (rule skipSpace_le)
  also have "\<dots> < length s" by (rule nsname_shorter [OF steps(1)])
  finally show ?thesis .
qed

function lexAttrs :: "nat \<Rightarrow> string \<Rightarrow> (nat \<times> bool \<times> string) option" where
  "lexAttrs k s =
     (case skipSpace s of
        [] \<Rightarrow> None
      | c # rest \<Rightarrow>
          if c = CHR ''/'' then (if take 1 rest = ''>'' then Some (k, True, tl rest) else None)
          else if c = CHR ''>'' then Some (k, False, rest)
          else (case lexAttr (c # rest) of None \<Rightarrow> None | Some r \<Rightarrow> lexAttrs (k + 1) r))"
  by pat_completeness auto
termination
proof (relation "measure (\<lambda>(k, s). length s)")
  fix k :: nat and s rest r :: string and c :: char
  assume "skipSpace s = c # rest" "lexAttr (c # rest) = Some r"
  with lexAttr_shorter [of "c # rest" r] skipSpace_le [of s] show "((k + 1, r), (k, s)) \<in> measure (\<lambda>(k, s). length s)"
    by simp
qed simp

declare lexAttrs.simps [simp del]

text \<open>\<open>procInst\<close>: the quoted value after \<open>param=\<close> in a processing instruction, or nothing.\<close>

function procInst :: "string \<Rightarrow> string \<Rightarrow> string" where
  "procInst param s =
     (if s = [] then []
      else if hasPrefix s (param @ ''='')
      then (case drop (Suc (length param)) s of
              [] \<Rightarrow> []
            | c # r \<Rightarrow>
                if byte_val c = 34 \<or> byte_val c = 39
                then (if c \<in> set r then takeWhile (\<lambda>x. x \<noteq> c) r else [])
                else procInst param r)
      else procInst param (tl s))"
  by pat_completeness auto
termination
proof (relation "measure (\<lambda>(p, s). length s)")
  fix param s r :: string and c :: char
  assume "drop (Suc (length param)) s = c # r"
  then have "length (drop (Suc (length param)) s) = Suc (length r)" by simp
  then show "((param, r), param, s) \<in> measure (\<lambda>(p, s). length s)" by simp
qed (auto simp: neq_Nil_conv)

declare procInst.simps [simp del]

fun untilPIEnd :: "string \<Rightarrow> (string \<times> string) option" where
  "untilPIEnd (a # b # r) =
     (if a = CHR ''?'' \<and> b = CHR ''>'' then Some ([], r)
      else map_option (\<lambda>(d, rest). (a # d, rest)) (untilPIEnd (b # r)))"
| "untilPIEnd _ = None"

text \<open>An XML declaration must be version 1.0 and UTF-8 (no charset reader is set).\<close>

definition lowerASCIIText :: "string \<Rightarrow> string" where
  "lowerASCIIText = map (\<lambda>c. if 65 \<le> byte_val c \<and> byte_val c \<le> 90 then char_of (byte_val c + 32) else c)"

definition declarationOK :: "string \<Rightarrow> bool" where
  "declarationOK content \<longleftrightarrow>
     procInst ''version'' content \<in> {'''', ''1.0''}
     \<and> (procInst ''encoding'' content = '''' \<or> lowerASCIIText (procInst ''encoding'' content) = ''utf-8'')"

definition lexInstruction :: "string \<Rightarrow> string option" where
  "lexInstruction s =
     (case readName s of
        None \<Rightarrow> None
      | Some (target, r) \<Rightarrow>
          (case untilPIEnd (skipSpace r) of
             None \<Rightarrow> None
           | Some (content, rest) \<Rightarrow> if target = ''xml'' \<and> \<not> declarationOK content then None else Some rest))"

text \<open>The body of a comment may not contain two hyphens; in a directive quotes and nested
  angle brackets are balanced and embedded comments skipped.\<close>

fun skipComment :: "string \<Rightarrow> string option" where
  "skipComment (a # b # c # r) =
     (if a = CHR ''-'' \<and> b = CHR ''-'' then (if c = CHR ''>'' then Some r else None)
      else skipComment (b # c # r))"
| "skipComment _ = None"

fun untilCommentEnd :: "string \<Rightarrow> string option" where
  "untilCommentEnd (a # b # c # r) =
     (if a = CHR ''-'' \<and> b = CHR ''-'' \<and> c = CHR ''>'' then Some r else untilCommentEnd (b # c # r))"
| "untilCommentEnd _ = None"

lemma untilPIEnd_shorter: "untilPIEnd s = Some (d, rest) \<Longrightarrow> length rest < length s"
  by (induction s arbitrary: d rule: untilPIEnd.induct) (fastforce split: if_splits)+

lemma skipComment_shorter: "skipComment s = Some rest \<Longrightarrow> length rest < length s"
  by (induction s rule: skipComment.induct) (auto split: if_splits)

lemma untilCommentEnd_shorter: "untilCommentEnd s = Some rest \<Longrightarrow> length rest < length s"
  by (induction s rule: untilCommentEnd.induct) (auto split: if_splits)

function skipDirective :: "nat \<Rightarrow> nat \<Rightarrow> string \<Rightarrow> string option" where
  "skipDirective q depth [] = None"
| "skipDirective q depth (c # s) =
     (let b = byte_val c in
      if q \<noteq> 0 then skipDirective (if b = q then 0 else q) depth s
      else if b = 62 then (if depth = 0 then Some s else skipDirective 0 (depth - 1) s)
      else if b = 34 \<or> b = 39 then skipDirective b depth s
      else if b = 60
      then (if hasPrefix s ''!--''
            then (case untilCommentEnd (drop 3 s) of None \<Rightarrow> None | Some r \<Rightarrow> skipDirective 0 depth r)
            else skipDirective 0 (Suc depth) s)
      else skipDirective 0 depth s)"
  by pat_completeness auto
termination
  by (relation "measure (\<lambda>(q, d, s). length s)") (auto dest!: untilCommentEnd_shorter)

lemma skipDirective_shorter: "skipDirective q depth s = Some rest \<Longrightarrow> length rest < length s"
proof (induction "length s" arbitrary: q depth s rule: less_induct)
  case less
  show ?case
  proof (cases s)
    case (Cons c t)
    have IH: "length rest < length u" if "length u \<le> length t" "skipDirective q' depth' u = Some rest" for q' depth' u
      using less.hyps [OF _ that(2)] that(1) Cons by simp
    show ?thesis
    proof (cases "q = 0 \<and> byte_val c = 60 \<and> hasPrefix t ''!--''")
      case True
      with less.prems Cons obtain r where r: "untilCommentEnd (drop 3 t) = Some r" "skipDirective 0 depth r = Some rest"
        by (auto simp: Let_def split: option.splits)
      from untilCommentEnd_shorter [OF r(1)] have "length r \<le> length t" by simp
      with IH [OF this r(2)] Cons show ?thesis by simp
    next
      case False
      with less.prems Cons have "rest = t \<or> (\<exists>q' depth'. skipDirective q' depth' t = Some rest)"
        by (auto simp: Let_def split: if_splits)
      with IH [of t] Cons show ?thesis by (auto intro: less_SucI)
    qed
  qed (use less.prems in simp)
qed

declare skipDirective.simps [simp del]

text \<open>The tokens of one markup construct, after its \<open><\<close>.\<close>

definition lexMarkup :: "string \<Rightarrow> (xml_token list \<times> string) option" where
  "lexMarkup s =
     (case s of
        [] \<Rightarrow> None
      | c # r \<Rightarrow>
          if c = CHR ''/''
          then (case nsname r of
                  None \<Rightarrow> None
                | Some (n, r1) \<Rightarrow>
                    if take 1 (skipSpace r1) \<noteq> ''>'' then None
                    else Some ([EndElement (fst (splitName n)) (snd (splitName n))], tl (skipSpace r1)))
          else if c = CHR ''?'' then map_option (Pair [OtherToken]) (lexInstruction r)
          else if c = CHR ''!''
          then (if take 1 r = ''-''
                then (if take 2 r = ''--'' then map_option (Pair [OtherToken]) (skipComment (drop 2 r)) else None)
                else if take 1 r = ''[''
                then (if take 7 r = ''[CDATA[''
                      then map_option (\<lambda>(t, rest). ([Characters t], rest)) (readText InCData (drop 7 r)) else None)
                else map_option (Pair [OtherToken]) (skipDirective 0 0 (tl r)))
          else (case nsname s of
                  None \<Rightarrow> None
                | Some (n, r1) \<Rightarrow>
                    (case lexAttrs 0 r1 of
                       None \<Rightarrow> None
                     | Some (k, selfClosing, rest) \<Rightarrow>
                         Some (StartElement (fst (splitName n)) (snd (splitName n)) k
                               # (if selfClosing then [EndElement (fst (splitName n)) (snd (splitName n))] else []),
                               rest))))"

lemma skipped_le: "length (tl (skipSpace s)) \<le> length s"
  using skipSpace_le [of s] by simp

lemma lexAttrs_le: "lexAttrs k s = Some (k', b, rest) \<Longrightarrow> length rest \<le> length s"
proof (induction k s arbitrary: k' b rest rule: lexAttrs.induct)
  case (1 k s)
  show ?case
  proof (cases "skipSpace s")
    case (Cons c r)
    have le: "length r < length s" using skipSpace_le [of s] Cons by simp
    show ?thesis
    proof (cases "c = CHR ''/'' \<or> c = CHR ''>''")
      case True
      with "1.prems" Cons le show ?thesis by (subst (asm) lexAttrs.simps) (auto split: if_splits)
    next
      case False
      with "1.prems" Cons obtain x where x: "lexAttr (c # r) = Some x" "lexAttrs (k + 1) x = Some (k', b, rest)"
        by (subst (asm) lexAttrs.simps) (auto split: option.splits)
      with "1.IH" [OF Cons _ _ x(1)] False lexAttr_shorter [OF x(1)] le show ?thesis by fastforce
    qed
  qed (use "1.prems" in \<open>subst (asm) lexAttrs.simps, simp\<close>)
qed

lemma lexInstruction_le: "lexInstruction s = Some rest \<Longrightarrow> length rest \<le> length s"
proof -
  assume "lexInstruction s = Some rest"
  then obtain n r d where "readName s = Some (n, r)" "untilPIEnd (skipSpace r) = Some (d, rest)"
    by (auto simp: lexInstruction_def split: option.splits if_splits)
  with readName_shorter skipSpace_le [of r] untilPIEnd_shorter show ?thesis by fastforce
qed

lemma lexMarkup_le: "lexMarkup s = Some (ts, rest) \<Longrightarrow> length rest \<le> length s"
proof (cases s)
  case (Cons c r)
  assume e: "lexMarkup s = Some (ts, rest)"
  consider "c = CHR ''/''" | "c = CHR ''?''" | "c = CHR ''!''"
    | "c \<noteq> CHR ''/''" "c \<noteq> CHR ''?''" "c \<noteq> CHR ''!''" by blast
  then show ?thesis
  proof cases
    case 1
    with e Cons obtain n r1 where n: "nsname r = Some (n, r1)" "rest = tl (skipSpace r1)"
      by (auto simp: lexMarkup_def split: option.splits if_splits)
    with nsname_shorter [OF n(1)] skipped_le [of r1] Cons show ?thesis by simp
  next
    case 2
    with e Cons show ?thesis by (auto simp: lexMarkup_def dest!: lexInstruction_le)
  next
    case 3
    with e Cons show ?thesis
      by (auto simp: lexMarkup_def dest!: skipComment_shorter readText_le skipDirective_shorter split: if_splits)
  next
    case 4
    with e Cons obtain n r1 k b where "nsname s = Some (n, r1)" "lexAttrs 0 r1 = Some (k, b, rest)"
      by (auto simp: lexMarkup_def split: option.splits)
    with nsname_shorter lexAttrs_le show ?thesis by fastforce
  qed
qed (simp add: lexMarkup_def)

text \<open>Text that does not start with \<open><\<close> makes progress.\<close>

lemma readText_progress:
  assumes "readText InElement (c # s) = Some (d, rest)" and "c \<noteq> CHR ''<''"
  shows "length rest < length (c # s)"
proof -
  from assms(2) have "byte_val c \<noteq> 60" using byte_val_inject [of c "CHR ''<''"] by simp
  with assms(1) show ?thesis
    by (auto simp: readText_def lexText.simps Let_def split: if_splits option.splits
        dest!: lexText_le entityText_shorter)
qed

function lexAll :: "string \<Rightarrow> xml_token list option" where
  "lexAll [] = Some []"
| "lexAll (c # s) =
     (if c = CHR ''<''
      then (case lexMarkup s of
              None \<Rightarrow> None
            | Some (ts, rest) \<Rightarrow> map_option (\<lambda>us. ts @ us) (lexAll rest))
      else (case readText InElement (c # s) of
              None \<Rightarrow> None
            | Some (t, rest) \<Rightarrow> map_option (\<lambda>us. Characters t # us) (lexAll rest)))"
  by pat_completeness auto
termination
proof (relation "measure length")
  fix c :: char and s rest :: string and x :: "xml_token list \<times> string" and ts
  assume "lexMarkup s = Some x" "(ts, rest) = x"
  with lexMarkup_le show "(rest, c # s) \<in> measure length" by fastforce
next
  fix c :: char and s rest t :: string and x :: "string \<times> string"
  assume "c \<noteq> CHR ''<''" "readText InElement (c # s) = Some x" "(t, rest) = x"
  with readText_progress show "(rest, c # s) \<in> measure length" by fastforce
qed simp

declare lexAll.simps [simp del]

text \<open>End tags match the innermost open element, and none is left open.\<close>

fun wellNested :: "(string \<times> string) list \<Rightarrow> xml_token list \<Rightarrow> bool" where
  "wellNested st [] = (st = [])"
| "wellNested st (StartElement sp n k # ts) = wellNested ((sp, n) # st) ts"
| "wellNested [] (EndElement sp n # ts) = False"
| "wellNested (x # st) (EndElement sp n # ts) = (x = (sp, n) \<and> wellNested st ts)"
| "wellNested st (Characters t # ts) = wellNested st ts"
| "wellNested st (OtherToken # ts) = wellNested st ts"

text \<open>All tokens of a document up to \<open>io.EOF\<close>.\<close>

definition decoderTokens :: "bytes \<Rightarrow> xml_token list option" where
  "decoderTokens payload =
     (case lexAll payload of None \<Rightarrow> None | Some ts \<Rightarrow> if wellNested [] ts then Some ts else None)"

section \<open>Trees\<close>

fun buildForest :: "(string \<times> xml_node list) list \<Rightarrow> xml_node list \<Rightarrow> xml_token list \<Rightarrow> xml_node list" where
  "buildForest st acc [] = rev acc"
| "buildForest st acc (StartElement sp n k # ts) = buildForest ((n, acc) # st) [] ts"
| "buildForest [] acc (EndElement sp m # ts) = rev acc"
| "buildForest ((n, outer) # st) acc (EndElement sp m # ts) = buildForest st (Element n (rev acc) # outer) ts"
| "buildForest st acc (Characters t # ts) = buildForest st (CharData t # acc) ts"
| "buildForest st acc (OtherToken # ts) = buildForest st acc ts"

text \<open>The element \<open>xml.Unmarshal\<close> decodes: the first of the document.\<close>

definition rootElement :: "xml_token list \<Rightarrow> (string \<times> xml_node list) option" where
  "rootElement ts =
     (case concat (map (\<lambda>x. case x of Element n cs \<Rightarrow> [(n, cs)] | CharData _ \<Rightarrow> []) (buildForest [] [] ts)) of
        [] \<Rightarrow> None
      | r # _ \<Rightarrow> Some r)"

text \<open>An \<open>int\<close> field: \<open>strconv.ParseInt\<close> of the trimmed text; empty text is 0; every occurrence
  must parse and the last one counts.\<close>

definition parseInt64 :: "string \<Rightarrow> int option" where
  "parseInt64 s =
     (let neg = (take 1 s = ''-''); ds = (if neg \<or> take 1 s = ''+'' then drop 1 s else s);
          n = (if neg then - int (nat_of_dec ds) else int (nat_of_dec ds))
      in if ds = [] \<or> \<not> list_all is_digit ds \<or> \<not> int64 n then None else Some n)"

definition intOf :: "string \<Rightarrow> int option" where
  "intOf s = (if s = [] then Some 0 else parseInt64 (trimSpace s))"

definition intField :: "string \<Rightarrow> xml_node list \<Rightarrow> int option" where
  "intField n cs =
     (let vs = map (\<lambda>gs. intOf (charDataOf gs)) (childrenNamed n cs)
      in if None \<in> set vs then None else if vs = [] then Some 0 else last vs)"

end
