(* ===== verification/Irs_Server.thy ===== *)
theory Irs_Server
  imports Irs_Store Xml_Reader
begin

text \<open>
  The HTTP side of the IRS stub, \<open>irs/internal/stub/server.go\<close>: element checking, decoding of
  transmissions and status requests, money, and the two handlers. A request is what
  \<open>net/http\<close>, \<open>mime\<close> and \<open>mime/multipart\<close> make of the wire (header values, the parsed media
  type, the parts of a form); a response is its status and body. Error messages that quote
  library errors or input are given by the argument \<open>describe\<close>; logging is left out.
\<close>

section \<open>Element checking\<close>

datatype request_error =
    InvalidXML
  | NamespacesUnsupported
  | UnknownElement string
  | WrongRoot string
  | DataOutsideRoot
  | IncompleteXML
  | InvalidTransmissionXML
  | NotOneManifestAndSubmission
  | NotOneHeader
  | MissingIdentity
  | NotOriginal2025NEC
  | BadUTID
  | BadRecordCount
  | MissingRecordFields
  | DuplicateRecordID
  | BadCompensation string
  | BadWithholding string
  | InvalidStatusXML
  | MissingSearch
  | NotMultipart
  | InvalidMultipart
  | MissingPart
  | NotFilePart
  | WrongPartType
  | UnreadablePart
  | EmptyPart
  | ExtraPart

fun checkTokens :: "string \<Rightarrow> string list \<Rightarrow> int \<Rightarrow> bool \<Rightarrow> xml_token list \<Rightarrow> request_error option" where
  "checkTokens rootName allowed depth rootSeen [] =
     (if \<not> rootSeen \<or> depth \<noteq> 0 then Some IncompleteXML else None)"
| "checkTokens rootName allowed depth rootSeen (StartElement sp n k # ts) =
     (if sp \<noteq> [] \<or> k \<noteq> 0 then Some NamespacesUnsupported
      else if n \<notin> set allowed then Some (UnknownElement n)
      else if depth = 0 \<and> (rootSeen \<or> n \<noteq> rootName) then Some (WrongRoot rootName)
      else checkTokens rootName allowed (depth + 1) (rootSeen \<or> depth = 0) ts)"
| "checkTokens rootName allowed depth rootSeen (EndElement sp n # ts) = checkTokens rootName allowed (depth - 1) rootSeen ts"
| "checkTokens rootName allowed depth rootSeen (Characters t # ts) =
     (if depth = 0 \<and> trimSpace t \<noteq> [] then Some DataOutsideRoot else checkTokens rootName allowed depth rootSeen ts)"
| "checkTokens rootName allowed depth rootSeen (OtherToken # ts) = checkTokens rootName allowed depth rootSeen ts"

text \<open>Both functions read the same bytes, so the tokens are read once; a syntax error is reported
  as such even where an earlier element would have been refused.\<close>

definition validateXMLElements :: "bytes \<Rightarrow> string \<Rightarrow> string list \<Rightarrow> request_error + (string \<times> xml_node list)" where
  "validateXMLElements payload rootName allowed =
     (case decoderTokens payload of
        None \<Rightarrow> Inl InvalidXML
      | Some ts \<Rightarrow>
          (case checkTokens rootName allowed 0 False ts of
             Some e \<Rightarrow> Inl e
           | None \<Rightarrow> (case rootElement ts of None \<Rightarrow> Inl IncompleteXML | Some r \<Rightarrow> Inr r)))"

definition intakeElements :: "string list" where
  "intakeElements = [''IRTransmission'', ''IRTransmissionManifest'', ''UniqueTransmissionId'',
     ''TransmitterControlCd'', ''TransmissionTypeCd'', ''TaxYr'', ''IRSubmission1Grp'', ''IRSubmission1Header'',
     ''SubmissionId'', ''ClientId'', ''FormTypeCd'', ''ReportedRcpntFormCnt'', ''Form1099NECDetail'', ''RecordId'',
     ''RecipientNm'', ''RecipientTIN'', ''NonemployeeCompensationAmt'', ''FederalIncomeTaxWithheldAmt'']"

definition statusElements :: "string list" where
  "statusElements = [''TransStatusOrAckRequest'', ''TransmitterControlCd'', ''SearchParameterTypeCd'', ''SearchParameterTxt'']"

section \<open>Decoding\<close>

text \<open>\<open>moneyPattern\<close>: an optional minus, digits, a point and two digits.\<close>

definition moneyMatches :: "string \<Rightarrow> bool" where
  "moneyMatches v =
     (let t = (if take 1 v = ''-'' then drop 1 v else v);
          whole = takeWhile is_digit t; rest = dropWhile is_digit t
      in whole \<noteq> [] \<and> take 1 rest = ''.'' \<and> length rest = 3 \<and> list_all is_digit (tl rest))"

definition parseCents :: "string \<Rightarrow> int option" where
  "parseCents v = (if \<not> moneyMatches v then None else parseInt64 (remove1 (CHR ''.'') v))"

text \<open>\<open>utidPattern\<close>: a UUID in hexadecimal, then \<open>:IRIS:\<close>, the transmitter and \<open>::A\<close>.\<close>

definition utidMatches :: "string \<Rightarrow> string \<Rightarrow> bool" where
  "utidMatches transmitter utid \<longleftrightarrow>
     length (take 36 utid) = 36
     \<and> list_all (\<lambda>(i, c). if i \<in> {8, 13, 18, 23} then c = CHR ''-'' else isHexDigit c) (enumerate 0 (take 36 utid))
     \<and> drop 36 utid = '':IRIS:'' @ transmitter @ ''::A''"

fun decodeRecords :: "string list \<Rightarrow> xml_node list list \<Rightarrow> request_error + filingRecord list" where
  "decodeRecords seen [] = Inr []"
| "decodeRecords seen (r # rs) =
     (let recordID = stringField ''RecordId'' r;
          compensation = stringField ''NonemployeeCompensationAmt'' r;
          withholding = stringField ''FederalIncomeTaxWithheldAmt'' r
      in if recordID = [] \<or> compensation = [] \<or> withholding = [] then Inl MissingRecordFields
         else if recordID \<in> set seen then Inl DuplicateRecordID
         else case parseCents compensation of
           None \<Rightarrow> Inl (BadCompensation recordID)
         | Some amount \<Rightarrow>
             (case parseCents withholding of
                None \<Rightarrow> Inl (BadWithholding recordID)
              | Some withheld \<Rightarrow>
                  map_sum id (\<lambda>xs. \<lparr>fr_recordID = recordID, fr_recipientName = stringField ''RecipientNm'' r,
                      fr_recipientTIN = stringField ''RecipientTIN'' r, fr_amountCents = amount,
                      fr_withholdingCents = withheld\<rparr> # xs)
                    (decodeRecords (recordID # seen) rs)))"

text \<open>\<open>xml.Unmarshal\<close> into \<open>transmissionXML\<close> fails only on a header count that is no integer.\<close>

definition headersOf :: "xml_node list \<Rightarrow> xml_node list list" where
  "headersOf submission = childrenNamed ''IRSubmission1Header'' submission"

definition countsReadable :: "xml_node list list \<Rightarrow> bool" where
  "countsReadable submissions \<longleftrightarrow>
     list_all (\<lambda>s. list_all (\<lambda>h. intField ''ReportedRcpntFormCnt'' h \<noteq> None) (headersOf s)) submissions"

definition decodeTransmission :: "bytes \<Rightarrow> request_error + transmission" where
  "decodeTransmission payload =
     (case validateXMLElements payload ''IRTransmission'' intakeElements of
        Inl e \<Rightarrow> Inl e
      | Inr (_, document) \<Rightarrow>
          let manifests = childrenNamed ''IRTransmissionManifest'' document;
              submissions = childrenNamed ''IRSubmission1Grp'' document
          in if \<not> countsReadable submissions then Inl InvalidTransmissionXML
             else case (manifests, submissions) of
               ([manifest], [submission]) \<Rightarrow>
                 (case headersOf submission of
                    [header] \<Rightarrow>
                      (let utid = stringField ''UniqueTransmissionId'' manifest;
                           transmitter = stringField ''TransmitterControlCd'' manifest;
                           taxYear = stringField ''TaxYr'' manifest;
                           submissionID = stringField ''SubmissionId'' header;
                           clientID = stringField ''ClientId'' header;
                           records = childrenNamed ''Form1099NECDetail'' submission
                       in if utid = [] \<or> transmitter = [] \<or> submissionID = [] \<or> clientID = []
                          then Inl MissingIdentity
                          else if stringField ''TransmissionTypeCd'' manifest \<noteq> ''O'' \<or> taxYear \<noteq> ''2025''
                                  \<or> stringField ''FormTypeCd'' header \<noteq> ''1099-NEC''
                          then Inl NotOriginal2025NEC
                          else if \<not> utidMatches transmitter utid then Inl BadUTID
                          else if length records < 1 \<or> 100 < length records
                                  \<or> intField ''ReportedRcpntFormCnt'' header \<noteq> Some (int (length records))
                          then Inl BadRecordCount
                          else map_sum id (\<lambda>rs. \<lparr>tx_firmID = transmitter, tx_clientID = clientID,
                                 tx_taxYear = taxYear, tx_utid = utid, tx_submissionID = submissionID,
                                 tx_records = rs\<rparr>) (decodeRecords [] records))
                  | _ \<Rightarrow> Inl NotOneHeader)
             | _ \<Rightarrow> Inl NotOneManifestAndSubmission)"

record status_search =
  ss_Transmitter :: string
  ss_Type :: string
  ss_Text :: string

definition decodeStatusRequest :: "bytes \<Rightarrow> request_error + status_search" where
  "decodeStatusRequest payload =
     (case validateXMLElements payload ''TransStatusOrAckRequest'' statusElements of
        Inl e \<Rightarrow> Inl e
      | Inr (_, request) \<Rightarrow>
          let search = \<lparr>ss_Transmitter = stringField ''TransmitterControlCd'' request,
                        ss_Type = stringField ''SearchParameterTypeCd'' request,
                        ss_Text = stringField ''SearchParameterTxt'' request\<rparr>
          in if ss_Transmitter search = [] \<or> ss_Text search = [] then Inl MissingSearch else Inr search)"

section \<open>Requests and responses\<close>

text \<open>One part of a multipart form; \<open>None\<close> as its payload is a read error.\<close>

record form_part =
  fp_FormName :: string
  fp_FileName :: string
  fp_MediaType :: string
  fp_Payload :: "bytes option"

text \<open>What the multipart reader finds: no valid multipart at all, or parts and then the end or an
  error (\<open>rq_PartsClean\<close>).\<close>

record http_request =
  rq_Authorization :: string
  rq_Accept :: string
  rq_MediaType :: string
  rq_Body :: "bytes option"
  rq_Multipart :: bool
  rq_Parts :: "form_part list"
  rq_PartsClean :: bool

record http_response =
  rs_Status :: int
  rs_MediaType :: string
  rs_Body :: bytes

definition readMultipartXML :: "http_request \<Rightarrow> request_error + bytes" where
  "readMultipartXML request =
     (if rq_MediaType request \<noteq> ''multipart/form-data'' then Inl NotMultipart
      else if \<not> rq_Multipart request then Inl InvalidMultipart
      else case rq_Parts request of
        [] \<Rightarrow> Inl MissingPart
      | part # extra \<Rightarrow>
          if fp_FormName part \<noteq> ''file'' \<or> fp_FileName part = [] then Inl NotFilePart
          else if fp_MediaType part \<notin> {''text/xml'', ''application/xml''} then Inl WrongPartType
          else (case fp_Payload part of
                  None \<Rightarrow> Inl UnreadablePart
                | Some payload \<Rightarrow>
                    if payload = [] then Inl EmptyPart
                    else if extra \<noteq> [] \<or> \<not> rq_PartsClean request then Inl ExtraPart
                    else Inr payload))"

definition writeXML :: "int \<Rightarrow> xml_node \<Rightarrow> http_response" where
  "writeXML code node = \<lparr>rs_Status = code, rs_MediaType = ''application/xml'', rs_Body = renderXML node\<rparr>"

definition errorNode :: "string \<Rightarrow> string \<Rightarrow> xml_node" where
  "errorNode code message = Element ''ErrorResponse'' [textElement ''ErrorCd'' code, textElement ''ErrorMessageTxt'' message]"

definition writeError :: "int \<Rightarrow> string \<Rightarrow> string \<Rightarrow> http_response" where
  "writeError status code message = writeXML status (errorNode code message)"

definition authorized :: "IrsConfig \<Rightarrow> http_request \<Rightarrow> bool" where
  "authorized config request \<longleftrightarrow> rq_Authorization request = ''Bearer '' @ ic_BearerToken config"

section \<open>Handlers\<close>

definition handleIntake ::
  "(request_error \<Rightarrow> string) \<Rightarrow> irs_env \<Rightarrow> http_request \<Rightarrow> irs_store \<Rightarrow> (irs_store \<times> http_response) option" where
  "handleIntake describe env request store =
     (if \<not> authorized (st_config store) request
      then Some (store, writeError 401 ''UNAUTHORIZED'' ''Bearer token is missing or invalid.'')
      else if rq_Accept request \<noteq> ''application/xml''
      then Some (store, writeError 415 ''UNSUPPORTED_MEDIA_TYPE'' ''Accept must be application/xml.'')
      else case readMultipartXML request of
        Inl e \<Rightarrow>
          Some (store, if e \<in> {NotMultipart, WrongPartType}
                       then writeError 415 ''UNSUPPORTED_MEDIA_TYPE'' (describe e)
                       else writeError 400 ''INVALID_REQUEST'' (describe e))
      | Inr payload \<Rightarrow>
          (case decodeTransmission payload of
             Inl e \<Rightarrow> Some (store, writeError 400 ''INVALID_REQUEST'' (describe e))
           | Inr input \<Rightarrow>
               map_option (map_prod id (\<lambda>r. case r of
                   Inl errDuplicateUTID \<Rightarrow> writeError 409 ''DUPLICATE_UTID''
                     ''The UTID is already recorded; retrieve it using the status operation.''
                 | Inl errDuplicateRecord \<Rightarrow> writeError 409 ''DUPLICATE_RECORD'' ''An original record is already recorded.''
                 | Inr (receiptID, fault) \<Rightarrow>
                     if fault = failBeforeRecord \<or> fault = failAfterRecord
                     then writeError 503 ''SERVICE_UNAVAILABLE'' ''IRIS is temporarily unavailable.''
                     else writeXML 200 (Element ''ReceiptId'' [CharData receiptID])))
                 (storeRecord env input store)))"

definition omitEmpty :: "string \<Rightarrow> string \<Rightarrow> xml_node list" where
  "omitEmpty n v = (if v = [] then [] else [textElement n v])"

definition resultNode :: "recordResult \<Rightarrow> xml_node" where
  "resultNode r = Element ''RecordResultGrp''
     ([textElement ''RecordId'' (rr_recordID r), textElement ''RecordStatusCd'' (rr_status r)]
      @ omitEmpty ''IRSRecordId'' (rr_irsRecordID r) @ omitEmpty ''ErrorReasonCd'' (rr_errorReason r))"

definition transmissionStatus :: "recordResult list \<Rightarrow> string" where
  "transmissionStatus results =
     (let accepted = length (filter (\<lambda>r. rr_status r = ''Accepted'') results)
      in if accepted = length results then ''Accepted''
         else if accepted = 0 then ''Rejected'' else ''PartiallyAccepted'')"

definition acknowledged_at :: "int \<Rightarrow> submission \<Rightarrow> bool" where
  "acknowledged_at now recorded \<longleftrightarrow> \<not> sub_neverAcknowledges recorded \<and> sub_availableAt recorded \<le> now"

definition statusNode :: "int \<Rightarrow> submission \<Rightarrow> xml_node" where
  "statusNode now recorded = Element ''TransStatusOrAckResponse''
     ([textElement ''ReceiptId'' (sub_receiptID recorded),
       textElement ''UniqueTransmissionId'' (sub_utid recorded),
       textElement ''TransmissionStatusCd''
         (if acknowledged_at now recorded then transmissionStatus (sub_results recorded) else ''Processing'')]
      @ (if acknowledged_at now recorded then map resultNode (sub_results recorded) else []))"

definition handleStatus ::
  "(request_error \<Rightarrow> string) \<Rightarrow> int \<Rightarrow> http_request \<Rightarrow> irs_store \<Rightarrow> http_response" where
  "handleStatus describe now request store =
     (if \<not> authorized (st_config store) request
      then writeError 401 ''UNAUTHORIZED'' ''Bearer token is missing or invalid.''
      else if rq_Accept request \<noteq> ''application/xml'' \<or> rq_MediaType request \<noteq> ''application/xml''
      then writeError 415 ''UNSUPPORTED_MEDIA_TYPE'' ''Content-Type and Accept must be application/xml.''
      else case rq_Body request of
        None \<Rightarrow> writeError 400 ''INVALID_REQUEST'' ''Unable to read XML request.''
      | Some payload \<Rightarrow>
          (case decodeStatusRequest payload of
             Inl e \<Rightarrow> writeError 400 ''INVALID_REQUEST'' (describe e)
           | Inr search \<Rightarrow>
               if ss_Type search \<notin> {''RECEIPTID'', ''UTID''}
               then writeError 400 ''INVALID_REQUEST'' ''SearchParameterTypeCd must be RECEIPTID or UTID.''
               else case (if ss_Type search = ''RECEIPTID''
                          then findByReceiptID (ss_Transmitter search) (ss_Text search) store
                          else findByUTID (ss_Transmitter search) (ss_Text search) store) of
                 None \<Rightarrow> writeError 404 ''NOT_FOUND'' ''The ReceiptId or UTID was not found.''
               | Some recorded \<Rightarrow> writeXML 200 (statusNode now recorded)))"

end
