(* ===== verification/Claims.thy ===== *)
theory Claims
  imports Store_Settlement
begin

text \<open>
  The work a claim hands out: the earliest due batch of the firm, with its verified payload,
  the action its state calls for and the receipt a poll needs; and while the lease runs nobody
  else gets the same batch.
\<close>

section \<open>Receipts\<close>

definition receiptRow_ok :: "batch_row \<Rightarrow> bool" where
  "receiptRow_ok b \<longleftrightarrow>
     (b_state b \<in> {BSubmitted, BAwaitingAck, BAcknowledged} \<longrightarrow> (\<exists>r. b_receipt b = Some r \<and> r \<noteq> ''''))"

definition receipts_ok :: "db \<Rightarrow> bool" where
  "receipts_ok d \<longleftrightarrow> (\<forall>b \<in> set (db_batches d). receiptRow_ok b)"

lemma receipts_update:
  assumes "receipts_ok d" and "updateBatches p u d = Inr (d', n)"
    and "\<And>b. receiptRow_ok b \<Longrightarrow> p b \<Longrightarrow> receiptRow_ok (u b)"
  shows "receipts_ok d'"
  using assms updateBatches_Inr(1) [OF assms(2)] by (auto simp: receipts_ok_def)

lemma claimRow_receipt: "receiptRow_ok b \<Longrightarrow> receiptRow_ok (claimRow now w l token b)"
  by (cases "b_state b") (auto simp: receiptRow_ok_def claimRow_def claimState_def)

lemma hashMismatchRow_receipt: "receiptRow_ok (hashMismatchRow b)"
  by (simp add: receiptRow_ok_def hashMismatchRow_def)

lemma eventUpdate_keeps_receipt:
  assumes "receiptRow_ok b" and "b_state b \<in> set (eventStates ev)" and "eventWellFormed ev"
  shows "receiptRow_ok (eventUpdate t1 ev b)"
  using assms
  by (cases ev) (auto simp: receiptRow_ok_def eventRow_def statusRetryRow_def acknowledgedRow_def terminalRow_def)

lemma storeStep_receipts:
  assumes "receipts_ok d"
  shows "receipts_ok (storeStep op d)"
proof (cases op)
  case (OpPlan now cmd)
  obtain new where "db_batches (fst (PlanBatches now cmd d)) = db_batches d @ new"
    "\<forall>b \<in> set new. b_state b = BPlanned \<and> b_token b = None \<and> b_receipt b = None \<and> b_firm b = plan_FirmID cmd"
    by (rule PlanBatches_batches)
  with assms OpPlan show ?thesis by (auto simp: receipts_ok_def receiptRow_ok_def)
next
  case (OpClaim now locked entropy cmd)
  obtain d' r where e: "ClaimNextBatch now locked entropy cmd d = (d', r)"
    by (cases "ClaimNextBatch now locked entropy cmd d") auto
  from e have "receipts_ok d'"
  proof (cases rule: ClaimNextBatch_cases)
    case (claimed b token action)
    show ?thesis by (rule receipts_update [OF assms claimed(4) claimRow_receipt])
  next
    case (mismatch b token d1 n)
    have "receipts_ok d1" by (rule receipts_update [OF assms mismatch(3) claimRow_receipt])
    then show ?thesis by (rule receipts_update [OF _ mismatch(4) hashMismatchRow_receipt])
  qed (use assms in simp)
  with OpClaim e show ?thesis by simp
next
  case (OpEvent t1 t2 c ev)
  obtain d' r where e: "applyEvent t1 t2 c ev d = (d', r)" by (cases "applyEvent t1 t2 c ev d") auto
  have "receipts_ok d'"
  proof (cases r)
    case (Inl err)
    with e assms show ?thesis by (auto dest: applyEvent_Inl)
  next
    case (Inr u)
    with e have "applyEvent t1 t2 c ev d = (d', Inr ())" by simp
    then obtain d1 where d1: "db_batches d1 = db_batches d"
      and u: "updateBatches (claimRowOf t1 c (eventStates ev)) (eventUpdate t1 ev) d1 = Inr (d', 1)"
      and wf: "eventWellFormed ev"
      by (rule applyEvent_Inr)
    from assms d1 have "receipts_ok d1" by (simp add: receipts_ok_def)
    then show ?thesis
      by (rule receipts_update [OF _ u]) (auto intro: eventUpdate_keeps_receipt wf simp: claimRowOf_def claimedBy_def)
  qed
  with OpEvent e show ?thesis by simp
qed (use assms in \<open>simp_all add: receipts_ok_def other_batches\<close>)

section \<open>What a claim hands out\<close>

definition actionFor :: "batch_state \<Rightarrow> string" where
  "actionFor st = (if st = BPlanned then ActionSubmit
     else if st \<in> {BSubmitting, BSubmitUnknown} then ActionLookupByUTID else ActionPollStatus)"

lemma claimAction_for:
  "claimAction (claimState st) = Inr action \<Longrightarrow> action = actionFor st \<and> st \<notin> {BAcknowledged, BInvariantFailed}"
  by (cases st) (auto simp: claimAction_def claimState_def actionFor_def)

lemma actionFor_poll: "actionFor st = ActionPollStatus \<Longrightarrow> st \<notin> {BPlanned, BSubmitting, BSubmitUnknown}"
  by (auto simp: actionFor_def ActionSubmit_def ActionLookupByUTID_def ActionPollStatus_def split: if_splits)

lemma claimed_holds:
  assumes "b \<in> set (db_batches d)"
    and "updateBatches (\<lambda>x. b_id x = b_id b) (claimRow now w l token) d = Inr (d', n)"
  shows "claimRow now w l token b \<in> set (db_batches d')"
  using updateBatches_Inr(1) [OF assms(2)] updated_in_map [of b "db_batches d" "\<lambda>x. b_id x = b_id b"] assms(1)
  by simp

lemma claim_receipt:
  assumes "receipts_ok d" and "ClaimNextBatch now locked entropy cmd d = (d', Inr (Some w))"
    and poll: "w_NextAction w = ActionPollStatus"
  shows "w_ReceiptID w \<noteq> ''''"
  using assms(2)
proof (cases rule: ClaimNextBatch_cases)
  case (claimed b token action)
  note action = claimAction_for [OF claimed(6)]
  have b: "receiptRow_ok b" using assms(1) claimed(1) by (simp add: receipts_ok_def)
  from poll claimed(7) action have "actionFor (b_state b) = ActionPollStatus" by (simp add: claimWork_def)
  from actionFor_poll [OF this] action have "b_state b \<in> {BSubmitted, BAwaitingAck}"
    by (cases "b_state b") auto
  with b obtain r where "b_receipt b = Some r" "r \<noteq> ''''" by (auto simp: receiptRow_ok_def)
  with claimed(7) show ?thesis by (simp add: claimWork_def coalesce_def claimRow_def)
qed auto

lemma claimed_begin:
  "ClaimNextBatch now locked entropy cmd d = (d', Inr (Some w)) \<Longrightarrow> beginFirm (clm_FirmID cmd) = Inr ()"
  by (auto simp: ClaimNextBatch_def Let_def split: if_splits option.splits sum.splits)

text \<open>C31. The work a claim hands out: it is the firm's due batch with the earliest next action,
  under a fresh claim; its payload matches the stored hash; a batch is submitted only when it
  was planned, looked up when an earlier submission was left in doubt, and polled afterwards,
  then always with a receipt.\<close>

theorem claim_work:
  assumes "receipts_ok d"
    and "ClaimNextBatch now locked entropy cmd (storeRun ops d) = (d', Inr (Some w))"
  shows "\<exists>b \<in> set (db_batches (storeRun ops d)).
      claimDue now (clm_FirmID cmd) locked b
      \<and> (\<forall>x \<in> set (db_batches (storeRun ops d)). claimDue now (clm_FirmID cmd) locked x
            \<longrightarrow> (b_next_action_at b, b_id b) \<le> (b_next_action_at x, b_id x))
      \<and> w_BatchID w = b_id b \<and> w_FirmID w = b_firm b \<and> w_UTID w = b_utid b
      \<and> w_CanonicalXML w = b_xml b \<and> w_PayloadSHA256 w = sha256 (b_xml b)
      \<and> w_NextAction w = actionFor (b_state b)
      \<and> (w_NextAction w = ActionPollStatus \<longrightarrow> w_ReceiptID w \<noteq> '''')
      \<and> newClaimToken entropy = Some (c_token (w_Claim w)) \<and> holdsClaim d' (w_Claim w)"
proof -
  have receipts: "receipts_ok (storeRun ops d)"
    by (rule storeRun_invariant [of receipts_ok, OF assms(1) storeStep_receipts])
  from assms(2) show ?thesis
  proof (cases rule: ClaimNextBatch_cases)
    case (claimed b token action)
    note action = claimAction_for [OF claimed(6)]
    have "w_NextAction w = ActionPollStatus \<longrightarrow> w_ReceiptID w \<noteq> ''''"
      using claim_receipt [OF receipts assms(2)] by blast
    moreover have "holdsClaim d' (w_Claim w)"
      unfolding holdsClaim_def
      by (rule bexI [OF _ claimed_holds [OF claimed(1,4)]])
        (use claimed(2,7) in \<open>auto simp: claimWork_def NewStoreClaim_def claimRow_def claimDue_def\<close>)
    ultimately show ?thesis
      using claimed action claimCandidate_Some [OF claimed(8)]
      by (intro bexI [of _ b]) (auto simp: claimWork_def claimRow_def NewStoreClaim_def)
  qed auto
qed

section \<open>The lease excludes others\<close>

text \<open>The batch of claim \<open>c\<close> is leased until \<open>e\<close>.\<close>

definition leased :: "Claim \<Rightarrow> int \<Rightarrow> db \<Rightarrow> bool" where
  "leased c e d \<longleftrightarrow> (\<exists>b \<in> set (db_batches d). b_id b = c_batchID c \<and> b_firm b = c_firmID c
     \<and> b_token b = Some (c_token c) \<and> b_lease_expires b = Some e)"

text \<open>An operation that leaves the claim to its owner: it claims before the lease ends, or records
  an event under another claim.\<close>

fun leavesClaim :: "Claim \<Rightarrow> int \<Rightarrow> store_op \<Rightarrow> bool" where
  "leavesClaim c e (OpClaim now locked entropy cmd) = (now < e)"
| "leavesClaim c e (OpEvent t1 t2 c' ev) = (c' \<noteq> c)"
| "leavesClaim c e _ = True"

lemma leased_update:
  assumes "leased c e d" and "updateBatches p u d = Inr (d', n)"
    and "\<And>b. b \<in> set (db_batches d) \<Longrightarrow> b_id b = c_batchID c \<Longrightarrow> b_firm b = c_firmID c
      \<Longrightarrow> b_token b = Some (c_token c) \<Longrightarrow> b_lease_expires b = Some e \<Longrightarrow> \<not> p b"
  shows "leased c e d'"
proof -
  from assms(1) obtain b where b: "b \<in> set (db_batches d)" "b_id b = c_batchID c" "b_firm b = c_firmID c"
    "b_token b = Some (c_token c)" "b_lease_expires b = Some e"
    by (auto simp: leased_def)
  with assms(3) have "\<not> p b" by blast
  with b(1) have "b \<in> set (db_batches d')" unfolding updateBatches_Inr(1) [OF assms(2)] by force
  with b show ?thesis by (auto simp: leased_def)
qed

lemma leased_not_due:
  assumes "b_lease_expires b = Some e" and "now < e"
  shows "\<not> claimDue now firm locked b"
  using assms by (auto simp: claimDue_def)

lemma leased_claim:
  assumes "schema_ok d" and "leased c e d" and "now < e"
  shows "leased c e (fst (ClaimNextBatch now locked entropy cmd d))"
proof (cases "ClaimNextBatch now locked entropy cmd d")
  case (Pair d' r)
  have dist: "distinct (map b_id (db_batches d))" using assms(1) by (simp add: schema_ok_def batch_table_ok_def)
  have apart: "b_id x \<noteq> b_id b"
    if "b \<in> set (db_batches d)" "claimDue now (clm_FirmID cmd) locked b" "x \<in> set (db_batches d)"
      "b_lease_expires x = Some e" for b x
    using unique_row [OF dist that(3,1)] that(2,4) leased_not_due [OF _ assms(3)] by metis
  from Pair have "leased c e d'"
  proof (cases rule: ClaimNextBatch_cases)
    case (claimed b token action)
    show ?thesis by (rule leased_update [OF assms(2) claimed(4)]) (use apart [OF claimed(1,2)] in blast)
  next
    case (mismatch b token d1 n)
    have "leased c e d1" by (rule leased_update [OF assms(2) mismatch(3)]) (use apart [OF mismatch(1,2)] in blast)
    moreover have "b_id x \<noteq> b_id b" if x: "x \<in> set (db_batches d1)" "b_id x = c_batchID c" for x
    proof -
      from assms(2) obtain y where y: "y \<in> set (db_batches d)" "b_id y = c_batchID c" "b_lease_expires y = Some e"
        by (auto simp: leased_def)
      with apart [OF mismatch(1,2) y(1)] x(2) show ?thesis by simp
    qed
    ultimately show ?thesis by (intro leased_update [OF _ mismatch(4)]) auto
  qed (use assms in simp)
  with Pair show ?thesis by simp
qed

lemma leased_event:
  assumes "leased c e d" and "c' \<noteq> c"
  shows "leased c e (fst (applyEvent t1 t2 c' ev d))"
proof (cases "applyEvent t1 t2 c' ev d")
  case (Pair d' r)
  show ?thesis
  proof (cases r)
    case (Inl err)
    with Pair assms(1) show ?thesis by (auto dest: applyEvent_Inl)
  next
    case (Inr u)
    with Pair have "applyEvent t1 t2 c' ev d = (d', Inr ())" by simp
    then obtain d1 where d1: "db_batches d1 = db_batches d"
      and u: "updateBatches (claimRowOf t1 c' (eventStates ev)) (eventUpdate t1 ev) d1 = Inr (d', 1)"
      by (rule applyEvent_Inr)
    from assms(1) d1 have "leased c e d1" by (simp add: leased_def)
    then have "leased c e d'"
      by (rule leased_update [OF _ u]) (use assms(2) in \<open>auto simp: claimRowOf_def claimedBy_def\<close>)
    with Pair show ?thesis by simp
  qed
qed

lemma leased_step:
  assumes "schema_ok d" and "leased c e d" and "leavesClaim c e op"
  shows "leased c e (storeStep op d)"
proof (cases op)
  case (OpPlan now cmd)
  obtain new where "db_batches (fst (PlanBatches now cmd d)) = db_batches d @ new"
    "\<forall>b \<in> set new. b_state b = BPlanned \<and> b_token b = None \<and> b_receipt b = None \<and> b_firm b = plan_FirmID cmd"
    by (rule PlanBatches_batches)
  with assms(2) OpPlan show ?thesis by (auto simp: leased_def)
next
  case (OpClaim now locked entropy cmd)
  with assms leased_claim show ?thesis by simp
next
  case (OpEvent t1 t2 c' ev)
  with assms leased_event show ?thesis by simp
qed (use assms in \<open>simp_all add: leased_def other_batches\<close>)

lemma leased_run:
  "schema_ok d \<Longrightarrow> leased c e d \<Longrightarrow> \<forall>op \<in> set ops. leavesClaim c e op \<Longrightarrow> leased c e (storeRun ops d)"
  by (induction ops arbitrary: d) (simp_all add: leased_step storeStep_schema)

lemma claimed_leased:
  assumes "ClaimNextBatch now locked entropy cmd d = (d', Inr (Some w))"
  shows "leased (w_Claim w) (now + Microseconds (clm_LeaseDuration cmd)) d' \<and> w_BatchID w = c_batchID (w_Claim w)"
  using assms
proof (cases rule: ClaimNextBatch_cases)
  case (claimed b token action)
  let ?b = "claimRow now (clm_WorkerID cmd) (Microseconds (clm_LeaseDuration cmd)) token b"
  have "?b \<in> set (db_batches d')" by (rule claimed_holds [OF claimed(1,4)])
  with claimed(2,7) show ?thesis
    unfolding leased_def
    by (intro conjI bexI [of _ ?b]) (auto simp: claimWork_def NewStoreClaim_def claimRow_def claimDue_def)
qed auto

text \<open>C32. The lease excludes others: until it ends, no other claim, by any worker, however the other
  operations interleave, hands out the same batch, unless the owner has recorded an outcome.\<close>

theorem lease_excludes:
  assumes "schema_ok d" and "ClaimNextBatch now locked entropy cmd d = (d1, Inr (Some w))"
    and "\<forall>op \<in> set ops. leavesClaim (w_Claim w) (now + Microseconds (clm_LeaseDuration cmd)) op"
    and "ClaimNextBatch now' locked' entropy' cmd' (storeRun ops d1) = (d2, Inr (Some w'))"
    and "now' < now + Microseconds (clm_LeaseDuration cmd)"
  shows "w_BatchID w' \<noteq> w_BatchID w"
proof
  assume same: "w_BatchID w' = w_BatchID w"
  let ?e = "now + Microseconds (clm_LeaseDuration cmd)" and ?d = "storeRun ops d1"
  have schema: "schema_ok d1" by (rule ClaimNextBatch_schema [OF assms(1,2)])
  have "schema_ok ?d" by (rule storeRun_invariant [of schema_ok, OF schema storeStep_schema])
  then have dist: "distinct (map b_id (db_batches ?d))" by (simp add: schema_ok_def batch_table_ok_def)
  note mine = claimed_leased [OF assms(2)]
  with leased_run [OF schema _ assms(3)] obtain b where
    b: "b \<in> set (db_batches ?d)" "b_id b = c_batchID (w_Claim w)" "b_lease_expires b = Some ?e"
    by (auto simp: leased_def)
  from assms(4) show False
  proof (cases rule: ClaimNextBatch_cases)
    case (claimed x token action)
    with same mine b(2) have "b_id x = b_id b" by (simp add: claimWork_def claimRow_def)
    with unique_row [OF dist claimed(1) b(1)] claimed(2) leased_not_due [OF b(3) assms(5)] show False by metis
  qed auto
qed

section \<open>Witnesses\<close>

definition sampleClaimCmd :: ClaimBatchCommand where
  "sampleClaimCmd = \<lparr>clm_FirmID = ''acme'', clm_WorkerID = ''w'', clm_LeaseDuration = 1000000\<rparr>"

lemma sampleToken: "newClaimToken (Some ''t'') = Some ''74''"
  by code_simp

lemma sample_claims:
  "ClaimNextBatch 5 [] (Some ''t'') sampleClaimCmd (claimedDb BPlanned None None)
   = (claimedDb BPlanned None None\<lparr>db_batches :=
        [claimRow 5 ''w'' 1000 ''74'' (sampleBatch BPlanned None None)]\<rparr>,
      Inr (Some (claimWork ActionSubmit ''acme'' ''74'' (claimRow 5 ''w'' 1000 ''74'' (sampleBatch BPlanned None None)))))"
  by (simp add: ClaimNextBatch_def sampleClaimCmd_def sampleToken claimCandidate_def claimDue_def
      updateBatches_def sql_update_def claimRow_def claimState_def claimAction_def
      Microseconds_def go_div_def duration_defs Let_def sample_defs schema_defs)

lemma sample_receipts: "receipts_ok (claimedDb BPlanned None None)"
  by (simp add: receipts_ok_def receiptRow_ok_def sample_defs)

theorem claim_work_witness:
  "\<exists>d' w. ClaimNextBatch 5 [] (Some ''t'') sampleClaimCmd (claimedDb BPlanned None None) = (d', Inr (Some w))
     \<and> holdsClaim d' (w_Claim w) \<and> w_PayloadSHA256 w = sha256 ''x''"
proof -
  have c: "ClaimNextBatch 5 [] (Some ''t'') sampleClaimCmd (storeRun [] (claimedDb BPlanned None None))
      = (claimedDb BPlanned None None\<lparr>db_batches :=
        [claimRow 5 ''w'' 1000 ''74'' (sampleBatch BPlanned None None)]\<rparr>,
      Inr (Some (claimWork ActionSubmit ''acme'' ''74'' (claimRow 5 ''w'' 1000 ''74'' (sampleBatch BPlanned None None)))))"
    by (simp only: storeRun_simps sample_claims)
  from claim_work [OF sample_receipts c] sample_claims show ?thesis
    by (auto simp: claimedDb_def sampleBatch_def)
qed

theorem lease_excludes_witness:
  "\<exists>d1 w. ClaimNextBatch 5 [] (Some ''t'') sampleClaimCmd (claimedDb BPlanned None None) = (d1, Inr (Some w))
     \<and> (\<forall>d2 w'. ClaimNextBatch 6 [] (Some ''u'') sampleClaimCmd (storeRun [OpPlan 5 \<lparr>plan_FirmID = ''acme'', plan_DeterminationID = 1\<rparr>] d1)
           = (d2, Inr (Some w')) \<longrightarrow> w_BatchID w' \<noteq> w_BatchID w)"
proof -
  have ok: "schema_ok (claimedDb BPlanned None None)" by (rule claimedDb_ok) simp_all
  have now: "(6::int) < 5 + Microseconds (clm_LeaseDuration sampleClaimCmd)"
    by (simp add: sampleClaimCmd_def Microseconds_def go_div_def duration_defs)
  have quiet: "\<forall>op \<in> set [OpPlan 5 \<lparr>plan_FirmID = ''acme'', plan_DeterminationID = 1\<rparr>]. leavesClaim c e op" for c e
    by simp
  show ?thesis
    using sample_claims lease_excludes [OF ok sample_claims quiet _ now] by blast
qed

end
