(* ===== verification/Worker.thy ===== *)
theory Worker
  imports Claims
begin

text \<open>
  The filing worker of \<open>service/internal/filing/worker.go\<close>: the backoff, the decision a reply
  of the IRS leads to (\<open>submitPlan\<close>, \<open>statusPlan\<close>: how the permit is finished and which event is
  recorded), and one round of work. The IRS client is an argument (\<open>irs_client\<close>, a pair of
  functions on a state of its own), the clock readings of a round are the record \<open>round_env\<close>.
  The test hook \<open>afterIRSCall\<close> changes no state and is left out.
\<close>

section \<open>What the IRS client returns\<close>

text \<open>A failed call: the reply broke the protocol (\<open>*irsclient.ProtocolError\<close>), or there was none.\<close>

datatype call_error = ProtocolFailure | TransportFailure

record SubmitResult =
  sr_StatusCode :: int
  sr_ErrorCode :: string
  sr_ReceiptID :: string

record StatusResult =
  st_StatusCode :: int
  st_ErrorCode :: string
  st_ReceiptID :: string
  st_UTID :: string
  st_Status :: string
  st_Outcomes :: "FilingOutcome list"

definition SearchUTID :: string where [simp]: "SearchUTID = ''UTID''"
definition SearchReceiptID :: string where [simp]: "SearchReceiptID = ''RECEIPTID''"

record 'i irs_client =
  Submit :: "bytes \<Rightarrow> 'i \<Rightarrow> 'i \<times> (call_error + SubmitResult)"
  Status :: "string \<Rightarrow> string \<Rightarrow> string \<Rightarrow> 'i \<Rightarrow> 'i \<times> (call_error + StatusResult)"

section \<open>Backoff\<close>

record Backoff =
  Initial :: int
  Maximum :: int
  MaxAttempts :: int
  Jitter :: "(int \<Rightarrow> int) option"

text \<open>The doubling loop; the counter is the number of steps left.\<close>

fun doubled :: "nat \<Rightarrow> int \<Rightarrow> int \<Rightarrow> int" where
  "doubled 0 maximum delay = delay"
| "doubled (Suc n) maximum delay =
     (if delay < maximum
      then if go_div maximum 2 < delay then maximum else doubled n maximum (wrap64 (delay * 2))
      else delay)"

definition initialDelay :: "Backoff \<Rightarrow> int" where
  "initialDelay backoff = (if Initial backoff \<le> 0 then second else Initial backoff)"

definition maximumDelay :: "Backoff \<Rightarrow> int" where
  "maximumDelay backoff = (if Maximum backoff \<le> 0 then 5 * minute else Maximum backoff)"

definition Delay :: "Backoff \<Rightarrow> int \<Rightarrow> int \<times> bool" where
  "Delay backoff attempt0 =
     (let attempt = (if attempt0 \<le> 0 then 1 else attempt0)
      in if 0 < MaxAttempts backoff \<and> MaxAttempts backoff \<le> attempt then (0, False)
         else
           (let maximum = maximumDelay backoff;
                grown = doubled (nat (attempt - 1)) maximum (initialDelay backoff);
                capped = (if maximum < grown then maximum else grown);
                jittered = (case Jitter backoff of None \<Rightarrow> capped | Some j \<Rightarrow> wrap64 (capped + j capped));
                delay = (if jittered < 0 \<or> maximum < jittered then maximum else jittered)
            in (delay, True)))"

definition pollDelay :: "Backoff \<Rightarrow> int \<Rightarrow> int" where
  "pollDelay backoff attempt = (case Delay backoff attempt of (delay, retry) \<Rightarrow> if retry then delay else Maximum backoff)"

definition failureOr :: "string \<Rightarrow> string \<Rightarrow> string" where
  "failureOr code fallback = (if code = '''' then fallback else code)"

section \<open>Decisions\<close>

definition retrySubmit :: "Backoff \<Rightarrow> BatchWork \<Rightarrow> string \<Rightarrow> lifecycle_event" where
  "retrySubmit backoff work code =
     (case Delay backoff (w_AttemptCount work) of (delay, retry) \<Rightarrow>
        if \<not> retry then EvRetryExhausted (failureOr code ''SUBMIT_RETRY_EXHAUSTED'')
        else EvSubmitUnknown \<lparr>rs_Delay = delay, rs_FailureCode = failureOr code ''SUBMIT_UNKNOWN''\<rparr>)"

definition retryStatus :: "Backoff \<Rightarrow> BatchWork \<Rightarrow> string \<Rightarrow> lifecycle_event" where
  "retryStatus backoff work code =
     (case Delay backoff (w_AttemptCount work) of (delay, retry) \<Rightarrow>
        if \<not> retry then EvRetryExhausted (failureOr code ''STATUS_RETRY_EXHAUSTED'')
        else EvStatusUnavailable \<lparr>rs_Delay = delay, rs_FailureCode = failureOr code ''STATUS_UNAVAILABLE''\<rparr>)"

definition callResult :: "string \<Rightarrow> int \<Rightarrow> string \<Rightarrow> CallResult" where
  "callResult outcome status code = \<lparr>cr_Outcome = outcome, cr_HTTPStatus = status, cr_ErrorCode = code\<rparr>"

text \<open>How the permit is finished and the event recorded after it.\<close>

definition submitPlan ::
  "Backoff \<Rightarrow> BatchWork \<Rightarrow> call_error + SubmitResult \<Rightarrow> CallResult \<times> lifecycle_event" where
  "submitPlan backoff work reply =
     (case reply of
        Inl ProtocolFailure \<Rightarrow>
          (callResult CallTerminalError 0 ''MALFORMED_RESPONSE'', EvFailInvariant ''MALFORMED_RESPONSE'')
      | Inl TransportFailure \<Rightarrow>
          (callResult CallAmbiguous 0 ''TRANSPORT_ERROR'', retrySubmit backoff work ''TRANSPORT_ERROR'')
      | Inr r \<Rightarrow>
          let finish = (\<lambda>outcome. callResult outcome (sr_StatusCode r) (sr_ErrorCode r)) in
          if sr_StatusCode r = 200 \<and> sr_ReceiptID r \<noteq> ''''
          then (finish CallCompleted,
                EvSubmitAccepted \<lparr>sa_ReceiptID = sr_ReceiptID r, sa_PollDelay = pollDelay backoff (w_AttemptCount work)\<rparr>)
          else if sr_StatusCode r = 409 \<and> sr_ErrorCode r = ''DUPLICATE_UTID''
          then (finish CallCompleted, retrySubmit backoff work (sr_ErrorCode r))
          else if sr_StatusCode r = 429 \<or> 500 \<le> sr_StatusCode r
          then (finish CallAmbiguous, retrySubmit backoff work (sr_ErrorCode r))
          else (finish CallTerminalError, EvFailInvariant (failureOr (sr_ErrorCode r) ''SUBMIT_TERMINAL'')))"

definition statusPlan ::
  "Backoff \<Rightarrow> BatchWork \<Rightarrow> string \<Rightarrow> call_error + StatusResult \<Rightarrow> CallResult \<times> lifecycle_event" where
  "statusPlan backoff work searchType reply =
     (case reply of
        Inl ProtocolFailure \<Rightarrow>
          (callResult CallTerminalError 0 ''MALFORMED_RESPONSE'', EvFailInvariant ''MALFORMED_RESPONSE'')
      | Inl TransportFailure \<Rightarrow>
          (callResult CallRetryableError 0 ''TRANSPORT_ERROR'', retryStatus backoff work ''TRANSPORT_ERROR'')
      | Inr r \<Rightarrow>
          let finish = (\<lambda>outcome. callResult outcome (st_StatusCode r) (st_ErrorCode r)) in
          if st_StatusCode r = 429 \<or> 500 \<le> st_StatusCode r
          then (finish CallRetryableError,
                retryStatus backoff work (failureOr (st_ErrorCode r) ''STATUS_UNAVAILABLE''))
          else if st_StatusCode r \<noteq> 200
          then (finish CallCompleted,
                if searchType = SearchUTID \<and> st_StatusCode r = 404 \<and> st_ErrorCode r = ''NOT_FOUND''
                then EvReferenceNotFound \<lparr>rs_Delay = pollDelay backoff (w_AttemptCount work),
                                          rs_FailureCode = st_ErrorCode r\<rparr>
                else EvFailInvariant (failureOr (st_ErrorCode r) ''STATUS_TERMINAL''))
          else if st_UTID r \<noteq> w_UTID work
                  \<or> (w_ReceiptID work \<noteq> '''' \<and> st_ReceiptID r \<noteq> w_ReceiptID work)
          then (finish CallTerminalError, EvFailInvariant ''REMOTE_IDENTITY_MISMATCH'')
          else (finish CallCompleted,
                if searchType = SearchUTID
                then EvReferenceFound \<lparr>rf_ReceiptID = st_ReceiptID r,
                                       rf_PollDelay = pollDelay backoff (w_AttemptCount work)\<rparr>
                else if st_Status r = ''Processing''
                then EvAcknowledgmentPending \<lparr>rs_Delay = pollDelay backoff (w_AttemptCount work), rs_FailureCode = ''''\<rparr>
                else EvCompleteAcknowledgment (st_Outcomes r)))"

section \<open>One round of work\<close>

record worker =
  wk_workerID :: string
  wk_leaseDuration :: int
  wk_idleDelay :: int
  wk_backoff :: Backoff

definition NewWorker :: "bool \<Rightarrow> bool \<Rightarrow> string \<Rightarrow> int \<Rightarrow> int \<Rightarrow> Backoff \<Rightarrow> worker result" where
  "NewWorker hasLifecycle hasIRS workerID leaseDuration idleDelay backoff =
     (if \<not> hasLifecycle \<or> \<not> hasIRS \<or> workerID = '''' \<or> leaseDuration \<le> 0 \<or> idleDelay \<le> 0
      then Inl (ErrMsg ''invalid worker configuration'')
      else Inr \<lparr>wk_workerID = workerID, wk_leaseDuration = leaseDuration, wk_idleDelay = idleDelay,
                wk_backoff = backoff\<rparr>)"

text \<open>The clock readings, locked rows and entropy one round meets.\<close>

record round_env =
  re_now :: int
  re_locked :: "int list"
  re_entropy :: "bytes option"
  re_start :: "int \<times> int"
  re_finish :: "int \<times> int"
  re_event :: "int \<times> int"

definition AcquireCallPermit :: "int \<times> int \<Rightarrow> AcquireCallCommand \<Rightarrow> db \<Rightarrow> db \<times> callPermit result" where
  "AcquireCallPermit ts command d =
     (case openGate command d of
        (d1, Inl e) \<Rightarrow> (d1, Inl e)
      | (d1, Inr allowed) \<Rightarrow> startCall (fst ts) (snd ts) command d1)"

text \<open>\<open>permit.Finish\<close>, and the event unless it failed.\<close>

definition finishThen ::
  "round_env \<Rightarrow> callPermit \<Rightarrow> CallResult \<times> lifecycle_event \<Rightarrow> Claim \<Rightarrow> db \<Rightarrow> db \<times> unit result" where
  "finishThen env permit plan claim d =
     (case Finish (fst (re_finish env)) (snd (re_finish env)) (fst plan) permit d of
        (permit', d1, Inl e) \<Rightarrow> (d1, Inl e)
      | (permit', d1, Inr _) \<Rightarrow> applyEvent (fst (re_event env)) (snd (re_event env)) claim (snd plan) d1)"

definition submit ::
  "'i irs_client \<Rightarrow> Backoff \<Rightarrow> round_env \<Rightarrow> BatchWork \<Rightarrow> db \<times> 'i \<Rightarrow> (db \<times> 'i) \<times> unit result" where
  "submit irs backoff env work s =
     (case AcquireCallPermit (re_start env)
             \<lparr>acq_FirmID = w_FirmID work, acq_BatchID = w_BatchID work, acq_Operation = OperationSubmit\<rparr> (fst s) of
        (d1, Inl e) \<Rightarrow> ((d1, snd s), Inl e)
      | (d1, Inr permit) \<Rightarrow>
          (case Submit irs (w_CanonicalXML work) (snd s) of
             (i1, reply) \<Rightarrow>
               (case finishThen env permit (submitPlan backoff work reply) (w_Claim work) d1 of
                  (d2, r) \<Rightarrow> ((d2, i1), r))))"

definition status ::
  "'i irs_client \<Rightarrow> Backoff \<Rightarrow> round_env \<Rightarrow> BatchWork \<Rightarrow> string \<Rightarrow> string \<Rightarrow> db \<times> 'i \<Rightarrow> (db \<times> 'i) \<times> unit result" where
  "status irs backoff env work searchType searchValue s =
     (case AcquireCallPermit (re_start env)
             \<lparr>acq_FirmID = w_FirmID work, acq_BatchID = w_BatchID work, acq_Operation = OperationStatus\<rparr> (fst s) of
        (d1, Inl e) \<Rightarrow> ((d1, snd s), Inl e)
      | (d1, Inr permit) \<Rightarrow>
          (case Status irs (w_FirmID work) searchType searchValue (snd s) of
             (i1, reply) \<Rightarrow>
               (case finishThen env permit (statusPlan backoff work searchType reply) (w_Claim work) d1 of
                  (d2, r) \<Rightarrow> ((d2, i1), r))))"

definition onStore :: "(db \<Rightarrow> db \<times> 'a result) \<Rightarrow> db \<times> 'i \<Rightarrow> (db \<times> 'i) \<times> 'a result" where
  "onStore f s = (case f (fst s) of (d, r) \<Rightarrow> ((d, snd s), r))"

text \<open>What a poll searches for: the receipt, or the UTID when there is none.\<close>

definition pollSearch :: "BatchWork \<Rightarrow> string \<times> string" where
  "pollSearch work = (if w_ReceiptID work = '''' then (SearchUTID, w_UTID work) else (SearchReceiptID, w_ReceiptID work))"

definition processWork ::
  "'i irs_client \<Rightarrow> Backoff \<Rightarrow> round_env \<Rightarrow> BatchWork \<Rightarrow> db \<times> 'i \<Rightarrow> (db \<times> 'i) \<times> unit result" where
  "processWork irs backoff env work s =
     (if sha256 (w_CanonicalXML work) \<noteq> w_PayloadSHA256 work
      then onStore (applyEvent (fst (re_event env)) (snd (re_event env)) (w_Claim work)
                      (EvFailInvariant ''PAYLOAD_HASH_MISMATCH'')) s
      else if w_NextAction work = ActionSubmit then submit irs backoff env work s
      else if w_NextAction work = ActionLookupByUTID then status irs backoff env work SearchUTID (w_UTID work) s
      else if w_NextAction work = ActionPollStatus
      then status irs backoff env work (fst (pollSearch work)) (snd (pollSearch work)) s
      else onStore (applyEvent (fst (re_event env)) (snd (re_event env)) (w_Claim work)
                      (EvFailInvariant ''UNKNOWN_ACTION'')) s)"

definition ProcessOne ::
  "'i irs_client \<Rightarrow> worker \<Rightarrow> round_env \<Rightarrow> string \<Rightarrow> db \<times> 'i \<Rightarrow> (db \<times> 'i) \<times> bool result" where
  "ProcessOne irs wk env firmID s =
     (case ClaimNextBatch (re_now env) (re_locked env) (re_entropy env)
             \<lparr>clm_FirmID = firmID, clm_WorkerID = wk_workerID wk, clm_LeaseDuration = wk_leaseDuration wk\<rparr> (fst s) of
        (d1, Inl e) \<Rightarrow> ((d1, snd s), Inl e)
      | (d1, Inr None) \<Rightarrow> ((d1, snd s), Inr False)
      | (d1, Inr (Some work)) \<Rightarrow>
          (case processWork irs (wk_backoff wk) env work (d1, snd s) of
             (s2, Inl e) \<Rightarrow> (s2, Inl e)
           | (s2, Inr _) \<Rightarrow> (s2, Inr True)))"

text \<open>The loop of one firm in \<open>Run\<close>, over the rounds until its context ends: it works while there
  is work, idles otherwise, and stops at the first error.\<close>

fun firmLoop ::
  "'i irs_client \<Rightarrow> worker \<Rightarrow> string \<Rightarrow> round_env list \<Rightarrow> db \<times> 'i \<Rightarrow> (db \<times> 'i) \<times> unit result" where
  "firmLoop irs wk firmID [] s = (s, Inr ())"
| "firmLoop irs wk firmID (env # envs) s =
     (case ProcessOne irs wk env firmID s of
        (s1, Inl e) \<Rightarrow> (s1, Inl e)
      | (s1, Inr worked) \<Rightarrow> firmLoop irs wk firmID envs s1)"

end
