(* ===== verification/Irs_Client.thy ===== *)
theory Irs_Client
  imports Irs_Server Worker
begin

text \<open>
  The IRS client, \<open>service/internal/irsclient/client.go\<close>: the requests it builds and what it
  makes of the responses. The transport is outside: a call yields a response or fails
  (\<open>None\<close>). An error of type \<open>ProtocolError\<close> is \<open>ProtocolFailure\<close>, every other error
  \<open>TransportFailure\<close>; error texts are left out.
\<close>

section \<open>Configuration\<close>

record client_config =
  cc_BaseURL :: string
  cc_BearerToken :: string
  cc_ConnectTimeout :: int
  cc_ResponseHeaderTimeout :: int
  cc_TotalTimeout :: int

record client =
  cl_baseURL :: string
  cl_token :: string

definition trimRightSlash :: "string \<Rightarrow> string" where
  "trimRightSlash s = rev (dropWhile (\<lambda>c. c = CHR ''/'') (rev s))"

definition NewClient :: "client_config \<Rightarrow> client result" where
  "NewClient config =
     (if trimSpace (cc_BaseURL config) = '''' \<or> cc_BearerToken config = '''' \<or> cc_ConnectTimeout config \<le> 0
         \<or> cc_ResponseHeaderTimeout config \<le> 0 \<or> cc_TotalTimeout config \<le> 0
      then Inl (ErrMsg ''invalid IRS client configuration'')
      else Inr \<lparr>cl_baseURL = trimRightSlash (cc_BaseURL config), cl_token = cc_BearerToken config\<rparr>)"

definition NewWithHTTPClient :: "string \<Rightarrow> string \<Rightarrow> bool \<Rightarrow> client result" where
  "NewWithHTTPClient baseURL token hasClient =
     (if trimSpace baseURL = '''' \<or> token = '''' \<or> \<not> hasClient
      then Inl (ErrMsg ''invalid IRS client configuration'')
      else Inr \<lparr>cl_baseURL = trimRightSlash baseURL, cl_token = token\<rparr>)"

section \<open>Requests\<close>

definition clientRequest :: "client \<Rightarrow> string \<Rightarrow> bytes option \<Rightarrow> form_part list \<Rightarrow> http_request" where
  "clientRequest cl mediaType body parts =
     \<lparr>rq_Authorization = ''Bearer '' @ cl_token cl, rq_Accept = ''application/xml'', rq_MediaType = mediaType,
      rq_Body = body, rq_Multipart = (mediaType = ''multipart/form-data''), rq_Parts = parts, rq_PartsClean = True\<rparr>"

definition submitRequest :: "client \<Rightarrow> bytes \<Rightarrow> http_request" where
  "submitRequest cl payload =
     clientRequest cl ''multipart/form-data'' None
       [\<lparr>fp_FormName = ''file'', fp_FileName = ''transmission.xml'', fp_MediaType = ''application/xml'',
         fp_Payload = Some payload\<rparr>]"

definition statusRequestNode :: "string \<Rightarrow> string \<Rightarrow> string \<Rightarrow> xml_node" where
  "statusRequestNode firmID searchType searchValue =
     Element ''TransStatusOrAckRequest''
       [textElement ''TransmitterControlCd'' firmID, textElement ''SearchParameterTypeCd'' searchType,
        textElement ''SearchParameterTxt'' searchValue]"

definition statusRequest :: "client \<Rightarrow> string \<Rightarrow> string \<Rightarrow> string \<Rightarrow> http_request" where
  "statusRequest cl firmID searchType searchValue =
     clientRequest cl ''application/xml'' (Some (renderXML (statusRequestNode firmID searchType searchValue))) []"

section \<open>Responses\<close>

definition maxResponseBytes :: nat where "maxResponseBytes = 1048576"

definition readResponse :: "http_response \<Rightarrow> bytes option" where
  "readResponse response =
     (if rs_MediaType response \<noteq> ''application/xml'' then None
      else if maxResponseBytes < length (rs_Body response) then None
      else Some (rs_Body response))"

text \<open>The token loop of \<open>decodeStrict\<close>: how many roots, or an unacceptable token.\<close>

fun strictTokens :: "string \<Rightarrow> string list \<Rightarrow> int \<Rightarrow> nat \<Rightarrow> xml_token list \<Rightarrow> bool" where
  "strictTokens rootName allowed depth roots [] = (roots = 1 \<and> depth = 0)"
| "strictTokens rootName allowed depth roots (StartElement sp n k # ts) =
     (if sp \<noteq> [] \<or> k \<noteq> 0 \<or> n \<notin> set allowed then False
      else if depth = 0 \<and> n \<noteq> rootName then False
      else strictTokens rootName allowed (depth + 1) (if depth = 0 then roots + 1 else roots) ts)"
| "strictTokens rootName allowed depth roots (EndElement sp n # ts) = strictTokens rootName allowed (depth - 1) roots ts"
| "strictTokens rootName allowed depth roots (Characters t # ts) =
     (if depth = 0 \<and> trimSpace t \<noteq> [] then False else strictTokens rootName allowed depth roots ts)"
| "strictTokens rootName allowed depth roots (OtherToken # ts) = strictTokens rootName allowed depth roots ts"

text \<open>The children of the document's root; all target fields are strings and structs of strings, so
  \<open>xml.Unmarshal\<close> itself cannot fail.\<close>

definition decodeStrict :: "bytes \<Rightarrow> string \<Rightarrow> string list \<Rightarrow> xml_node list option" where
  "decodeStrict payload rootName allowed =
     (case decoderTokens payload of
        None \<Rightarrow> None
      | Some ts \<Rightarrow> if strictTokens rootName allowed 0 0 ts then map_option snd (rootElement ts) else None)"

definition decodeError :: "bytes \<Rightarrow> string option" where
  "decodeError payload =
     (case decodeStrict payload ''ErrorResponse'' [''ErrorResponse'', ''ErrorCd'', ''ErrorMessageTxt''] of
        None \<Rightarrow> None
      | Some cs \<Rightarrow> if stringField ''ErrorCd'' cs = [] then None else Some (stringField ''ErrorCd'' cs))"

definition clientSubmit :: "http_response option \<Rightarrow> call_error + SubmitResult" where
  "clientSubmit reply =
     (case reply of
        None \<Rightarrow> Inl TransportFailure
      | Some response \<Rightarrow>
          (case readResponse response of
             None \<Rightarrow> Inl ProtocolFailure
           | Some payload \<Rightarrow>
               if rs_Status response = 200
               then (case decodeStrict payload ''ReceiptId'' [''ReceiptId''] of
                       None \<Rightarrow> Inl ProtocolFailure
                     | Some cs \<Rightarrow>
                         if trimSpace (charDataOf cs) = [] then Inl ProtocolFailure
                         else Inr \<lparr>sr_StatusCode = 200, sr_ErrorCode = '''', sr_ReceiptID = charDataOf cs\<rparr>)
               else (case decodeError payload of
                       None \<Rightarrow> Inl ProtocolFailure
                     | Some code \<Rightarrow> Inr \<lparr>sr_StatusCode = rs_Status response, sr_ErrorCode = code, sr_ReceiptID = ''''\<rparr>)))"

definition validTransmissionStatus :: "string \<Rightarrow> bool" where
  "validTransmissionStatus st \<longleftrightarrow> st \<in> {''Processing'', ''Accepted'', ''PartiallyAccepted'', ''Rejected''}"

definition validReason :: "string \<Rightarrow> bool" where
  "validReason reason \<longleftrightarrow> reason \<in> {ReasonTINMissing, ReasonTINMalformed, ReasonTINInvalid, ReasonAmountInvalid}"

definition statusResponseElements :: "string list" where
  "statusResponseElements = [''TransStatusOrAckResponse'', ''ReceiptId'', ''UniqueTransmissionId'',
     ''TransmissionStatusCd'', ''RecordResultGrp'', ''RecordId'', ''RecordStatusCd'', ''IRSRecordId'', ''ErrorReasonCd'']"

definition wireOutcome :: "xml_node list \<Rightarrow> FilingOutcome option" where
  "wireOutcome filing =
     (let key = stringField ''RecordId'' filing; st = stringField ''RecordStatusCd'' filing;
          record = stringField ''IRSRecordId'' filing; reason = stringField ''ErrorReasonCd'' filing;
          accepted = (st = ''Accepted'' \<and> record \<noteq> '''' \<and> reason = '''');
          rejected = (st = ''Rejected'' \<and> record = '''' \<and> validReason reason)
      in if key = '''' \<or> (\<not> accepted \<and> \<not> rejected) then None
         else Some \<lparr>FilingKey = key, IRSRecordID = record, RejectionReason = reason\<rparr>)"

fun wireOutcomes :: "xml_node list list \<Rightarrow> FilingOutcome list option" where
  "wireOutcomes [] = Some []"
| "wireOutcomes (r # rs) =
     (case wireOutcome r of None \<Rightarrow> None | Some outcome \<Rightarrow> map_option (\<lambda>os. outcome # os) (wireOutcomes rs))"

definition clientStatus :: "http_response option \<Rightarrow> call_error + StatusResult" where
  "clientStatus reply =
     (case reply of
        None \<Rightarrow> Inl TransportFailure
      | Some response \<Rightarrow>
          (case readResponse response of
             None \<Rightarrow> Inl ProtocolFailure
           | Some payload \<Rightarrow>
               if rs_Status response \<noteq> 200
               then (case decodeError payload of
                       None \<Rightarrow> Inl ProtocolFailure
                     | Some code \<Rightarrow> Inr \<lparr>st_StatusCode = rs_Status response, st_ErrorCode = code, st_ReceiptID = '''',
                         st_UTID = '''', st_Status = '''', st_Outcomes = []\<rparr>)
               else (case decodeStrict payload ''TransStatusOrAckResponse'' statusResponseElements of
                       None \<Rightarrow> Inl ProtocolFailure
                     | Some cs \<Rightarrow>
                         let receipt = stringField ''ReceiptId'' cs; utid = stringField ''UniqueTransmissionId'' cs;
                             st = stringField ''TransmissionStatusCd'' cs; results = childrenNamed ''RecordResultGrp'' cs
                         in if receipt = '''' \<or> utid = '''' \<or> \<not> validTransmissionStatus st then Inl ProtocolFailure
                            else if st = ''Processing'' \<and> results \<noteq> [] then Inl ProtocolFailure
                            else (case wireOutcomes results of
                                    None \<Rightarrow> Inl ProtocolFailure
                                  | Some outcomes \<Rightarrow>
                                      if st \<noteq> ''Processing'' \<and> outcomes = [] then Inl ProtocolFailure
                                      else Inr \<lparr>st_StatusCode = 200, st_ErrorCode = '''', st_ReceiptID = receipt,
                                                st_UTID = utid, st_Status = st, st_Outcomes = outcomes\<rparr>))))"

text \<open>The client over a transport: \<open>post\<close> sends a request on the state of the other side and
  returns a response, or \<open>None\<close> when the call fails. \<open>Status\<close> checks its arguments first.\<close>

definition irsClientOver :: "client \<Rightarrow> (http_request \<Rightarrow> 'i \<Rightarrow> 'i \<times> http_response option)
    \<Rightarrow> (http_request \<Rightarrow> 'i \<Rightarrow> 'i \<times> http_response option) \<Rightarrow> 'i irs_client" where
  "irsClientOver cl postIntake postStatus =
     \<lparr>Submit = (\<lambda>xml i. case postIntake (submitRequest cl xml) i of (i', reply) \<Rightarrow> (i', clientSubmit reply)),
      Status = (\<lambda>firmID searchType searchValue i.
        if firmID = '''' \<or> searchValue = '''' \<or> (searchType \<noteq> SearchUTID \<and> searchType \<noteq> SearchReceiptID)
        then (i, Inl TransportFailure)
        else case postStatus (statusRequest cl firmID searchType searchValue) i of
          (i', reply) \<Rightarrow> (i', clientStatus reply))\<rparr>"

end
