(* ===== verification/Xml_Roundtrip.thy ===== *)
theory Xml_Roundtrip
  imports Xml_Reader
begin

text \<open>
  What \<open>xml.Marshal\<close> writes, the tokenizer reads back: escaped text denotes itself, a rendered
  tree gives its tokens, and the tokens build the tree again.
\<close>

section \<open>Text\<close>

lemma decodeRune_cases:
  assumes "decodeRune (a # bs) = (r, w)"
  obtains (invalid) "r = RuneError" "w = 1"
    | (ascii) "a < 128" "r = a" "w = 1"
    | (multi) "1 < w" "w \<le> length (a # bs)" "128 \<le> r" "\<forall>x \<in> set (take w (a # bs)). 128 \<le> x"
proof (cases "a < 128")
  case True
  with assms show thesis by (intro ascii) (auto simp: decodeRune_def)
next
  case a: False
  show thesis
  proof (cases "r = RuneError \<and> w = 1")
    case bad: False
    from assms a bad obtain b bs1 where b: "bs = b # bs1" by (cases bs) (auto simp: decodeRune_def)
    show thesis
    proof (cases "194 \<le> a \<and> a \<le> 223")
      case True
      with assms a bad b have "cont_byte b" "r = (a - 192) * 64 + (b - 128)" "w = 2"
        by (auto simp: decodeRune_def split: if_splits)
      with True b a show thesis by (intro multi) (auto simp: cont_byte_def)
    next
      case two: False
      from assms a bad b two obtain c bs2 where c: "bs1 = c # bs2"
        by (cases bs1) (auto simp: decodeRune_def)
      show thesis
      proof (cases "224 \<le> a \<and> a \<le> 239")
        case True
        with assms a bad b two c have three: "cont_byte b" "cont_byte c" "a = 224 \<longrightarrow> 160 \<le> b"
            "r = (a - 224) * 4096 + (b - 128) * 64 + (c - 128)" "w = 3"
          by (auto simp: decodeRune_def split: if_splits)
        have "128 \<le> r"
        proof (cases "a = 224")
          case False
          with True have "1 * 4096 \<le> (a - 224) * 4096" by (intro mult_le_mono1) arith
          with three(4) show ?thesis by simp
        qed (use three in simp)
        with three a b c show thesis by (intro multi) (auto simp: cont_byte_def)
      next
        case three: False
        from assms a bad b two c three obtain d bs3 where d: "bs2 = d # bs3"
          by (cases bs2) (auto simp: decodeRune_def)
        from assms a bad b two c three d have four: "240 \<le> a" "cont_byte b" "cont_byte c" "cont_byte d" "a = 240 \<longrightarrow> 144 \<le> b"
            "r = (a - 240) * 262144 + (b - 128) * 4096 + (c - 128) * 64 + (d - 128)" "w = 4"
          by (auto simp: decodeRune_def split: if_splits)
        have "128 \<le> r"
        proof (cases "a = 240")
          case False
          with four(1) have "1 * 262144 \<le> (a - 240) * 262144" by (intro mult_le_mono1) arith
          with four(6) show ?thesis by simp
        qed (use four in simp)
        with four a b c d show thesis by (intro multi) (auto simp: cont_byte_def)
      qed
    qed
  qed (use invalid in blast)
qed

definition special :: "nat set" where "special = {60, 62, 38, 13, 10}"

lemma lexText_plain:
  assumes "byte_val c \<notin> special"
  shows "lexText InElement b0 b1 (c # s) = map_option (\<lambda>(d, r). (c # d, r)) (lexText InElement b1 (byte_val c) s)"
  using assms by (simp add: special_def lexText.simps(2))

lemma lexText_plains:
  assumes "\<forall>c \<in> set raw. byte_val c \<notin> special"
  shows "\<exists>b0' b1'. lexText InElement b0 b1 (raw @ s) = map_option (\<lambda>(d, r). (raw @ d, r)) (lexText InElement b0' b1' s)"
  using assms
proof (induction raw arbitrary: b0 b1)
  case Nil
  have "lexText InElement b0 b1 ([] @ s) = map_option (\<lambda>(d, r). ([] @ d, r)) (lexText InElement b0 b1 s)"
    by (simp add: option.map_id)
  then show ?case by blast
next
  case (Cons c raw)
  then obtain b0' b1' where "lexText InElement b1 (byte_val c) (raw @ s)
      = map_option (\<lambda>(d, r). (raw @ d, r)) (lexText InElement b0' b1' s)"
    by fastforce
  with Cons.prems have "lexText InElement b0 b1 ((c # raw) @ s)
      = map_option (\<lambda>(d, r). ((c # raw) @ d, r)) (lexText InElement b0' b1' s)"
    by (simp add: lexText_plain option.map_comp comp_def case_prod_unfold)
  then show ?case by blast
qed

lemma lexText_entity:
  assumes "entityText s = Some (t, rest)"
  shows "lexText InElement b0 b1 (CHR ''&'' # s) = map_option (\<lambda>(d, r). (t @ d, r)) (lexText InElement 0 0 rest)"
  using assms by (simp add: lexText.simps(2))

lemma char_codes: "char_of (38::nat) = CHR ''&''" "char_of (60::nat) = CHR ''<''" "char_of (62::nat) = CHR ''>''"
  by code_simp+

lemma entities:
  "entityText (''#34;'' @ rest) = Some ([char_of (34::nat)], rest)"
  "entityText (''#39;'' @ rest) = Some ([char_of (39::nat)], rest)"
  "entityText (''amp;'' @ rest) = Some (''&'', rest)"
  "entityText (''lt;'' @ rest) = Some (''<'', rest)"
  "entityText (''gt;'' @ rest) = Some (''>'', rest)"
  "entityText (''#x9;'' @ rest) = Some ([char_of (9::nat)], rest)"
  "entityText (''#xA;'' @ rest) = Some ([char_of (10::nat)], rest)"
  "entityText (''#xD;'' @ rest) = Some ([char_of (13::nat)], rest)"
  by (simp_all add: entityText_def numericEntity_def isNameByte_def isLetter_def is_digit_def isHexDigit_def
      namedEntities_def hexVal_def digit_val_def encodeRune_def Let_def)

lemma heads: "map byte_val (take 4 (c # s)) = byte_val c # map byte_val (take 3 s)"
  by (simp add: take_Suc_conv_app_nth numeral_eq_Suc)

text \<open>One escaped character read back.\<close>

lemma lexText_escapeRune:
  assumes "decodeRune (map byte_val (take 4 (c # s))) = (r, w)"
    and "\<not> (r = RuneError \<and> w = 1)" and "isInCharacterRange r"
  shows "\<exists>b0' b1'. lexText InElement b0 b1 (escapeRune (r, w) (take w (c # s)) @ rest)
      = map_option (\<lambda>(d, x). (take w (c # s) @ d, x)) (lexText InElement b0' b1' rest)"
proof -
  from assms(1)[unfolded heads] show ?thesis
  proof (cases rule: decodeRune_cases)
    case invalid
    with assms(2) show ?thesis by blast
  next
    case ascii
    have c: "c = char_of r" using ascii(2) by simp
    show ?thesis
    proof (cases "r \<in> {34, 39, 38, 60, 62, 9, 10, 13}")
      case True
      with c ascii(3) entities [of rest] obtain e where
        e: "escapeRune (r, w) (take w (c # s)) = CHR ''&'' # e" "entityText (e @ rest) = Some ([c], rest)"
        by (auto simp: escapeRune_def char_codes)
      from lexText_entity [OF e(2)] e(1) ascii(3) show ?thesis by auto
    next
      case False
      then have "byte_val c \<notin> special" using ascii by (simp add: special_def)
      with False ascii assms(3) have "lexText InElement b0 b1 (escapeRune (r, w) (take w (c # s)) @ rest)
          = map_option (\<lambda>(d, x). (take w (c # s) @ d, x)) (lexText InElement b1 (byte_val c) rest)"
        by (simp add: escapeRune_def Let_def RuneError_def lexText_plain)
      then show ?thesis by blast
    qed
  next
    case multi
    have raw: "\<forall>x \<in> set (take w (c # s)). byte_val x \<notin> special"
    proof
      fix x assume "x \<in> set (take w (c # s))"
      moreover have "w \<le> 4" using multi(2) heads by (metis length_map length_take min.cobounded2 le_trans)
      moreover have "take w (map byte_val (take 4 (c # s))) = map byte_val (take w (c # s))" if "w \<le> 4"
        using that by (simp only: take_map take_take min_absorb1)
      ultimately have "byte_val x \<in> set (take w (byte_val c # map byte_val (take 3 s)))"
        unfolding heads by auto
      with multi(4) show "byte_val x \<notin> special" by (auto simp: special_def)
    qed
    from multi assms(3) have "escapeRune (r, w) (take w (c # s)) = take w (c # s)"
      by (simp add: escapeRune_def RuneError_def)
    with lexText_plains [OF raw] show ?thesis by simp
  qed
qed

lemma lexText_escape:
  "validChars s \<Longrightarrow> lexText InElement b0 b1 (escapeText s @ CHR ''<'' # rest) = Some (s, CHR ''<'' # rest)"
proof (induction s arbitrary: b0 b1 rule: escapeText.induct)
  case 1
  then show ?case by (simp add: lexText.simps(2))
next
  case (2 c s)
  obtain r w where rw: "decodeRune (map byte_val (take 4 (c # s))) = (r, w)" by fastforce
  from "2.prems" rw have ok: "\<not> (r = RuneError \<and> w = 1)" "isInCharacterRange r" "validChars (drop (w - 1) s)"
    by (simp_all add: Let_def)
  obtain b0' b1' where step: "lexText InElement b0 b1 (escapeRune (r, w) (take w (c # s))
        @ escapeText (drop (w - 1) s) @ CHR ''<'' # rest)
      = map_option (\<lambda>(d, x). (take w (c # s) @ d, x)) (lexText InElement b0' b1' (escapeText (drop (w - 1) s) @ CHR ''<'' # rest))"
    using lexText_escapeRune [OF rw ok(1,2)] by blast
  have "0 < w" by (rule decodeRune_cases [OF rw [unfolded heads]]) simp_all
  then have "take w (c # s) @ drop (w - 1) s = c # s"
    by (cases w) simp_all
  with step "2.IH" [OF refl] rw ok(3) show ?case by (simp add: Let_def)
qed

lemma escapeText_head:
  assumes "validChars (c # s)"
  shows "\<exists>x xs. escapeText (c # s) = x # xs \<and> x \<noteq> CHR ''<''"
proof -
  obtain r w where rw: "decodeRune (map byte_val (take 4 (c # s))) = (r, w)" by fastforce
  from assms rw have ok: "\<not> (r = RuneError \<and> w = 1)" by (simp add: Let_def)
  have "0 < w" by (rule decodeRune_cases [OF rw [unfolded heads]]) simp_all
  moreover have "c \<noteq> CHR ''<''" if "r \<noteq> 60"
    using rw [unfolded heads]
  proof (cases rule: decodeRune_cases)
    case multi
    then have "128 \<le> byte_val c" by (cases w) auto
    then show ?thesis by auto
  qed (use ok that in auto)
  moreover have "char_of (239::nat) \<noteq> CHR ''<''" by code_simp
  ultimately show ?thesis
    using rw by (cases w) (auto simp: Let_def escapeRune_def char_codes)
qed

lemma readText_escape:
  assumes "validChars s"
  shows "readText InElement (escapeText s @ CHR ''<'' # rest) = Some (s, CHR ''<'' # rest)"
  using assms by (simp add: readText_def lexText_escape Let_def)

lemma lexAll_text:
  assumes "validChars s" and "s \<noteq> []"
  shows "lexAll (escapeText s @ CHR ''<'' # rest) = map_option (\<lambda>us. Characters s # us) (lexAll (CHR ''<'' # rest))"
proof -
  from assms obtain x xs where e: "escapeText s = x # xs" "x \<noteq> CHR ''<''"
    using escapeText_head by (cases s) blast+
  with readText_escape [OF assms(1), of rest] show ?thesis by (simp add: lexAll.simps(2) [of x])
qed

section \<open>Elements\<close>

definition plainName :: "string \<Rightarrow> bool" where
  "plainName n \<longleftrightarrow> isName n \<and> colon \<notin> set n"

lemma plainName_bytes: "plainName n \<Longrightarrow> list_all isNameByte n \<and> n \<noteq> []"
  by (auto simp: plainName_def isName_def split: list.splits)

lemma gt_not_name: "\<not> isNameByte (CHR ''>'')"
  by code_simp

lemma takeWhile_name:
  "list_all isNameByte n \<Longrightarrow> takeWhile isNameByte (n @ CHR ''>'' # rest) = n \<and> dropWhile isNameByte (n @ CHR ''>'' # rest) = CHR ''>'' # rest"
  by (induction n) (auto simp: gt_not_name)

lemma nsname_plain:
  assumes "plainName n"
  shows "nsname (n @ CHR ''>'' # rest) = Some (n, CHR ''>'' # rest)"
proof -
  have "count_list n colon = 0" using assms by (simp add: plainName_def count_list_0_iff)
  moreover have "isName n" using assms by (simp add: plainName_def)
  ultimately show ?thesis
    using takeWhile_name plainName_bytes [OF assms] by (simp add: nsname_def readName_def)
qed

lemma splitName_plain: "plainName n \<Longrightarrow> splitName n = ([], n)"
proof -
  assume "plainName n"
  then have "dropWhile (\<lambda>c. c \<noteq> colon) n = []" by (auto simp: plainName_def dropWhile_eq_Nil_conv)
  then show ?thesis by (simp add: splitName_def)
qed

lemma skipSpace_gt: "skipSpace (CHR ''>'' # rest) = CHR ''>'' # rest"
  by (simp add: skipSpace_def xmlSpace_def)

lemma lexAttrs_end: "lexAttrs k (CHR ''>'' # rest) = Some (k, False, rest)"
  by (simp add: lexAttrs.simps [of k "CHR ''>'' # rest"] skipSpace_gt)

lemma plainName_head:
  assumes "plainName n"
  obtains c m where "n = c # m" "c \<noteq> CHR ''/''" "c \<noteq> CHR ''?''" "c \<noteq> CHR ''!''"
proof -
  from assms obtain c m where n: "n = c # m" "isLetter c \<or> byte_val c = 95 \<or> byte_val c = 58"
    by (auto simp: plainName_def isName_def split: list.splits)
  have "byte_val (CHR ''/'') = 47" "byte_val (CHR ''?'') = 63" "byte_val (CHR ''!'') = 33" by code_simp+
  with n(2) have "c \<noteq> CHR ''/''" "c \<noteq> CHR ''?''" "c \<noteq> CHR ''!''" by (auto simp: isLetter_def)
  with n(1) show thesis by (rule that)
qed

lemma lexMarkup_start:
  assumes "plainName n"
  shows "lexMarkup (n @ CHR ''>'' # rest) = Some ([StartElement [] n 0], rest)"
  using assms
proof (rule plainName_head)
  fix c m assume n: "n = c # m" "c \<noteq> CHR ''/''" "c \<noteq> CHR ''?''" "c \<noteq> CHR ''!''"
  with nsname_plain [OF assms, of rest] splitName_plain [OF assms] show ?thesis
    by (simp add: lexMarkup_def lexAttrs_end)
qed

lemma lexMarkup_end:
  assumes "plainName n"
  shows "lexMarkup (CHR ''/'' # n @ CHR ''>'' # rest) = Some ([EndElement [] n], rest)"
  using nsname_plain [OF assms, of rest] splitName_plain [OF assms]
  by (simp add: lexMarkup_def skipSpace_gt)

section \<open>Trees\<close>

text \<open>A tree as \<open>Marshal\<close> builds it: plain names, an element holding elements or one non-empty
  text of valid characters.\<close>

fun isElement :: "xml_node \<Rightarrow> bool" where
  "isElement (Element n cs) = True" | "isElement (CharData s) = False"

fun tidy :: "xml_node \<Rightarrow> bool" where
  "tidy (CharData s) = (s \<noteq> [] \<and> validChars s)"
| "tidy (Element n cs) = (plainName n \<and> list_all tidy cs \<and> (list_all isElement cs \<or> length cs = 1))"

fun tokensOf :: "xml_node \<Rightarrow> xml_token list" where
  "tokensOf (CharData s) = [Characters s]"
| "tokensOf (Element n cs) = StartElement [] n 0 # concat (map tokensOf cs) @ [EndElement [] n]"

lemma append_funs: "(@) [] = (\<lambda>x. x)" "(@) [a] = (#) a" "(@) (xs @ ys) = (\<lambda>zs. xs @ ys @ zs)"
  by (auto simp: fun_eq_iff)

lemma lexAll_elements:
  assumes "\<And>c rest. c \<in> set cs \<Longrightarrow> lexAll (renderXML c @ rest) = map_option (\<lambda>us. tokensOf c @ us) (lexAll rest)"
  shows "lexAll (concat (map renderXML cs) @ rest) = map_option (\<lambda>us. concat (map tokensOf cs) @ us) (lexAll rest)"
  using assms
  by (induction cs arbitrary: rest) (simp_all add: option.map_ident option.map_comp comp_def append_funs)

lemma lexAll_render:
  "tidy node \<Longrightarrow> isElement node \<Longrightarrow> lexAll (renderXML node @ rest) = map_option (\<lambda>us. tokensOf node @ us) (lexAll rest)"
proof (induction node arbitrary: rest)
  case (Element n cs)
  then have n: "plainName n" by simp
  let ?close = "CHR ''<'' # CHR ''/'' # n @ CHR ''>'' # rest"
  have close: "lexAll ?close = map_option (\<lambda>us. EndElement [] n # us) (lexAll rest)"
    by (simp add: lexAll.simps(2) lexMarkup_end [OF n] append_funs)
  have inner: "lexAll (concat (map renderXML cs) @ ?close) = map_option (\<lambda>us. concat (map tokensOf cs) @ us) (lexAll ?close)"
  proof (cases "list_all isElement cs")
    case True
    with Element show ?thesis by (intro lexAll_elements) (auto simp: list_all_iff)
  next
    case False
    with Element.prems obtain c where c: "cs = [c]" "\<not> isElement c" "tidy c" by (auto simp: length_Suc_conv)
    then obtain s where "c = CharData s" "s \<noteq> []" "validChars s" by (cases c) auto
    with c(1) lexAll_text [of s] show ?thesis by simp
  qed
  have "lexAll (renderXML (Element n cs) @ rest)
      = map_option (\<lambda>us. StartElement [] n 0 # us) (lexAll (concat (map renderXML cs) @ ?close))"
    by (simp add: lexAll.simps(2) [of "CHR ''<''"] lexMarkup_start [OF n] append_funs)
  then show ?case by (simp add: inner close option.map_comp comp_def append_funs)
qed simp

lemma wellNested_tokens: "wellNested st (tokensOf node @ ts) = wellNested st ts"
proof (induction node arbitrary: st ts)
  case (Element n cs)
  have "wellNested st (concat (map tokensOf cs) @ ts) = wellNested st ts" for st ts
    using Element.IH by (induction cs arbitrary: ts) auto
  then show ?case by simp
qed simp

lemma buildForest_tokens: "buildForest st acc (tokensOf node @ ts) = buildForest st (node # acc) ts"
proof (induction node arbitrary: st acc ts)
  case (Element n cs)
  have "buildForest st acc (concat (map tokensOf cs) @ ts) = buildForest st (rev cs @ acc) ts" for st acc ts
    using Element.IH by (induction cs arbitrary: acc ts) auto
  then show ?case by simp
qed simp

text \<open>The payload's XML header is one instruction and a line break.\<close>

lemma untilPIEnd_skip: "a \<noteq> CHR ''?'' \<Longrightarrow> untilPIEnd (a # b # r) = map_option (\<lambda>(d, rest). (a # d, rest)) (untilPIEnd (b # r))"
  by simp

lemma header_instruction:
  "lexInstruction (''xml version=\"1.0\" encoding=\"UTF-8\"?>'' @ rest) = Some rest"
proof -
  have name: "readName (''xml version=\"1.0\" encoding=\"UTF-8\"?>'' @ rest)
      = Some (''xml'', '' version=\"1.0\" encoding=\"UTF-8\"?>'' @ rest)"
    by (simp add: readName_def isNameByte_def isLetter_def is_digit_def isName_def)
  have body: "untilPIEnd (skipSpace ('' version=\"1.0\" encoding=\"UTF-8\"?>'' @ rest))
      = Some (''version=\"1.0\" encoding=\"UTF-8\"'', rest)"
    by (simp add: skipSpace_def xmlSpace_def)
  have "declarationOK ''version=\"1.0\" encoding=\"UTF-8\"''" by code_simp
  then show ?thesis unfolding lexInstruction_def name by (simp only: option.case prod.case body) simp
qed

lemma lexAll_header:
  "lexAll (xmlHeader @ CHR ''<'' # rest)
   = map_option (\<lambda>us. OtherToken # Characters [char_of (10::nat)] # us) (lexAll (CHR ''<'' # rest))"
proof -
  let ?nl = "char_of (10::nat)"
  have nl: "?nl \<noteq> CHR ''<''" by code_simp
  have line: "readText InElement (?nl # CHR ''<'' # rest) = Some ([?nl], CHR ''<'' # rest)"
    by (simp add: readText_def lexText.simps(2) isInCharacterRange_def decodeRune_def RuneError_def)
  have split: "xmlHeader @ CHR ''<'' # rest = CHR ''<'' # CHR ''?'' # ''xml version=\"1.0\" encoding=\"UTF-8\"?>'' @ ?nl # CHR ''<'' # rest"
    by (simp add: xmlHeader_def)
  have "lexMarkup (CHR ''?'' # ''xml version=\"1.0\" encoding=\"UTF-8\"?>'' @ ?nl # CHR ''<'' # rest)
      = Some ([OtherToken], ?nl # CHR ''<'' # rest)"
    unfolding lexMarkup_def list.case by (simp only: header_instruction) simp
  then have "lexAll (xmlHeader @ CHR ''<'' # rest) = map_option (\<lambda>us. [OtherToken] @ us) (lexAll (?nl # CHR ''<'' # rest))"
    unfolding split by (simp only: lexAll.simps(2) if_True refl option.case prod.case)
  then show ?thesis
    using nl by (simp add: lexAll.simps(2) [of ?nl] line option.map_comp comp_def)
qed

lemma decoderTokens_document:
  assumes "tidy node" and "isElement node"
  shows "decoderTokens (xmlHeader @ renderXML node) = Some (OtherToken # Characters [char_of (10::nat)] # tokensOf node)"
    and "decoderTokens (renderXML node) = Some (tokensOf node)"
proof -
  from assms(2) obtain r where r: "renderXML node = CHR ''<'' # r" by (cases node) auto
  have "lexAll (renderXML node) = Some (tokensOf node)"
    using lexAll_render [OF assms, of "[]"] by (simp add: lexAll.simps)
  moreover have "wellNested [] (tokensOf node)" using wellNested_tokens [of "[]" node "[]"] by simp
  ultimately show "decoderTokens (xmlHeader @ renderXML node) = Some (OtherToken # Characters [char_of (10::nat)] # tokensOf node)"
    and "decoderTokens (renderXML node) = Some (tokensOf node)"
    using lexAll_header [of r] by (simp_all add: decoderTokens_def r)
qed

lemma rootElement_document:
  "rootElement (tokensOf (Element n cs)) = Some (n, cs)"
  "rootElement (OtherToken # Characters t # tokensOf (Element n cs)) = Some (n, cs)"
  using buildForest_tokens [of "[]" "[]" "Element n cs" "[]"] buildForest_tokens [of "[]" "[CharData t]" "Element n cs" "[]"]
  by (simp_all add: rootElement_def)

end
