(* ===== verification/Irs_Wire.thy ===== *)
theory Irs_Wire
  imports Irs_Server Xml_Roundtrip Money Planning
begin

text \<open>
  The payload crosses the wire: what the store renders for a group of filings, the stub
  decodes to exactly those filings.
\<close>

section \<open>Plain text is valid text\<close>

lemma validChars_plain:
  assumes "\<forall>c \<in> set s. 32 \<le> byte_val c \<and> byte_val c < 128"
  shows "validChars s"
  using assms
proof (induction s rule: validChars.induct)
  case (2 c s)
  then have "decodeRune (map byte_val (take 4 (c # s))) = (byte_val c, 1)"
    by (simp add: heads decodeRune_def)
  with 2 show ?case by (simp add: isInCharacterRange_def RuneError_def)
qed simp

lemma decodeRune_extend:
  assumes "decodeRune (a # bs) = (r, w)" and "\<not> (r = RuneError \<and> w = 1)"
  shows "decodeRune (a # bs @ cs) = (r, w)"
proof -
  have "decodeRune (a # bs @ cs) = decodeRune (a # bs)"
  proof (cases "a < 128")
    case a: False
    from assms a obtain b bs1 where b: "bs = b # bs1" by (cases bs) (auto simp: decodeRune_def)
    show ?thesis
    proof (cases "194 \<le> a \<and> a \<le> 223")
      case two: False
      from assms a b two obtain c bs2 where c: "bs1 = c # bs2" by (cases bs1) (auto simp: decodeRune_def)
      show ?thesis
      proof (cases "224 \<le> a \<and> a \<le> 239")
        case three: False
        from assms a b two c three obtain d bs3 where "bs2 = d # bs3" by (cases bs2) (auto simp: decodeRune_def)
        with a b two c three show ?thesis by (simp add: decodeRune_def)
      qed (use a b two c in \<open>simp add: decodeRune_def\<close>)
    qed (use a b in \<open>simp add: decodeRune_def\<close>)
  qed (simp add: decodeRune_def)
  with assms(1) show ?thesis by simp
qed

lemma decodeRune_take: "decodeRune (take 4 bs) = decodeRune bs"
proof -
  show ?thesis
  proof (cases "length bs \<le> 4")
    case False
    then obtain a b c d ds where bs: "bs = a # b # c # d # ds"
      by (auto simp: numeral_eq_Suc not_le Suc_le_eq [symmetric] Suc_le_length_iff)
    have "take 4 (a # b # c # d # ds) = [a, b, c, d]" by (simp add: numeral_eq_Suc)
    then show ?thesis unfolding bs by (simp only: decodeRune_def list.case)
  qed simp
qed

lemma validChars_app: "validChars s \<Longrightarrow> validChars t \<Longrightarrow> validChars (s @ t)"
proof (induction s rule: validChars.induct)
  case (2 c s)
  obtain r w where rw: "decodeRune (map byte_val (take 4 (c # s))) = (r, w)" by fastforce
  with "2.prems"(1) have ok: "\<not> (r = RuneError \<and> w = 1)" "isInCharacterRange r" "validChars (drop (w - 1) s)"
    by (simp_all add: Let_def)
  have full: "decodeRune (byte_val c # map byte_val s) = (r, w)"
    using rw decodeRune_take [of "map byte_val (c # s)"] by (simp add: take_map)
  then have "decodeRune (byte_val c # map byte_val s @ map byte_val t) = (r, w)"
    using ok(1) by (rule decodeRune_extend)
  then have ext: "decodeRune (map byte_val (take 4 (c # s @ t))) = (r, w)"
    using decodeRune_take [of "map byte_val (c # s @ t)"] by (simp add: take_map)
  have "w - 1 \<le> length s"
    using full by (rule decodeRune_cases) auto
  then have "drop (w - 1) (s @ t) = drop (w - 1) s @ t" by simp
  with "2.IH" [OF refl] rw ok ext "2.prems"(2) show ?case by (simp add: Let_def)
qed simp

lemma lower_hex_plain: "is_lower_hex c \<Longrightarrow> 32 \<le> byte_val c \<and> byte_val c < 128"
  by (auto simp: is_lower_hex_def is_digit_def)

lemma digit_plain: "is_digit c \<Longrightarrow> 32 \<le> byte_val c \<and> byte_val c < 128"
  by (auto simp: is_digit_def)

lemma hexEncode_plain: "\<forall>c \<in> set (hexEncode s). 32 \<le> byte_val c \<and> byte_val c < 128"
  using hexEncode_lower lower_hex_plain by (auto simp: list_all_iff)

lemma dec_plain: "\<forall>c \<in> set (dec_of_nat n). 32 \<le> byte_val c \<and> byte_val c < 128"
  using dec_of_nat_digits digit_plain by (auto simp: list_all_iff)

lemma formatCents_plain:
  assumes "- (2 ^ 63) < n"
  shows "\<forall>c \<in> set (formatCents n). 32 \<le> byte_val c \<and> byte_val c < 128"
proof -
  have pos: "\<forall>c \<in> set (formatCents m). 32 \<le> byte_val c \<and> byte_val c < 128" if "0 \<le> m" for m
  proof -
    have "nat m mod 100 < 100" by simp
    then have "list_all is_digit (twoDigits (nat m mod 100))" by (rule twoDigits_props)
    then show ?thesis
      using formatCents_nonneg [OF that] dec_plain digit_plain by (auto simp: list_all_iff)
  qed
  show ?thesis
  proof (cases "n < 0")
    case True
    with pos [of "- n"] formatCents_neg [OF True assms] show ?thesis by simp
  qed (use pos [of n] in simp)
qed

section \<open>Elements pass the check\<close>

fun namesIn :: "string list \<Rightarrow> xml_node \<Rightarrow> bool" where
  "namesIn allowed (CharData s) = True"
| "namesIn allowed (Element n cs) = (n \<in> set allowed \<and> list_all (namesIn allowed) cs)"

lemma checkTokens_inner:
  "namesIn allowed node \<Longrightarrow> 0 < depth \<Longrightarrow>
     checkTokens r allowed depth seen (tokensOf node @ ts) = checkTokens r allowed depth seen ts"
proof (induction node arbitrary: depth seen ts)
  case (Element n cs)
  have "checkTokens r allowed d s (concat (map tokensOf cs) @ us) = checkTokens r allowed d s us" if "0 < d" for d s us
    using Element.IH Element.prems(1) that by (induction cs arbitrary: us) auto
  with Element.prems show ?case by simp
qed simp

lemma checkTokens_root:
  assumes "namesIn allowed (Element n cs)" and "n = r"
  shows "checkTokens r allowed 0 False (tokensOf (Element n cs)) = None"
proof -
  have "checkTokens r allowed 1 True (concat (map tokensOf cs) @ us) = checkTokens r allowed 1 True us" for us
    using assms(1) checkTokens_inner by (induction cs arbitrary: us) auto
  with assms show ?thesis by simp
qed

lemma trimSpace_newline: "trimSpace [char_of (10::nat)] = []"
  by code_simp

lemma validate_document:
  assumes "tidy (Element n cs)" and "namesIn allowed (Element n cs)"
  shows "validateXMLElements (renderXML (Element n cs)) n allowed = Inr (n, cs)"
    and "validateXMLElements (xmlHeader @ renderXML (Element n cs)) n allowed = Inr (n, cs)"
  using decoderTokens_document [OF assms(1)] checkTokens_root [OF assms(2) refl] rootElement_document
  by (simp_all add: validateXMLElements_def trimSpace_newline del: tokensOf.simps)

section \<open>Money and identifiers\<close>

lemma parseInt64_digits:
  assumes "list_all is_digit s" and "s \<noteq> []" and "int (nat_of_dec s) < 2 ^ 63"
  shows "parseInt64 s = Some (int (nat_of_dec s))" and "parseInt64 (CHR ''-'' # s) = Some (- int (nat_of_dec s))"
proof -
  obtain c t where s: "s = c # t" "is_digit c" using assms(1,2) by (cases s) auto
  then have "c \<noteq> CHR ''-''" "c \<noteq> CHR ''+''" by (auto simp: is_digit_def)
  with assms s show "parseInt64 s = Some (int (nat_of_dec s))" and "parseInt64 (CHR ''-'' # s) = Some (- int (nat_of_dec s))"
    by (auto simp: parseInt64_def Let_def int64_def)
qed

lemma nat_of_dec_append: "nat_of_dec (s @ t) = nat_of_dec s * 10 ^ length t + nat_of_dec t"
  by (induction t rule: rev_induct) (simp_all add: append_assoc [symmetric] del: append_assoc)

lemma money_parts:
  assumes "0 \<le> n"
  obtains w f where "formatCents n = w @ CHR ''.'' # f" "list_all is_digit w" "w \<noteq> []" "list_all is_digit f"
    "length f = 2" "int (nat_of_dec (w @ f)) = n"
proof
  let ?w = "dec_of_nat (nat n div 100)" and ?f = "twoDigits (nat n mod 100)"
  have f: "length ?f = 2" "list_all is_digit ?f" "nat_of_dec ?f = nat n mod 100" by (simp_all add: twoDigits_props)
  show "formatCents n = ?w @ CHR ''.'' # ?f" using formatCents_nonneg [OF assms] by simp
  show "list_all is_digit ?w" by (rule dec_of_nat_digits)
  show "?w \<noteq> []" by simp
  show "list_all is_digit ?f" "length ?f = 2" using f by auto
  show "int (nat_of_dec (?w @ ?f)) = n"
    using f assms by (simp add: nat_of_dec_append div_mult_mod_eq)
qed

lemma parse_unsigned:
  assumes "list_all is_digit w" and "w \<noteq> []" and "list_all is_digit f" and "length f = 2"
    and "int (nat_of_dec (w @ f)) < 2 ^ 63"
  shows "parseCents (w @ CHR ''.'' # f) = Some (int (nat_of_dec (w @ f)))"
    and "parseCents (CHR ''-'' # w @ CHR ''.'' # f) = Some (- int (nat_of_dec (w @ f)))"
proof -
  have point: "\<not> is_digit (CHR ''.'')" by code_simp
  have cut: "takeWhile is_digit (w @ CHR ''.'' # f) = w" "dropWhile is_digit (w @ CHR ''.'' # f) = CHR ''.'' # f"
    using assms(1) point by (induction w) auto
  have compact: "remove1 (CHR ''.'') (w @ CHR ''.'' # f) = w @ f"
    using assms(1) point by (induction w) auto
  obtain c t where w: "w = c # t" "c \<noteq> CHR ''-''" "c \<noteq> CHR ''.''"
    using assms(1,2) by (cases w) auto
  have digits: "list_all is_digit (w @ f)" "w @ f \<noteq> []" using assms by auto
  have "moneyMatches (w @ CHR ''.'' # f)" "moneyMatches (CHR ''-'' # w @ CHR ''.'' # f)"
    using cut assms w by (auto simp: moneyMatches_def Let_def)
  then show "parseCents (w @ CHR ''.'' # f) = Some (int (nat_of_dec (w @ f)))"
    and "parseCents (CHR ''-'' # w @ CHR ''.'' # f) = Some (- int (nat_of_dec (w @ f)))"
    using parseInt64_digits [OF digits assms(5)] compact by (simp_all add: parseCents_def)
qed

lemma parseCents_formatCents:
  assumes "- (2 ^ 63) < n" and "n < 2 ^ 63"
  shows "parseCents (formatCents n) = Some n"
proof (cases "0 \<le> n")
  case True
  then show ?thesis
  proof (rule money_parts)
    fix w f assume "formatCents n = w @ CHR ''.'' # f" "list_all is_digit w" "w \<noteq> []" "list_all is_digit f"
      "length f = 2" "int (nat_of_dec (w @ f)) = n"
    with parse_unsigned(1) [of w f] assms show ?thesis by simp
  qed
next
  case False
  then have "0 \<le> - n" by simp
  then show ?thesis
  proof (rule money_parts)
    fix w f assume "formatCents (- n) = w @ CHR ''.'' # f" "list_all is_digit w" "w \<noteq> []" "list_all is_digit f"
      "length f = 2" "int (nat_of_dec (w @ f)) = - n"
    with parse_unsigned(2) [of w f] formatCents_neg [of n] False assms show ?thesis by simp
  qed
qed

section \<open>UTIDs\<close>

definition utidChar :: "nat \<times> char \<Rightarrow> bool" where
  "utidChar ic = (if fst ic \<in> {8, 13, 18, 23} then snd ic = CHR ''-'' else isHexDigit (snd ic))"

lemma utid_block:
  assumes "list_all isHexDigit h" and "\<forall>i \<in> {8, 13, 18, 23}. i < n \<or> n + length h \<le> i"
  shows "list_all utidChar (enumerate n h)"
  using assms(1) assms(2)
proof (induction h arbitrary: n)
  case (Cons c h)
  then have "list_all utidChar (enumerate (Suc n) h)" by auto
  moreover have "n \<notin> {8, 13, 18, 23}" using Cons.prems(2) by auto
  then have "utidChar (n, c)" using Cons.prems(1) by (simp add: utidChar_def)
  ultimately show ?case by simp
qed simp

lemma enumerate_app: "enumerate n (xs @ ys) = enumerate n xs @ enumerate (n + length xs) ys"
  by (induction xs arbitrary: n) auto

lemma hexEncode_hex: "list_all isHexDigit (hexEncode s)"
  using hexEncode_lower [of s] by (auto simp: list_all_iff is_lower_hex_def isHexDigit_def)

lemma uuid_shape:
  assumes "length b = 32"
  shows "length (uuidString b) = 36" and "list_all utidChar (enumerate 0 (uuidString b))"
proof -
  have len: "length (slice 0 4 b) = 4" "length (slice 4 6 b) = 2" "length (slice 6 8 b) = 2"
    "length (slice 8 10 b) = 2" "length (slice 10 16 b) = 6"
    using assms by (simp_all add: slice_def)
  then show "length (uuidString b) = 36" by (simp add: uuidString_def)
  show "list_all utidChar (enumerate 0 (uuidString b))"
    using len by (auto simp: uuidString_def enumerate_app utidChar_def intro!: utid_block hexEncode_hex)
qed

lemma uuid_plain: "\<forall>c \<in> set (uuidString b). 32 \<le> byte_val c \<and> byte_val c < 128"
  using hexEncode_plain by (auto simp: uuidString_def)

lemma utidMatches_batch:
  assumes "length digest = 32"
  shows "utidMatches firm (uuidString digest @ '':IRIS:'' @ firm @ ''::A'')"
  using uuid_shape [OF assms] by (simp add: utidMatches_def utidChar_def [abs_def] case_prod_unfold)

section \<open>The payload\<close>

definition detailOK :: "xmlDetail \<Rightarrow> bool" where
  "detailOK d \<longleftrightarrow> xd_RecordID d \<noteq> '''' \<and> validChars (xd_RecordID d) \<and> validChars (xd_RecipientName d)
     \<and> validChars (xd_RecipientTIN d) \<and> validChars (xd_Compensation d) \<and> validChars (xd_Withholding d)"

lemma names_plain:
  "plainName ''IRTransmission''" "plainName ''IRTransmissionManifest''" "plainName ''UniqueTransmissionId''"
  "plainName ''TransmitterControlCd''" "plainName ''TransmissionTypeCd''" "plainName ''TaxYr''"
  "plainName ''IRSubmission1Grp''" "plainName ''IRSubmission1Header''" "plainName ''SubmissionId''"
  "plainName ''ClientId''" "plainName ''FormTypeCd''" "plainName ''ReportedRcpntFormCnt''"
  "plainName ''Form1099NECDetail''" "plainName ''RecordId''" "plainName ''RecipientNm''"
  "plainName ''RecipientTIN''" "plainName ''NonemployeeCompensationAmt''" "plainName ''FederalIncomeTaxWithheldAmt''"
  by code_simp+

lemma textElement_tidy: "plainName n \<Longrightarrow> validChars s \<Longrightarrow> tidy (textElement n s)"
  by (simp add: textElement_def)

lemma textElement_isElement [simp]: "isElement (textElement n s)"
  by (simp add: textElement_def)

lemma textElement_namesIn [simp]: "namesIn allowed (textElement n s) = (n \<in> set allowed)"
  by (simp add: textElement_def)

lemma transmissionNode_tidy:
  assumes "validChars (xm_UTID m)" "validChars (xm_Transmitter m)" "validChars (xm_TransmissionType m)"
    and "validChars (dec_of_int (xm_TaxYear m))" and "validChars (xh_SubmissionID h)" "validChars (xh_ClientID h)"
    and "validChars (xh_FormType h)" "validChars (dec_of_int (xh_Count h))" and "\<forall>d \<in> set ds. detailOK d"
  shows "tidy (transmissionNode \<lparr>xt_Manifest = m, xt_Header = h, xt_Details = ds\<rparr>)"
    and "namesIn intakeElements (transmissionNode \<lparr>xt_Manifest = m, xt_Header = h, xt_Details = ds\<rparr>)"
proof -
  have "\<forall>d \<in> set ds. tidy (detailNode d)"
    using assms(9) by (auto simp: detailNode_def detailOK_def names_plain intro!: textElement_tidy)
  then show "tidy (transmissionNode \<lparr>xt_Manifest = m, xt_Header = h, xt_Details = ds\<rparr>)"
    using assms(1-8)
    by (simp add: transmissionNode_def names_plain textElement_tidy list_all_iff detailNode_def)
  show "namesIn intakeElements (transmissionNode \<lparr>xt_Manifest = m, xt_Header = h, xt_Details = ds\<rparr>)"
    by (simp add: transmissionNode_def intakeElements_def list_all_iff detailNode_def)
qed

definition detailChildren :: "xmlDetail \<Rightarrow> xml_node list" where
  "detailChildren d = elem_children (detailNode d)"

lemma childrenNamed_details: "childrenNamed ''Form1099NECDetail'' (map detailNode ds) = map detailChildren ds"
  by (induction ds) (auto simp: detailNode_def detailChildren_def)

lemma childrenNamed_other: "n \<noteq> ''Form1099NECDetail'' \<Longrightarrow> childrenNamed n (map detailNode ds) = []"
  by (induction ds) (auto simp: detailNode_def)

lemma stringField_simps [simp]:
  "stringField n [] = []"
  "childrenNamed n cs = [] \<Longrightarrow>
     stringField n (textElement m s # cs) = (if m = n then s else [])"
  "childrenNamed n cs \<noteq> [] \<Longrightarrow> stringField n (textElement m s # cs) = stringField n cs"
  by (auto simp: stringField_def split: list.splits)

lemma detail_fields:
  "stringField ''RecordId'' (detailChildren d) = xd_RecordID d"
  "stringField ''RecipientNm'' (detailChildren d) = xd_RecipientName d"
  "stringField ''RecipientTIN'' (detailChildren d) = xd_RecipientTIN d"
  "stringField ''NonemployeeCompensationAmt'' (detailChildren d) = xd_Compensation d"
  "stringField ''FederalIncomeTaxWithheldAmt'' (detailChildren d) = xd_Withholding d"
  by (simp_all add: detailChildren_def detailNode_def)

lemma decodeRecords_details:
  assumes "distinct (map xd_RecordID ds)" and "set (map xd_RecordID ds) \<inter> set seen = {}"
    and "\<forall>d \<in> set ds. xd_RecordID d \<noteq> '''' \<and> xd_Compensation d \<noteq> '''' \<and> xd_Withholding d \<noteq> ''''
           \<and> parseCents (xd_Compensation d) = Some (amt d) \<and> parseCents (xd_Withholding d) = Some (wth d)"
  shows "decodeRecords seen (map detailChildren ds)
    = Inr (map (\<lambda>d. \<lparr>fr_recordID = xd_RecordID d, fr_recipientName = xd_RecipientName d,
        fr_recipientTIN = xd_RecipientTIN d, fr_amountCents = amt d, fr_withholdingCents = wth d\<rparr>) ds)"
  using assms
proof (induction ds arbitrary: seen)
  case (Cons d ds)
  then have "decodeRecords (xd_RecordID d # seen) (map detailChildren ds)
    = Inr (map (\<lambda>d. \<lparr>fr_recordID = xd_RecordID d, fr_recipientName = xd_RecipientName d,
        fr_recipientTIN = xd_RecipientTIN d, fr_amountCents = amt d, fr_withholdingCents = wth d\<rparr>) ds)"
    by (intro Cons.IH) auto
  with Cons.prems show ?case by (simp add: detail_fields Let_def)
qed simp

lemma intOf_dec: "int n < 2 ^ 63 \<Longrightarrow> intOf (dec_of_nat n) = Some (int n)"
  using parseInt64_digits(1) [of "dec_of_nat n"] dec_of_nat_digits [of n]
  by (simp add: intOf_def trimSpace_digits)

lemma year_2025: "dec_of_int 2025 = ''2025''"
proof -
  have "dec_of_int 2025 = map digit [2, 0, 2, 5]" by (simp add: dec_of_int_def dec_of_nat.simps)
  also have "\<dots> = ''2025''" by code_simp
  finally show ?thesis .
qed

text \<open>A canonical payload decodes to what it was made of.\<close>

lemma decode_canonical:
  assumes "validChars firm" "firm \<noteq> ''''" "validChars client" "client \<noteq> ''''"
    and "utidMatches firm utid" "validChars utid" "utid \<noteq> ''''"
    and "ds \<noteq> []" "length ds \<le> 100" "distinct (map xd_RecordID ds)" "\<forall>d \<in> set ds. detailOK d"
    and "\<forall>d \<in> set ds. xd_Compensation d \<noteq> '''' \<and> xd_Withholding d \<noteq> ''''
           \<and> parseCents (xd_Compensation d) = Some (amt d) \<and> parseCents (xd_Withholding d) = Some (wth d)"
  shows "decodeTransmission (canonicalXML firm client 2025 utid ds digest)
    = Inr \<lparr>tx_firmID = firm, tx_clientID = client, tx_taxYear = ''2025'', tx_utid = utid,
        tx_submissionID = ''SUB-'' @ toUpperASCII (hexEncode (slice 0 12 digest)),
        tx_records = map (\<lambda>d. \<lparr>fr_recordID = xd_RecordID d, fr_recipientName = xd_RecipientName d,
          fr_recipientTIN = xd_RecipientTIN d, fr_amountCents = amt d, fr_withholdingCents = wth d\<rparr>) ds\<rparr>"
proof -
  let ?sub = "''SUB-'' @ toUpperASCII (hexEncode (slice 0 12 digest))"
  let ?m = "\<lparr>xm_UTID = utid, xm_Transmitter = firm, xm_TransmissionType = ''O'', xm_TaxYear = 2025\<rparr>"
  let ?h = "\<lparr>xh_SubmissionID = ?sub, xh_ClientID = client, xh_FormType = ''1099-NEC'', xh_Count = int (length ds)\<rparr>"
  let ?count = "dec_of_int (int (length ds))"
  have upper: "\<forall>c \<in> set (toUpperASCII (hexEncode x)). 32 \<le> byte_val c \<and> byte_val c < 128" for x
    using hexEncode_plain [of x] by (auto simp: toUpperASCII_def)
  have year: "dec_of_int 2025 = ''2025''" by (rule year_2025)
  have fixed: "validChars ''O''" "validChars ''1099-NEC''" "validChars ''2025''" by (rule validChars_plain, simp)+
  have sub_ok: "validChars ?sub" using upper by (intro validChars_plain) auto
  have count: "?count = dec_of_nat (length ds)" by (simp add: dec_of_int_def)
  have count_ok: "validChars ?count" unfolding count using dec_plain by (intro validChars_plain) auto
  let ?t = "transmissionNode \<lparr>xt_Manifest = ?m, xt_Header = ?h, xt_Details = ds\<rparr>"
  obtain cs where t: "?t = Element ''IRTransmission'' cs" by (simp add: transmissionNode_def)
  have node: "tidy ?t" "namesIn intakeElements ?t"
    using assms(1,3,6,11) fixed sub_ok count_ok year by (intro transmissionNode_tidy; simp)+
  have payload: "canonicalXML firm client 2025 utid ds digest = xmlHeader @ renderXML ?t"
    by (simp add: canonicalXML_def canonicalTransmission_def)
  have valid: "validateXMLElements (canonicalXML firm client 2025 utid ds digest) ''IRTransmission'' intakeElements
      = Inr (''IRTransmission'', cs)"
    unfolding payload t using validate_document(2) node [unfolded t] by blast
  let ?mf = "[textElement ''UniqueTransmissionId'' utid, textElement ''TransmitterControlCd'' firm,
         textElement ''TransmissionTypeCd'' ''O'', textElement ''TaxYr'' ''2025'']"
  let ?hd = "[textElement ''SubmissionId'' ?sub, textElement ''ClientId'' client,
            textElement ''FormTypeCd'' ''1099-NEC'', textElement ''ReportedRcpntFormCnt'' ?count]"
  let ?sb = "Element ''IRSubmission1Header'' ?hd # map detailNode ds"
  have cs: "cs = [Element ''IRTransmissionManifest'' ?mf, Element ''IRSubmission1Grp'' ?sb]"
    using t year by (simp add: transmissionNode_def)
  have n: "int (length ds) < 2 ^ 63" "dec_of_nat (length ds) \<noteq> []" using assms(9) by auto
  have recs: "decodeRecords [] (map detailChildren ds) = Inr (map (\<lambda>d. \<lparr>fr_recordID = xd_RecordID d,
      fr_recipientName = xd_RecipientName d, fr_recipientTIN = xd_RecipientTIN d, fr_amountCents = amt d,
      fr_withholdingCents = wth d\<rparr>) ds)"
    using assms(10-12) by (intro decodeRecords_details) (auto simp: detailOK_def)
  have "intField ''ReportedRcpntFormCnt'' [textElement ''SubmissionId'' ?sub, textElement ''ClientId'' client,
            textElement ''FormTypeCd'' ''1099-NEC'', textElement ''ReportedRcpntFormCnt'' ?count] = Some (int (length ds))"
    using intOf_dec [OF n(1)] n(2) by (simp add: intField_def count)
  then have count_field: "intField ''ReportedRcpntFormCnt'' ?hd = Some (int (length ds))" .
  have manifests: "childrenNamed ''IRTransmissionManifest'' cs = [?mf]"
    and submissions: "childrenNamed ''IRSubmission1Grp'' cs = [?sb]"
    by (simp_all add: cs)
  have headers: "headersOf ?sb = [?hd]" and details: "childrenNamed ''Form1099NECDetail'' ?sb = map detailChildren ds"
    by (simp_all add: headersOf_def childrenNamed_other childrenNamed_details)
  have readable: "countsReadable [?sb]"
    unfolding countsReadable_def list.pred_inject headers count_field by simp
  have fields: "stringField ''UniqueTransmissionId'' ?mf = utid" "stringField ''TransmitterControlCd'' ?mf = firm"
    "stringField ''TransmissionTypeCd'' ?mf = ''O''" "stringField ''TaxYr'' ?mf = ''2025''"
    "stringField ''SubmissionId'' ?hd = ?sub" "stringField ''ClientId'' ?hd = client"
    "stringField ''FormTypeCd'' ?hd = ''1099-NEC''"
    by simp_all
  have sizes: "1 \<le> length ds" using assms(8) by (cases ds) auto
  show ?thesis
    unfolding decodeTransmission_def valid sum.case prod.case Let_def manifests submissions list.case headers details
    using assms(2,4,5,7-9) sizes readable by (simp only: fields recs count_field) simp
qed

section \<open>Batches\<close>

text \<open>What a filing needs to cross the wire unchanged: characters XML can carry and amounts other
  than the least 64-bit integer.\<close>

definition wireOK :: "plannedFiling \<Rightarrow> bool" where
  "wireOK f \<longleftrightarrow> pf_key f \<noteq> '''' \<and> validChars (pf_vendorDisplayName f) \<and> validChars (pf_recipientTIN f)
     \<and> - (2 ^ 63) < pf_reportableCents f \<and> pf_reportableCents f < 2 ^ 63
     \<and> - (2 ^ 63) < pf_withholdingCents f \<and> pf_withholdingCents f < 2 ^ 63"

definition wireRecord :: "plannedFiling \<Rightarrow> filingRecord" where
  "wireRecord f = \<lparr>fr_recordID = filingKeyString (pf_key f), fr_recipientName = pf_vendorDisplayName f,
     fr_recipientTIN = pf_recipientTIN f, fr_amountCents = pf_reportableCents f,
     fr_withholdingCents = pf_withholdingCents f\<rparr>"

lemma hexEncode_nonempty: "hexEncode s \<noteq> '''' \<longleftrightarrow> s \<noteq> ''''"
  by (cases s) auto

lemma formatCents_nonempty: "formatCents n \<noteq> ''''"
  by (simp add: formatCents_def Let_def)

text \<open>The amounts are recovered from the detail itself, so that details can stand for filings.\<close>

definition centsOf :: "string \<Rightarrow> int" where
  "centsOf s = (case parseCents s of None \<Rightarrow> 0 | Some n \<Rightarrow> n)"

lemma groupDetail_wire:
  assumes "wireOK f"
  shows "detailOK (groupDetail f)"
    and "parseCents (xd_Compensation (groupDetail f)) = Some (centsOf (xd_Compensation (groupDetail f)))"
    and "parseCents (xd_Withholding (groupDetail f)) = Some (centsOf (xd_Withholding (groupDetail f)))"
    and "centsOf (xd_Compensation (groupDetail f)) = pf_reportableCents f"
    and "centsOf (xd_Withholding (groupDetail f)) = pf_withholdingCents f"
  using assms validChars_plain [OF hexEncode_plain] validChars_plain [OF formatCents_plain]
    parseCents_formatCents
  by (simp_all add: wireOK_def groupDetail_def detailOK_def filingKeyString_def centsOf_def hexEncode_nonempty)

lemma group_decodes:
  assumes "groupOK grp" and "\<forall>f \<in> set grp. wireOK f" and "distinct (map pf_key grp)"
    and "validChars firmID" and "firmID \<noteq> ''''" and "pf_taxYear (hd grp) = 2025"
    and "validChars (pf_clientID (hd grp))" and "pf_clientID (hd grp) \<noteq> ''''"
  shows "\<exists>submissionID. decodeTransmission (groupXML firmID grp) = Inr \<lparr>tx_firmID = firmID,
      tx_clientID = pf_clientID (hd grp), tx_taxYear = ''2025'', tx_utid = groupUTID firmID grp,
      tx_submissionID = submissionID, tx_records = map wireRecord grp\<rparr>"
proof -
  let ?ds = "map groupDetail grp" and ?client = "pf_clientID (hd grp)"
  obtain digest utid where id: "batchIdentity firmID ?client 2025 (map pf_key grp) = (digest, utid)" by fastforce
  then have utid: "utid = uuidString digest @ '':IRIS:'' @ firmID @ ''::A''" and len: "length digest = 32"
    by (auto simp: batchIdentity_def Let_def setUUIDBits_def hashSequence_def)
  have xml: "groupXML firmID grp = canonicalXML firmID ?client 2025 utid ?ds digest" and u: "groupUTID firmID grp = utid"
    using id assms(6) by (simp_all add: groupXML_def groupUTID_def)
  have "validChars (uuidString digest @ '':IRIS:'' @ firmID @ ''::A'')"
    by (intro validChars_app validChars_plain uuid_plain assms(4)) simp_all
  moreover have "inj_on hexEncode (set (map pf_key grp))" by (simp add: inj_on_def)
  then have "distinct (map hexEncode (map pf_key grp))" using assms(3) by (simp only: distinct_map [of hexEncode])
  then have "distinct (map xd_RecordID ?ds)" by (simp add: comp_def groupDetail_def filingKeyString_def)
  moreover have "?ds \<noteq> []" "length ?ds \<le> 100" using assms(1) by (auto simp: groupOK_def)
  ultimately have "decodeTransmission (groupXML firmID grp) = Inr \<lparr>tx_firmID = firmID,
      tx_clientID = ?client, tx_taxYear = ''2025'', tx_utid = utid,
      tx_submissionID = ''SUB-'' @ toUpperASCII (hexEncode (slice 0 12 digest)),
      tx_records = map (\<lambda>d. \<lparr>fr_recordID = xd_RecordID d, fr_recipientName = xd_RecipientName d,
          fr_recipientTIN = xd_RecipientTIN d, fr_amountCents = centsOf (xd_Compensation d),
          fr_withholdingCents = centsOf (xd_Withholding d)\<rparr>) ?ds\<rparr>"
    unfolding xml using assms(2,4,5,7,8) utidMatches_batch [OF len, of firmID] groupDetail_wire(1-3)
    by (intro decode_canonical) (auto simp: utid groupDetail_def formatCents_nonempty)
  moreover have "map (\<lambda>d. \<lparr>fr_recordID = xd_RecordID d, fr_recipientName = xd_RecipientName d,
          fr_recipientTIN = xd_RecipientTIN d, fr_amountCents = centsOf (xd_Compensation d),
          fr_withholdingCents = centsOf (xd_Withholding d)\<rparr>) ?ds = map wireRecord grp"
    using assms(2) groupDetail_wire(4,5) by (auto simp: wireRecord_def groupDetail_def)
  ultimately show ?thesis using u by simp
qed

text \<open>C35. The payload means what was planned: for a group of filings whose texts XML can carry,
  the stub decodes the payload the store rendered to a transmission of the same firm, client and
  UTID with one record per filing, in order, with the same identity, TIN and amounts.\<close>

theorem payload_decodes:
  assumes "groupOK grp" and "\<forall>f \<in> set grp. wireOK f" and "distinct (map pf_key grp)"
    and "validChars firmID" and "firmID \<noteq> ''''" and "pf_taxYear (hd grp) = 2025"
    and "validChars (pf_clientID (hd grp))" and "pf_clientID (hd grp) \<noteq> ''''"
  shows "\<exists>submissionID. decodeTransmission (groupXML firmID grp) = Inr \<lparr>tx_firmID = firmID,
      tx_clientID = pf_clientID (hd grp), tx_taxYear = ''2025'', tx_utid = groupUTID firmID grp,
      tx_submissionID = submissionID, tx_records = map wireRecord grp\<rparr>"
  by (rule group_decodes [OF assms])

section \<open>Witness\<close>

definition wireSample :: plannedFiling where
  "wireSample = \<lparr>pf_id = 1, pf_clientID = ''c1'', pf_taxYear = 2025, pf_key = replicate 32 (CHR ''k''),
     pf_vendorDisplayName = ''Smith & Sons <LLC>'', pf_recipientTIN = ''123456789'',
     pf_reportableCents = 60000, pf_withholdingCents = 0\<rparr>"

theorem payload_decodes_witness:
  "\<exists>submissionID. decodeTransmission (groupXML ''acme'' [wireSample]) = Inr \<lparr>tx_firmID = ''acme'',
      tx_clientID = ''c1'', tx_taxYear = ''2025'', tx_utid = groupUTID ''acme'' [wireSample],
      tx_submissionID = submissionID, tx_records = [wireRecord wireSample]\<rparr>"
proof -
  have "validChars ''Smith & Sons <LLC>''" "validChars ''123456789''" "validChars ''acme''" "validChars ''c1''"
    by (rule validChars_plain, simp)+
  then show ?thesis
    using payload_decodes [of "[wireSample]" "''acme''"]
    by (simp add: groupOK_def wireOK_def wireSample_def)
qed

end
