(* ===== verification/Irs_Idempotence.thy ===== *)
theory Irs_Idempotence
  imports Irs_Store
begin

text \<open>
  What the stub's store promises its clients: at most one recorded filing per original
  record key, recorded submissions that never change, lookups that agree, faults that
  either record everything or nothing, and results that follow the published reason codes.
  The contract a client relies on is the locale \<open>idempotent_receiver\<close>; the store is its
  interpretation.
\<close>

section \<open>The receiver's contract\<close>

locale idempotent_receiver =
  fixes deliver :: "'e \<Rightarrow> 't \<Rightarrow> 's \<Rightarrow> ('s \<times> 'r) option"
    and ref :: "'t \<Rightarrow> 'k"
    and lookup :: "'s \<Rightarrow> 'k \<Rightarrow> 'x option"
    and items :: "'x \<Rightarrow> 'i list"
    and inv :: "'s \<Rightarrow> bool"
    and ok :: "'t \<Rightarrow> bool"
  assumes inv_deliver: "inv s \<Longrightarrow> ok t \<Longrightarrow> deliver e t s = Some (s', r) \<Longrightarrow> inv s'"
    and frozen: "deliver e t s = Some (s', r) \<Longrightarrow> lookup s k = Some x \<Longrightarrow> lookup s' k = Some x"
    and known_ref: "lookup s (ref t) = Some x \<Longrightarrow> deliver e t s = Some (s', r) \<Longrightarrow> s' = s"
    and only_ref: "deliver e t s = Some (s', r) \<Longrightarrow> lookup s k = None \<Longrightarrow> lookup s' k = Some x
                     \<Longrightarrow> k = ref t"
    and unique: "inv s \<Longrightarrow> lookup s k = Some x \<Longrightarrow> lookup s l = Some y \<Longrightarrow>
                   i \<in> set (items x) \<Longrightarrow> i \<in> set (items y) \<Longrightarrow> k = l"
    and no_repeat: "inv s \<Longrightarrow> lookup s k = Some x \<Longrightarrow> distinct (items x)"

text \<open>A receiver handling a sequence of deliveries, each with its own environment.\<close>

fun deliverAll :: "('e \<Rightarrow> 't \<Rightarrow> 's \<Rightarrow> ('s \<times> 'r) option) \<Rightarrow> ('e \<times> 't) list \<Rightarrow> 's \<Rightarrow> 's option" where
  "deliverAll d [] s = Some s"
| "deliverAll d ((e, t) # ets) s =
     (case d e t s of None \<Rightarrow> None | Some (s', _) \<Rightarrow> deliverAll d ets s')"

context idempotent_receiver
begin

lemma deliverAll_inv:
  "deliverAll deliver ets s = Some s' \<Longrightarrow> inv s \<Longrightarrow> \<forall>(e, t) \<in> set ets. ok t \<Longrightarrow> inv s'"
proof (induction ets arbitrary: s)
  case (Cons et ets)
  then show ?case
    by (cases et) (auto split: option.splits prod.splits intro: inv_deliver)
qed simp

lemma deliverAll_frozen:
  "deliverAll deliver ets s = Some s' \<Longrightarrow> lookup s k = Some x \<Longrightarrow> lookup s' k = Some x"
proof (induction ets arbitrary: s)
  case (Cons et ets)
  then show ?case
    by (cases et) (auto split: option.splits prod.splits dest: frozen)
qed simp

lemma redelivery_no_effect:
  assumes "lookup s (ref t) = Some x" and "\<forall>(e', t') \<in> set ets. ref t' = ref t"
    and "deliverAll deliver ets s = Some s'"
  shows "s' = s"
  using assms
proof (induction ets)
  case (Cons et ets)
  obtain e t' where et: "et = (e, t')" by (cases et)
  from Cons.prems et obtain s1 r where d: "deliver e t' s = Some (s1, r)"
    and rest: "deliverAll deliver ets s1 = Some s'"
    by (auto split: option.splits)
  from Cons.prems et have "lookup s (ref t') = Some x" by auto
  from known_ref [OF this d] have "s1 = s" .
  with rest Cons show ?case by simp
qed simp


end

section \<open>The store's invariant\<close>

definition submissionKeys :: "submission \<Rightarrow> originalRecordKey list" where
  "submissionKeys x =
     map (\<lambda>r. (sub_firmID x, sub_clientID x, sub_taxYear x, rr_recordID r)) (sub_results x)"

definition utid_index_ok :: "irs_store \<Rightarrow> bool" where
  "utid_index_ok s \<longleftrightarrow> (\<forall>f u x. submissionsByFirmAndUTID s (f, u) = Some x \<longrightarrow>
     sub_firmID x = f \<and> sub_utid x = u \<and> submissionsByReceiptID s (sub_receiptID x) = Some x)"

definition receipt_index_ok :: "irs_store \<Rightarrow> bool" where
  "receipt_index_ok s \<longleftrightarrow> (\<forall>r x. submissionsByReceiptID s r = Some x \<longrightarrow>
     sub_receiptID x = r \<and> r \<in> generatedIDs s
     \<and> submissionsByFirmAndUTID s (sub_firmID x, sub_utid x) = Some x)"

definition keys_ok :: "irs_store \<Rightarrow> bool" where
  "keys_ok s \<longleftrightarrow>
     (\<forall>p x. submissionsByFirmAndUTID s p = Some x \<longrightarrow>
        distinct (submissionKeys x) \<and> set (submissionKeys x) \<subseteq> originalRecords s) \<and>
     (\<forall>p q x y. submissionsByFirmAndUTID s p = Some x \<longrightarrow> submissionsByFirmAndUTID s q = Some y \<longrightarrow>
        p \<noteq> q \<longrightarrow> set (submissionKeys x) \<inter> set (submissionKeys y) = {})"

definition irs_inv :: "irs_store \<Rightarrow> bool" where
  "irs_inv s \<longleftrightarrow> utid_index_ok s \<and> receipt_index_ok s \<and> keys_ok s"

definition distinctRecords :: "transmission \<Rightarrow> bool" where
  "distinctRecords t \<longleftrightarrow> distinct (map fr_recordID (tx_records t))"

lemma irs_inv_newStore: "irs_inv (newStore config)"
  by (simp add: irs_inv_def utid_index_ok_def receipt_index_ok_def keys_ok_def newStore_def)

lemma newOpaqueID_fresh:
  "newOpaqueID pre bs ids = Some (i, bs', ids') \<Longrightarrow>
     i \<notin> ids \<and> ids' = insert i ids \<and> hasPrefix i pre"
  by (induction pre bs ids rule: newOpaqueID.induct) (auto simp: Let_def split: if_splits)

lemma resultFor_facts:
  "resultFor r bs ids = Some (x, bs', ids') \<Longrightarrow> rr_recordID x = fr_recordID r \<and> ids \<subseteq> ids'"
  by (auto simp: resultFor_def Let_def split: if_splits option.splits dest: newOpaqueID_fresh)

lemma resultsFor_facts:
  "resultsFor rs bs ids = Some (xs, bs', ids') \<Longrightarrow>
     map rr_recordID xs = map fr_recordID rs \<and> ids \<subseteq> ids'"
proof (induction rs arbitrary: bs ids xs)
  case (Cons r rs)
  then show ?case
    by (fastforce split: option.splits dest: resultFor_facts)
qed simp

lemma recordedSubmission_simps [simp]:
  "sub_receiptID (recordedSubmission env c t rid xs) = rid"
  "sub_utid (recordedSubmission env c t rid xs) = tx_utid t"
  "sub_firmID (recordedSubmission env c t rid xs) = tx_firmID t"
  "sub_clientID (recordedSubmission env c t rid xs) = tx_clientID t"
  "sub_taxYear (recordedSubmission env c t rid xs) = tx_taxYear t"
  "sub_results (recordedSubmission env c t rid xs) = xs"
  by (simp_all add: recordedSubmission_def Let_def)

lemma submissionKeys_recorded:
  assumes "map rr_recordID xs = map fr_recordID (tx_records t)"
  shows "submissionKeys (recordedSubmission env c t rid xs) = map (originalKey t) (tx_records t)"
  using arg_cong [OF assms, of "map (\<lambda>i. (tx_firmID t, tx_clientID t, tx_taxYear t, i))"]
  by (simp add: submissionKeys_def originalKey_def o_def)

text \<open>The two outcomes of an intake call: nothing changed, or one new submission.\<close>

definition newSubmission :: "transmission \<Rightarrow> irs_store \<Rightarrow> submission \<Rightarrow> string set \<Rightarrow> bool" where
  "newSubmission t s x ids \<longleftrightarrow>
     submissionsByFirmAndUTID s (tx_firmID t, tx_utid t) = None \<and>
     (\<forall>r \<in> set (tx_records t). originalKey t r \<notin> originalRecords s) \<and>
     sub_receiptID x \<notin> generatedIDs s \<and>
     sub_utid x = tx_utid t \<and> sub_firmID x = tx_firmID t \<and>
     submissionKeys x = map (originalKey t) (tx_records t) \<and>
     insert (sub_receiptID x) (generatedIDs s) \<subseteq> ids"

lemma storeRecord_cases:
  assumes "storeRecord env t s = Some (s', r)"
  obtains (same) "s' = s" "r = Inl errDuplicateUTID \<or> r = Inl errDuplicateRecord
                             \<or> r = Inr ('''', failBeforeRecord)"
  | (new) x fault ids where "r = Inr (sub_receiptID x, fault)" "fault \<noteq> failBeforeRecord"
      "newSubmission t s x ids" "s' = storeSubmission t x ids s"
      "\<exists>xs. x = recordedSubmission env (st_config s) t (sub_receiptID x) xs"
proof -
  let ?f = "classifyIntakeFault (env_fault env * 100)
              (FailBeforeRecordPercent (st_config s)) (FailAfterRecordPercent (st_config s))"
  let ?dup = "list_ex (\<lambda>q. originalKey t q \<in> originalRecords s) (tx_records t)"
  show thesis
  proof (cases "submissionsByFirmAndUTID s (tx_firmID t, tx_utid t) \<noteq> None \<or> ?dup \<or> ?f = failBeforeRecord")
    case True
    with assms show thesis
      by (intro same) (auto simp: storeRecord_def Let_def split: if_splits)
  next
    case False
    then have u: "submissionsByFirmAndUTID s (tx_firmID t, tx_utid t) = None"
      and k: "\<not> ?dup" and f: "?f \<noteq> failBeforeRecord" by auto
    from assms u k f obtain rid bs ids where
      n: "newOpaqueID ''rcpt_'' (env_blocks env) (generatedIDs s) = Some (rid, bs, ids)"
      by (simp add: storeRecord_def Let_def split: option.splits prod.splits)
    from assms u k f n obtain xs bs' ids' where
      m: "resultsFor (tx_records t) bs ids = Some (xs, bs', ids')"
      by (simp add: storeRecord_def Let_def split: option.splits prod.splits)
    let ?x = "recordedSubmission env (st_config s) t rid xs"
    from assms u k f n m have r: "r = Inr (rid, ?f)" and s': "s' = storeSubmission t ?x ids' s"
      by (simp_all add: storeRecord_def Let_def)
    from newOpaqueID_fresh [OF n] resultsFor_facts [OF m] u k
    have "newSubmission t s ?x ids'"
      by (auto simp: newSubmission_def submissionKeys_recorded list_ex_iff)
    moreover have "\<exists>xs. ?x = recordedSubmission env (st_config s) t (sub_receiptID ?x) xs"
      by (rule exI [of _ xs]) simp
    ultimately show thesis
      using r f s' new [of ?x ?f ids'] by simp
  qed
qed

lemma storeSubmission_simps [simp]:
  "submissionsByFirmAndUTID (storeSubmission t x ids s) =
     (submissionsByFirmAndUTID s)((tx_firmID t, tx_utid t) \<mapsto> x)"
  "submissionsByReceiptID (storeSubmission t x ids s) = (submissionsByReceiptID s)(sub_receiptID x \<mapsto> x)"
  "originalRecords (storeSubmission t x ids s) =
     set (map (originalKey t) (tx_records t)) \<union> originalRecords s"
  "generatedIDs (storeSubmission t x ids s) = ids"
  "st_config (storeSubmission t x ids s) = st_config s"
  by (simp_all add: storeSubmission_def)

lemma irs_inv_utidD:
  assumes "irs_inv s" and "submissionsByFirmAndUTID s (f, u) = Some x"
  shows "sub_firmID x = f" and "sub_utid x = u" and "submissionsByReceiptID s (sub_receiptID x) = Some x"
  using assms unfolding irs_inv_def utid_index_ok_def by blast+

lemma irs_inv_receiptD:
  assumes "irs_inv s" and "submissionsByReceiptID s r = Some x"
  shows "sub_receiptID x = r" and "r \<in> generatedIDs s"
    and "submissionsByFirmAndUTID s (sub_firmID x, sub_utid x) = Some x"
  using assms unfolding irs_inv_def receipt_index_ok_def by blast+

lemma irs_inv_keysD:
  assumes "irs_inv s" and "submissionsByFirmAndUTID s p = Some x"
  shows "distinct (submissionKeys x)" and "set (submissionKeys x) \<subseteq> originalRecords s"
  using assms unfolding irs_inv_def keys_ok_def by blast+

lemma irs_inv_apartD:
  assumes "irs_inv s" and "submissionsByFirmAndUTID s p = Some x"
    and "submissionsByFirmAndUTID s q = Some y" and "p \<noteq> q"
  shows "set (submissionKeys x) \<inter> set (submissionKeys y) = {}"
  using assms unfolding irs_inv_def keys_ok_def by blast

lemma new_receipt_unused:
  assumes "irs_inv s" and "newSubmission t s x ids"
  shows "submissionsByReceiptID s (sub_receiptID x) = None"
  using irs_inv_receiptD(2) [OF assms(1)] assms(2)
  by (cases "submissionsByReceiptID s (sub_receiptID x)") (auto simp: newSubmission_def)

lemma new_utid_index:
  assumes inv: "irs_inv s" and new: "newSubmission t s x ids"
  shows "utid_index_ok (storeSubmission t x ids s)"
proof -
  have "sub_receiptID y \<noteq> sub_receiptID x" if "submissionsByFirmAndUTID s (f, u) = Some y" for f u y
    using irs_inv_utidD(3) [OF inv that] new_receipt_unused [OF inv new] by auto
  with irs_inv_utidD [OF inv] new show ?thesis
    by (simp add: utid_index_ok_def newSubmission_def)
qed

lemma new_receipt_index:
  assumes inv: "irs_inv s" and new: "newSubmission t s x ids"
  shows "receipt_index_ok (storeSubmission t x ids s)"
proof -
  have "(sub_firmID y, sub_utid y) \<noteq> (tx_firmID t, tx_utid t)"
    if "submissionsByReceiptID s r = Some y" for r y
    using irs_inv_receiptD(3) [OF inv that] new by (metis newSubmission_def option.distinct(1))
  moreover have "r \<in> ids" if "submissionsByReceiptID s r = Some y" for r y
    using irs_inv_receiptD(2) [OF inv that] new by (auto simp: newSubmission_def)
  ultimately show ?thesis
    using irs_inv_receiptD [OF inv] new by (auto simp: receipt_index_ok_def newSubmission_def)
qed

lemma new_keys:
  assumes inv: "irs_inv s" and ok: "distinctRecords t" and new: "newSubmission t s x ids"
  shows "keys_ok (storeSubmission t x ids s)"
proof -
  have x: "submissionKeys x = map (originalKey t) (tx_records t)"
    using new by (simp add: newSubmission_def)
  have dist: "distinct (submissionKeys x)"
    using ok unfolding x distinctRecords_def originalKey_def by (auto simp: distinct_map inj_on_def)
  have noOld: "set (submissionKeys x) \<inter> originalRecords s = {}"
    using new x by (auto simp: newSubmission_def)
  note old = irs_inv_keysD [OF inv]
  have apart: "set (submissionKeys x) \<inter> set (submissionKeys y) = {}"
    if "submissionsByFirmAndUTID s q = Some y" for q y
    using old(2) [OF that] noOld by blast
  note pairs = irs_inv_apartD [OF inv]
  show ?thesis
    unfolding keys_ok_def
  proof (intro conjI allI impI)
    fix p y assume y: "submissionsByFirmAndUTID (storeSubmission t x ids s) p = Some y"
    show "distinct (submissionKeys y)"
      using y dist old(1) by (auto split: if_splits)
    show "set (submissionKeys y) \<subseteq> originalRecords (storeSubmission t x ids s)"
    proof (cases "p = (tx_firmID t, tx_utid t)")
      case True
      with y x show ?thesis by simp
    next
      case False
      with y old(2) [of p y] show ?thesis by (simp add: le_supI2)
    qed
  next
    fix p q y z
    assume "submissionsByFirmAndUTID (storeSubmission t x ids s) p = Some y"
      and "submissionsByFirmAndUTID (storeSubmission t x ids s) q = Some z" and "p \<noteq> q"
    then show "set (submissionKeys y) \<inter> set (submissionKeys z) = {}"
      using apart [of q z] apart [of p y] pairs [of p y q z] by (simp add: Int_commute split: if_splits)
  qed
qed

lemma newSubmission_inv:
  assumes "irs_inv s" and "distinctRecords t" and "newSubmission t s x ids"
  shows "irs_inv (storeSubmission t x ids s)"
  using assms new_utid_index new_receipt_index new_keys by (simp add: irs_inv_def)

lemma storeRecord_inv:
  assumes "irs_inv s" and "distinctRecords t" and "storeRecord env t s = Some (s', r)"
  shows "irs_inv s'"
  using assms(3) newSubmission_inv [OF assms(1,2)] assms(1) by (cases rule: storeRecord_cases) auto

section \<open>The store as a receiver\<close>

definition utidKey :: "transmission \<Rightarrow> firmUTID" where
  "utidKey t = (tx_firmID t, tx_utid t)"

interpretation irs: idempotent_receiver storeRecord utidKey submissionsByFirmAndUTID
    submissionKeys irs_inv distinctRecords
proof
  fix e t s s' k x and r :: "irs_error + (string \<times> intakeFault)"
  assume rec: "storeRecord e t s = Some (s', r)"
  show "submissionsByFirmAndUTID s' k = Some x" if "submissionsByFirmAndUTID s k = Some x"
    using rec that by (cases rule: storeRecord_cases) (auto simp: newSubmission_def)
  show "k = utidKey t" if "submissionsByFirmAndUTID s k = None" "submissionsByFirmAndUTID s' k = Some x"
    using rec that by (cases rule: storeRecord_cases) (auto simp: utidKey_def split: if_splits)
next
  fix e t s s' x and r :: "irs_error + (string \<times> intakeFault)"
  assume "submissionsByFirmAndUTID s (utidKey t) = Some x" and "storeRecord e t s = Some (s', r)"
  then show "s' = s" by (simp add: storeRecord_def utidKey_def)
next
  fix s k x l y i
  assume "irs_inv s" "submissionsByFirmAndUTID s k = Some x" "submissionsByFirmAndUTID s l = Some y"
    "i \<in> set (submissionKeys x)" "i \<in> set (submissionKeys y)"
  then show "k = l" using irs_inv_apartD [of s k x l y] by blast
qed (auto intro: storeRecord_inv irs_inv_keysD)

inductive irs_reachable :: "IrsConfig \<Rightarrow> irs_store \<Rightarrow> bool" for config where
  start: "irs_reachable config (newStore config)"
| intake: "irs_reachable config s \<Longrightarrow> distinctRecords t \<Longrightarrow> storeRecord env t s = Some (s', r)
    \<Longrightarrow> irs_reachable config s'"

lemma irs_reachable_inv: "irs_reachable config s \<Longrightarrow> irs_inv s"
  by (induction rule: irs_reachable.induct) (auto intro: irs_inv_newStore storeRecord_inv)

section \<open>Entropy that suffices\<close>

definition freshBlocks :: "bytes list \<Rightarrow> string set \<Rightarrow> bool" where
  "freshBlocks bs ids \<longleftrightarrow> distinct bs \<and>
     (\<forall>b \<in> set bs. ''rcpt_'' @ hexEncode b \<notin> ids \<and> ''irsrec_'' @ hexEncode b \<notin> ids)"

lemma freshBlocks_next:
  assumes "freshBlocks (b # bs) ids" and "pre = ''rcpt_'' \<or> pre = ''irsrec_''"
  shows "newOpaqueID pre (b # bs) ids = Some (pre @ hexEncode b, bs, insert (pre @ hexEncode b) ids)"
    and "freshBlocks bs (insert (pre @ hexEncode b) ids)"
  using assms by (auto simp: freshBlocks_def Let_def)

lemma resultFor_total:
  assumes "freshBlocks bs ids" and "bs \<noteq> []"
  shows "\<exists>x bs' ids'. resultFor r bs ids = Some (x, bs', ids') \<and> freshBlocks bs' ids'
           \<and> length bs \<le> Suc (length bs')"
proof -
  obtain b bs0 where "bs = b # bs0" using assms(2) by (cases bs) auto
  with assms(1) freshBlocks_next [of b bs0 ids "''irsrec_''"] show ?thesis
    by (simp add: resultFor_def Let_def)
qed

lemma resultsFor_total:
  "freshBlocks bs ids \<Longrightarrow> length rs \<le> length bs \<Longrightarrow>
     \<exists>xs bs' ids'. resultsFor rs bs ids = Some (xs, bs', ids')"
proof (induction rs arbitrary: bs ids)
  case (Cons r rs)
  then obtain x bs' ids' where x: "resultFor r bs ids = Some (x, bs', ids')"
    and "freshBlocks bs' ids'" "length bs \<le> Suc (length bs')"
    using resultFor_total [of bs ids r] by (cases bs) auto
  with Cons.prems Cons.IH [of bs' ids'] show ?case by auto
qed simp

text \<open>One unused block for the receipt and one per record are enough.\<close>

lemma intake_total:
  assumes "freshBlocks (env_blocks env) (generatedIDs s)"
    and "length (tx_records t) < length (env_blocks env)"
  shows "\<exists>s' r. storeRecord env t s = Some (s', r)"
proof -
  obtain b bs where bs: "env_blocks env = b # bs" using assms(2) by (cases "env_blocks env") auto
  note rcpt = freshBlocks_next [of b bs "generatedIDs s" "''rcpt_''"]
  from assms bs rcpt obtain xs bs' ids' where
    "resultsFor (tx_records t) bs (insert (''rcpt_'' @ hexEncode b) (generatedIDs s)) = Some (xs, bs', ids')"
    using resultsFor_total [of bs "insert (''rcpt_'' @ hexEncode b) (generatedIDs s)" "tx_records t"]
    by auto
  with assms(1) bs rcpt(1) show ?thesis by (simp add: storeRecord_def Let_def)
qed

section \<open>Properties\<close>

text \<open>C6. Zero duplicate filings at the receiver: in every store the stub can reach, one original
  record key (firm, client, tax year, record ID) belongs to at most one recorded transmission,
  and occurs there once.\<close>

theorem irs_no_duplicate_filing:
  assumes "irs_reachable config s"
    and "submissionsByFirmAndUTID s p = Some x" and "submissionsByFirmAndUTID s q = Some y"
    and "k \<in> set (submissionKeys x)" and "k \<in> set (submissionKeys y)"
  shows "p = q \<and> x = y \<and> count_list (submissionKeys x) k = 1"
proof -
  from assms(1) have inv: "irs_inv s" by (rule irs_reachable_inv)
  from irs.unique [OF inv assms(2,3,4,5)] have "p = q" .
  with assms(2,3) have "x = y" by simp
  moreover have "distinct (submissionKeys x)" using irs.no_repeat [OF inv assms(2)] .
  ultimately show ?thesis using \<open>p = q\<close> assms(4) distinct_count_list by auto
qed

text \<open>A recorded transmission is frozen: whatever later intake calls do, in any number and
  with any faults, a lookup by UTID returns the same submission (same receipt, same results),
  and so does the lookup by its receipt.\<close>

theorem irs_recorded_frozen:
  assumes "irs_reachable config s" and "findByUTID f u s = Some x"
    and "\<forall>(e, t) \<in> set calls. distinctRecords t" and "deliverAll storeRecord calls s = Some s'"
  shows "findByUTID f u s' = Some x \<and> findByReceiptID f (sub_receiptID x) s' = Some x"
proof -
  have inv: "irs_inv s" using assms(1) by (rule irs_reachable_inv)
  have inv': "irs_inv s'" using irs.deliverAll_inv [OF assms(4) inv assms(3)] .
  from assms(2) irs.deliverAll_frozen [OF assms(4)]
  have x: "submissionsByFirmAndUTID s' (f, u) = Some x" by (simp add: findByUTID_def)
  from irs_inv_utidD [OF inv' x] x show ?thesis
    by (simp add: findByUTID_def findByReceiptID_def)
qed

text \<open>An intake call either changes nothing (duplicate UTID, duplicate record, or a failure
  before recording) or records the whole transmission: found by UTID and by the new receipt,
  one result per record in the order sent; and an after-record failure records it too.\<close>

theorem irs_intake_all_or_nothing:
  assumes "irs_reachable config s" and "distinctRecords t" and "storeRecord env t s = Some (s', r)"
  shows "(s' = s \<and> (r = Inl errDuplicateUTID \<or> r = Inl errDuplicateRecord
                       \<or> r = Inr ('''', failBeforeRecord)))
    \<or> (\<exists>x fault. r = Inr (sub_receiptID x, fault) \<and> fault \<in> {intakeSucceeded, failAfterRecord}
         \<and> findByUTID (tx_firmID t) (tx_utid t) s = None
         \<and> findByUTID (tx_firmID t) (tx_utid t) s' = Some x
         \<and> findByReceiptID (tx_firmID t) (sub_receiptID x) s' = Some x
         \<and> submissionKeys x = map (originalKey t) (tx_records t))"
  using assms(3)
proof (cases rule: storeRecord_cases)
  case same
  then show ?thesis by blast
next
  case (new x fault ids)
  then have "fault \<in> {intakeSucceeded, failAfterRecord}" by (cases fault) auto
  with new have "r = Inr (sub_receiptID x, fault) \<and> fault \<in> {intakeSucceeded, failAfterRecord}
         \<and> findByUTID (tx_firmID t) (tx_utid t) s = None
         \<and> findByUTID (tx_firmID t) (tx_utid t) s' = Some x
         \<and> findByReceiptID (tx_firmID t) (sub_receiptID x) s' = Some x
         \<and> submissionKeys x = map (originalKey t) (tx_records t)"
    by (simp add: findByUTID_def findByReceiptID_def newSubmission_def)
  then show ?thesis by blast
qed



section \<open>Witnesses\<close>

text \<open>One transmission with an acceptable and an unacceptable record, delivered to a fresh store
  with the default fault percentages (7, 5, 0) and a draw of 50.\<close>

definition sampleConfig :: IrsConfig where
  "sampleConfig = \<lparr>ic_Addr = ''127.0.0.1:8081'', ic_BearerToken = ''local-irs-token'',
     FailBeforeRecordPercent = 7, FailAfterRecordPercent = 5, NeverAckPercent = 0\<rparr>"

definition goodRecord :: filingRecord where
  "goodRecord = \<lparr>fr_recordID = ''r1'', fr_recipientName = ''Ann'', fr_recipientTIN = ''123456789'',
     fr_amountCents = 60000, fr_withholdingCents = 0\<rparr>"

definition badRecord :: filingRecord where
  "badRecord = \<lparr>fr_recordID = ''r2'', fr_recipientName = ''Bob'', fr_recipientTIN = ''000456789'',
     fr_amountCents = 60000, fr_withholdingCents = 0\<rparr>"

definition sampleTx :: transmission where
  "sampleTx = \<lparr>tx_firmID = ''F001'', tx_clientID = ''C1'', tx_taxYear = ''2025'', tx_utid = ''u1'',
     tx_submissionID = ''SUB-1'', tx_records = [goodRecord, badRecord]\<rparr>"

definition sampleEnv :: irs_env where
  "sampleEnv = \<lparr>env_fault = 1 / 2, env_never = 1 / 2, env_delay = 1 / 4,
     env_blocks = [''AAAAAAAAAAAAAAAA'', ''BBBBBBBBBBBBBBBB'', ''CCCCCCCCCCCCCCCC''], env_now = 0\<rparr>"

definition sampleSub :: submission where
  "sampleSub = recordedSubmission sampleEnv sampleConfig sampleTx
     (''rcpt_'' @ hexEncode ''AAAAAAAAAAAAAAAA'')
     [\<lparr>rr_recordID = ''r1'', rr_status = ''Accepted'',
       rr_irsRecordID = ''irsrec_'' @ hexEncode ''BBBBBBBBBBBBBBBB'', rr_errorReason = ''''\<rparr>,
      \<lparr>rr_recordID = ''r2'', rr_status = ''Rejected'', rr_irsRecordID = '''', rr_errorReason = ''TIN_INVALID''\<rparr>]"

definition sampleStore :: irs_store where
  "sampleStore = storeSubmission sampleTx sampleSub
     {''irsrec_'' @ hexEncode ''BBBBBBBBBBBBBBBB'', ''rcpt_'' @ hexEncode ''AAAAAAAAAAAAAAAA''}
     (newStore sampleConfig)"

lemma goodRecord_result:
  "resultFor goodRecord (b # bs) {''rcpt_'' @ c} =
     Some (\<lparr>rr_recordID = ''r1'', rr_status = ''Accepted'', rr_irsRecordID = ''irsrec_'' @ hexEncode b,
            rr_errorReason = ''''\<rparr>, bs, {''irsrec_'' @ hexEncode b, ''rcpt_'' @ c})"
proof -
  have "list_all is_digit ''123456789''" by (simp add: is_digit_def)
  then show ?thesis
    by (simp add: resultFor_def goodRecord_def trimSpace_digits isNineASCIIDigits_def hasPrefix_def Let_def)
qed

lemma badRecord_result:
  "resultFor badRecord bs ids =
     Some (\<lparr>rr_recordID = ''r2'', rr_status = ''Rejected'', rr_irsRecordID = '''',
            rr_errorReason = ''TIN_INVALID''\<rparr>, bs, ids)"
proof -
  have "list_all is_digit ''000456789''" by (simp add: is_digit_def)
  then show ?thesis
    by (simp add: resultFor_def badRecord_def trimSpace_digits isNineASCIIDigits_def hasPrefix_def Let_def)
qed

lemma sampleIntake:
  "storeRecord sampleEnv sampleTx (newStore sampleConfig) =
     Some (sampleStore, Inr (sub_receiptID sampleSub, intakeSucceeded))"
  using goodRecord_result [of "''BBBBBBBBBBBBBBBB''" "[''CCCCCCCCCCCCCCCC'']" "hexEncode ''AAAAAAAAAAAAAAAA''"]
  by (simp add: storeRecord_def sampleTx_def sampleEnv_def newStore_def sampleConfig_def Let_def
      classifyIntakeFault_def badRecord_result sampleStore_def sampleSub_def)

lemma sampleTx_distinct: "distinctRecords sampleTx"
  by (simp add: distinctRecords_def sampleTx_def goodRecord_def badRecord_def)

lemma sampleStore_reachable: "irs_reachable sampleConfig sampleStore"
  using irs_reachable.intake [OF irs_reachable.start sampleTx_distinct sampleIntake] .

lemma sampleStore_lookup:
  "submissionsByFirmAndUTID sampleStore (''F001'', ''u1'') = Some sampleSub"
  by (simp add: sampleStore_def sampleTx_def)

lemma sampleSub_keys:
  "submissionKeys sampleSub = [(''F001'', ''C1'', ''2025'', ''r1''), (''F001'', ''C1'', ''2025'', ''r2'')]"
  by (simp add: submissionKeys_def sampleSub_def sampleTx_def)

lemma sampleRedelivery:
  "storeRecord sampleEnv sampleTx sampleStore = Some (sampleStore, Inl errDuplicateUTID)"
  by (simp add: storeRecord_def Let_def sampleStore_def)

theorem irs_no_duplicate_filing_witness:
  "count_list (submissionKeys sampleSub) (''F001'', ''C1'', ''2025'', ''r2'') = 1"
  using irs_no_duplicate_filing [OF sampleStore_reachable sampleStore_lookup sampleStore_lookup,
      of "(''F001'', ''C1'', ''2025'', ''r2'')"]
  by (simp add: sampleSub_keys)

theorem irs_recorded_frozen_witness:
  "findByUTID ''F001'' ''u1'' sampleStore = Some sampleSub
   \<and> findByReceiptID ''F001'' (sub_receiptID sampleSub) sampleStore = Some sampleSub"
  using irs_recorded_frozen [OF sampleStore_reachable, of "''F001''" "''u1''" sampleSub
      "[(sampleEnv, sampleTx), (sampleEnv, sampleTx)]" sampleStore]
  by (simp add: sampleRedelivery sampleTx_distinct sampleStore_lookup findByUTID_def)

theorem irs_intake_all_or_nothing_witness:
  "findByUTID ''F001'' ''u1'' sampleStore \<noteq> None"
  using irs_intake_all_or_nothing [OF irs_reachable.start sampleTx_distinct sampleIntake]
  by (auto simp: sampleTx_def)



end
