(* ===== verification/Wire_Facts.thy ===== *)
theory Wire_Facts
  imports Irs_Client Irs_Wire Irs_Idempotence
begin

text \<open>
  Client and stub understand each other: every reply of the stub's handlers is read by the
  client as what the stub meant.
\<close>

declare validChars.simps [simp del]
declare validChars.simps(1) [simp]

section \<open>Strict decoding of rendered documents\<close>

lemma strictTokens_inner:
  "namesIn allowed node \<Longrightarrow> 0 < depth \<Longrightarrow>
     strictTokens r allowed depth roots (tokensOf node @ ts) = strictTokens r allowed depth roots ts"
proof (induction node arbitrary: depth roots ts)
  case (Element n cs)
  have "strictTokens r allowed d s (concat (map tokensOf cs) @ us) = strictTokens r allowed d s us" if "0 < d" for d s us
    using Element.IH Element.prems(1) that by (induction cs arbitrary: us) auto
  with Element.prems show ?case by simp
qed simp

lemma strict_document:
  assumes "tidy (Element n cs)" and "namesIn allowed (Element n cs)"
  shows "decodeStrict (renderXML (Element n cs)) n allowed = Some cs"
proof -
  have "strictTokens n allowed 1 1 (concat (map tokensOf cs) @ us) = strictTokens n allowed 1 1 us" for us
    using assms(2) strictTokens_inner by (induction cs arbitrary: us) auto
  with assms have "strictTokens n allowed 0 0 (tokensOf (Element n cs))" by simp
  with decoderTokens_document(2) [OF assms(1)] rootElement_document(1) show ?thesis
    by (simp add: decodeStrict_def del: tokensOf.simps)
qed

lemma reply_names:
  "plainName ''ErrorResponse''" "plainName ''ErrorCd''" "plainName ''ErrorMessageTxt''" "plainName ''ReceiptId''"
  "plainName ''TransStatusOrAckResponse''" "plainName ''TransmissionStatusCd''" "plainName ''RecordResultGrp''"
  "plainName ''RecordStatusCd''" "plainName ''IRSRecordId''" "plainName ''ErrorReasonCd''"
  "plainName ''TransStatusOrAckRequest''" "plainName ''SearchParameterTypeCd''" "plainName ''SearchParameterTxt''"
  by code_simp+

lemma decodeError_reply:
  assumes "validChars code" and "validChars message" and "code \<noteq> ''''"
  shows "decodeError (renderXML (errorNode code message)) = Some code"
proof -
  have "decodeStrict (renderXML (errorNode code message)) ''ErrorResponse'' [''ErrorResponse'', ''ErrorCd'', ''ErrorMessageTxt'']
      = Some [textElement ''ErrorCd'' code, textElement ''ErrorMessageTxt'' message]"
    unfolding errorNode_def by (rule strict_document) (use assms in \<open>simp_all add: reply_names textElement_tidy\<close>)
  with assms(3) show ?thesis by (simp add: decodeError_def)
qed

lemma escapeRune_length: "w \<le> 4 \<Longrightarrow> length (escapeRune (r, w) (take w s)) \<le> 5"
  by (auto simp: escapeRune_def Let_def)

lemma decodeRune_width: "snd (decodeRune bs) \<le> 4"
  by (auto simp: decodeRune_def split: list.splits)

lemma escapeText_length: "length (escapeText s) \<le> 5 * length s"
proof (induction s rule: escapeText.induct)
  case (2 c s)
  obtain r w where rw: "decodeRune (map byte_val (take 4 (c # s))) = (r, w)" by fastforce
  have "w \<le> 4" using decodeRune_width [of "map byte_val (take 4 (c # s))"] rw by simp
  from escapeRune_length [OF this, of r "c # s"] "2.IH" [OF refl] rw show ?case by (simp add: Let_def)
qed simp

section \<open>Intake\<close>

lemma errorReply:
  assumes "validChars code" and "validChars message" and "code \<noteq> ''''" and "length code + length message \<le> 1000"
    and "answer \<noteq> 200"
  shows "clientSubmit (Some (writeError answer code message))
      = Inr \<lparr>sr_StatusCode = answer, sr_ErrorCode = code, sr_ReceiptID = ''''\<rparr>"
    and "clientStatus (Some (writeError answer code message))
      = Inr \<lparr>st_StatusCode = answer, st_ErrorCode = code, st_ReceiptID = '''', st_UTID = '''', st_Status = '''', st_Outcomes = []\<rparr>"
proof -
  have "length (renderXML (textElement n s)) \<le> 2 * length n + 5 + 5 * length s" for n s
    using escapeText_length [of s] by (simp add: textElement_def)
  from this [of "''ErrorCd''" code] this [of "''ErrorMessageTxt''" message] assms(4)
  have "length (renderXML (errorNode code message)) \<le> maxResponseBytes"
    by (simp add: errorNode_def maxResponseBytes_def)
  then show "clientSubmit (Some (writeError answer code message))
      = Inr \<lparr>sr_StatusCode = answer, sr_ErrorCode = code, sr_ReceiptID = ''''\<rparr>"
    and "clientStatus (Some (writeError answer code message))
      = Inr \<lparr>st_StatusCode = answer, st_ErrorCode = code, st_ReceiptID = '''', st_UTID = '''', st_Status = '''', st_Outcomes = []\<rparr>"
    using assms decodeError_reply
    by (simp_all add: clientSubmit_def clientStatus_def writeError_def writeXML_def readResponse_def)
qed

text \<open>Visible ASCII text is kept by \<open>strings.TrimSpace\<close>.\<close>

definition visible :: "string \<Rightarrow> bool" where
  "visible s \<longleftrightarrow> list_all (\<lambda>c. 33 \<le> byte_val c \<and> byte_val c < 128) s"

lemma trimLeftBy_visible:
  assumes "33 \<le> byte_val c" and "byte_val c < 128"
  shows "trimLeftBy space_rune (c # s) = c # s" and "trimLeftBy space_rune_end (c # s) = c # s"
proof -
  from assms have "space_rune (map byte_val (c # s)) = 0" and "space_rune_end (map byte_val (c # s)) = 0"
    by (auto split: list.split)
  then show "trimLeftBy space_rune (c # s) = c # s" and "trimLeftBy space_rune_end (c # s) = c # s"
    by (simp_all add: trimLeftBy.simps [of _ "c # s"])
qed

lemma trimSpace_visible: "visible s \<Longrightarrow> trimSpace s = s"
proof (cases s)
  case (Cons c t)
  assume v: "visible s"
  with Cons have "trimLeftBy space_rune s = s" by (simp add: visible_def trimLeftBy_visible)
  moreover obtain d u where d: "rev s = d # u" using Cons by (cases "rev s") auto
  then have "d \<in> set s" by (metis list.set_intros(1) set_rev)
  with v d have "trimLeftBy space_rune_end (rev s) = rev s" by (simp add: visible_def list_all_iff trimLeftBy_visible)
  ultimately show ?thesis by (simp add: trimSpace_def)
qed (simp add: trimSpace_def trimLeftBy.simps)

lemma visible_valid: "visible s \<Longrightarrow> validChars s"
  by (intro validChars_plain) (auto simp: visible_def list_all_iff)

lemma receiptReply:
  assumes "visible receipt" and "receipt \<noteq> ''''" and "length receipt \<le> 1000"
  shows "clientSubmit (Some (writeXML 200 (Element ''ReceiptId'' [CharData receipt])))
      = Inr \<lparr>sr_StatusCode = 200, sr_ErrorCode = '''', sr_ReceiptID = receipt\<rparr>"
proof -
  have "decodeStrict (renderXML (Element ''ReceiptId'' [CharData receipt])) ''ReceiptId'' [''ReceiptId''] = Some [CharData receipt]"
    by (rule strict_document) (use assms visible_valid in \<open>simp_all add: reply_names\<close>)
  moreover have "trimSpace receipt \<noteq> []" using assms(1,2) by (simp add: trimSpace_visible)
  moreover have "length (renderXML (Element ''ReceiptId'' [CharData receipt])) \<le> maxResponseBytes"
    using escapeText_length [of receipt] assms(3) by (simp add: maxResponseBytes_def)
  ultimately show ?thesis
    by (simp add: clientSubmit_def writeXML_def readResponse_def)
qed

text \<open>What an answer of the stub's store means to the client.\<close>

definition submitMeaning :: "irs_error + (string \<times> intakeFault) \<Rightarrow> SubmitResult" where
  "submitMeaning answer =
     (case answer of
        Inl errDuplicateUTID \<Rightarrow> \<lparr>sr_StatusCode = 409, sr_ErrorCode = ''DUPLICATE_UTID'', sr_ReceiptID = ''''\<rparr>
      | Inl errDuplicateRecord \<Rightarrow> \<lparr>sr_StatusCode = 409, sr_ErrorCode = ''DUPLICATE_RECORD'', sr_ReceiptID = ''''\<rparr>
      | Inr (receiptID, intakeSucceeded) \<Rightarrow> \<lparr>sr_StatusCode = 200, sr_ErrorCode = '''', sr_ReceiptID = receiptID\<rparr>
      | Inr (receiptID, _) \<Rightarrow> \<lparr>sr_StatusCode = 503, sr_ErrorCode = ''SERVICE_UNAVAILABLE'', sr_ReceiptID = ''''\<rparr>)"

lemma hexEncode_visible: "visible (hexEncode b)"
  using hexEncode_lower [of b] by (auto simp: visible_def list_all_iff is_lower_hex_def is_digit_def)

lemma newOpaqueID_form:
  "newOpaqueID pre bs ids = Some (i, bs', ids') \<Longrightarrow> (\<exists>b \<in> set bs. i = pre @ hexEncode b) \<and> set bs' \<subseteq> set bs"
  by (induction pre bs ids rule: newOpaqueID.induct) (auto simp: Let_def split: if_splits)

definition blocks16 :: "bytes list \<Rightarrow> bool" where
  "blocks16 bs \<longleftrightarrow> (\<forall>b \<in> set bs. length b = 16)"

text \<open>Identifiers of the stub are short visible text.\<close>

definition opaque :: "string \<Rightarrow> bool" where
  "opaque s \<longleftrightarrow> visible s \<and> s \<noteq> '''' \<and> length s \<le> 200"

lemma newOpaqueID_opaque:
  assumes "newOpaqueID pre bs ids = Some (i, bs', ids')" and "blocks16 bs" and "visible pre" and "length pre \<le> 100"
  shows "opaque i" and "blocks16 bs'"
proof -
  from newOpaqueID_form [OF assms(1)] obtain b where b: "b \<in> set bs" "i = pre @ hexEncode b" "set bs' \<subseteq> set bs"
    by blast
  have "length (hexEncode b) = 32" using assms(2) b(1) by (simp add: blocks16_def)
  then have "hexEncode b \<noteq> []" by (auto simp: hexEncode_nonempty)
  with \<open>length (hexEncode b) = 32\<close> b(2) assms(3,4) hexEncode_visible [of b] show "opaque i"
    by (auto simp: opaque_def visible_def)
  show "blocks16 bs'" using assms(2) b(3) by (auto simp: blocks16_def)
qed

lemma storeRecord_receipt:
  assumes "storeRecord env input store = Some (store', Inr (receiptID, intakeSucceeded))"
    and "blocks16 (env_blocks env)"
  shows "opaque receiptID"
proof -
  from assms(1) obtain bs ids where "newOpaqueID ''rcpt_'' (env_blocks env) (generatedIDs store) = Some (receiptID, bs, ids)"
    by (auto simp: storeRecord_def Let_def split: if_splits option.splits)
  then show ?thesis by (rule newOpaqueID_opaque) (use assms(2) in \<open>simp_all add: visible_def\<close>)
qed

lemma plain_literals:
  "validChars ''DUPLICATE_UTID''" "validChars ''DUPLICATE_RECORD''" "validChars ''SERVICE_UNAVAILABLE''"
  "validChars ''NOT_FOUND''" "validChars ''The UTID is already recorded; retrieve it using the status operation.''"
  "validChars ''An original record is already recorded.''" "validChars ''IRIS is temporarily unavailable.''"
  "validChars ''The ReceiptId or UTID was not found.''"
  by (rule validChars_plain, simp)+

lemma decodeTransmission_Nil: "decodeTransmission [] = Inl IncompleteXML"
  by (simp add: decodeTransmission_def validateXMLElements_def decoderTokens_def lexAll.simps)

lemma intake_reads:
  assumes "cl_token cl = ic_BearerToken (st_config store)" and "decodeTransmission payload = Inr input"
    and "blocks16 (env_blocks env)" and "storeRecord env input store = Some (store', answer)"
  shows "\<exists>reply. handleIntake describe env (submitRequest cl payload) store = Some (store', reply)
    \<and> clientSubmit (Some reply) = Inr (submitMeaning answer)"
proof -
  have "payload \<noteq> []" using assms(2) decodeTransmission_Nil by auto
  then have read: "readMultipartXML (submitRequest cl payload) = Inr payload"
    and front: "authorized (st_config store) (submitRequest cl payload)" "rq_Accept (submitRequest cl payload) = ''application/xml''"
    using assms(1) by (simp_all add: readMultipartXML_def submitRequest_def clientRequest_def authorized_def)
  note errors = errorReply(1) [OF plain_literals(1,5), of 409] errorReply(1) [OF plain_literals(2,6), of 409]
    errorReply(1) [OF plain_literals(3,7), of 503]
  have "clientSubmit (Some (writeXML 200 (Element ''ReceiptId'' [CharData receiptID])))
      = Inr \<lparr>sr_StatusCode = 200, sr_ErrorCode = '''', sr_ReceiptID = receiptID\<rparr>"
    if "answer = Inr (receiptID, intakeSucceeded)" for receiptID
    using storeRecord_receipt [OF assms(4) [unfolded that] assms(3)] by (auto simp: opaque_def intro: receiptReply)
  with errors read front assms(2,4) show ?thesis
    by (auto simp: handleIntake_def submitMeaning_def split: sum.splits irs_error.splits intakeFault.splits)
qed

text \<open>C36. Submitting crosses the wire: for a payload the stub can decode, the request the client
  builds reaches the stub's store, and what the client reads from the reply is exactly what the store
  answered: the receipt of a recorded transmission, the two duplicate conflicts, or unavailability
  under an injected fault.\<close>

theorem intake_crosses:
  assumes "cl_token cl = ic_BearerToken (st_config store)" and "decodeTransmission payload = Inr input"
    and "blocks16 (env_blocks env)" and "storeRecord env input store = Some (store', answer)"
  shows "\<exists>reply. handleIntake describe env (submitRequest cl payload) store = Some (store', reply)
    \<and> clientSubmit (Some reply) = Inr (submitMeaning answer)"
  by (rule intake_reads [OF assms])

section \<open>Status\<close>

text \<open>What the stub's results must be for a client to read them: short text, a verdict with its
  identifier or its published reason.\<close>

definition readableResult :: "recordResult \<Rightarrow> bool" where
  "readableResult r \<longleftrightarrow>
     rr_recordID r \<noteq> '''' \<and> validChars (rr_recordID r) \<and> length (rr_recordID r) \<le> 200
     \<and> (if rr_status r = ''Accepted'' then opaque (rr_irsRecordID r) \<and> rr_errorReason r = ''''
        else rr_status r = ''Rejected'' \<and> rr_irsRecordID r = '''' \<and> validReason (rr_errorReason r))"

definition answerable :: "submission \<Rightarrow> bool" where
  "answerable x \<longleftrightarrow> opaque (sub_receiptID x)
     \<and> sub_utid x \<noteq> '''' \<and> validChars (sub_utid x) \<and> length (sub_utid x) \<le> 200
     \<and> sub_results x \<noteq> [] \<and> length (sub_results x) \<le> 100 \<and> list_all readableResult (sub_results x)"

definition outcomeOf :: "recordResult \<Rightarrow> FilingOutcome" where
  "outcomeOf r = \<lparr>FilingKey = rr_recordID r, IRSRecordID = rr_irsRecordID r, RejectionReason = rr_errorReason r\<rparr>"

definition statusMeaning :: "int \<Rightarrow> submission option \<Rightarrow> StatusResult" where
  "statusMeaning now found =
     (case found of
        None \<Rightarrow> \<lparr>st_StatusCode = 404, st_ErrorCode = ''NOT_FOUND'', st_ReceiptID = '''', st_UTID = '''',
                 st_Status = '''', st_Outcomes = []\<rparr>
      | Some x \<Rightarrow> \<lparr>st_StatusCode = 200, st_ErrorCode = '''', st_ReceiptID = sub_receiptID x, st_UTID = sub_utid x,
                   st_Status = (if acknowledged_at now x then transmissionStatus (sub_results x) else ''Processing''),
                   st_Outcomes = (if acknowledged_at now x then map outcomeOf (sub_results x) else [])\<rparr>)"

lemma status_literals:
  "validChars ''Accepted''" "validChars ''Rejected''" "validChars ''Processing''" "validChars ''PartiallyAccepted''"
  "validChars ''TIN_MISSING''" "validChars ''TIN_MALFORMED''" "validChars ''TIN_INVALID''" "validChars ''AMOUNT_INVALID''"
  "validChars ''UTID''" "validChars ''RECEIPTID''"
  by (rule validChars_plain, simp)+

lemma names_again:
  "plainName ''RecordId''" "plainName ''UniqueTransmissionId''" "plainName ''TransmitterControlCd''"
  by (rule names_plain)+

lemma readable_texts:
  assumes "readableResult r"
  shows "validChars (rr_recordID r)" "validChars (rr_status r)" "validChars (rr_irsRecordID r)" "validChars (rr_errorReason r)"
    and "length (rr_recordID r) \<le> 200" "length (rr_status r) \<le> 200" "length (rr_irsRecordID r) \<le> 200"
      "length (rr_errorReason r) \<le> 200"
  using assms status_literals visible_valid
  by (auto simp: readableResult_def opaque_def validReason_def split: if_splits)

lemma tidy_omitEmpty: "plainName n \<Longrightarrow> validChars s \<Longrightarrow> list_all tidy (omitEmpty n s) \<and> list_all isElement (omitEmpty n s)"
  by (simp add: omitEmpty_def textElement_tidy)

lemma resultNode_tidy:
  assumes "readableResult r"
  shows "tidy (resultNode r)" and "namesIn statusResponseElements (resultNode r)" and "isElement (resultNode r)"
proof -
  note t = readable_texts [OF assms]
  from t tidy_omitEmpty [of "''IRSRecordId''"] tidy_omitEmpty [of "''ErrorReasonCd''"]
  show "tidy (resultNode r)"
    by (simp add: resultNode_def reply_names names_again textElement_tidy)
  show "namesIn statusResponseElements (resultNode r)" "isElement (resultNode r)"
    by (simp_all add: resultNode_def omitEmpty_def statusResponseElements_def)
qed

lemma render_text: "length (renderXML (textElement n s)) \<le> 2 * length n + 5 + 5 * length s"
  using escapeText_length [of s] by (simp add: textElement_def)

lemma render_omit: "length (concat (map renderXML (omitEmpty n s))) \<le> 2 * length n + 5 + 5 * length s"
  using render_text [of n s] by (simp add: omitEmpty_def)

lemma resultNode_length:
  assumes "readableResult r"
  shows "length (renderXML (resultNode r)) \<le> 5000"
  using readable_texts(5-8) [OF assms] render_text [of "''RecordId''" "rr_recordID r"]
    render_text [of "''RecordStatusCd''" "rr_status r"] render_omit [of "''IRSRecordId''" "rr_irsRecordID r"]
    render_omit [of "''ErrorReasonCd''" "rr_errorReason r"]
  by (simp add: resultNode_def)

lemma results_length:
  "list_all readableResult rs \<Longrightarrow> length (concat (map renderXML (map resultNode rs))) \<le> 5000 * length rs"
proof (induction rs)
  case (Cons r rs)
  with resultNode_length [of r] show ?case by simp
qed simp

lemma resultFields:
  "stringField ''RecordId'' (elem_children (resultNode r)) = rr_recordID r"
  "stringField ''RecordStatusCd'' (elem_children (resultNode r)) = rr_status r"
  "stringField ''IRSRecordId'' (elem_children (resultNode r)) = rr_irsRecordID r"
  "stringField ''ErrorReasonCd'' (elem_children (resultNode r)) = rr_errorReason r"
  by (simp_all add: resultNode_def omitEmpty_def)

lemma wireOutcome_result:
  assumes "readableResult r"
  shows "wireOutcome (elem_children (resultNode r)) = Some (outcomeOf r)"
proof (cases "rr_status r = ''Accepted''")
  case True
  with assms show ?thesis unfolding wireOutcome_def resultFields Let_def
    by (simp add: readableResult_def outcomeOf_def opaque_def)
next
  case False
  with assms have "rr_status r = ''Rejected''" "rr_irsRecordID r = ''''" "validReason (rr_errorReason r)" "rr_recordID r \<noteq> ''''"
    by (simp_all add: readableResult_def)
  then show ?thesis unfolding wireOutcome_def resultFields Let_def by (simp add: outcomeOf_def)
qed

lemma wireOutcomes_results:
  "list_all readableResult rs \<Longrightarrow>
     wireOutcomes (map (\<lambda>r. elem_children (resultNode r)) rs) = Some (map outcomeOf rs)"
  by (induction rs) (simp_all add: wireOutcome_result)

lemma childrenNamed_results:
  "childrenNamed ''RecordResultGrp'' (map resultNode rs) = map (\<lambda>r. elem_children (resultNode r)) rs"
  "n \<noteq> ''RecordResultGrp'' \<Longrightarrow> childrenNamed n (map resultNode rs) = []"
  by (induction rs) (auto simp: resultNode_def)

text \<open>The stub's answer read by the client.\<close>

lemma transmissionStatus_valid:
  "validTransmissionStatus (transmissionStatus rs)" "transmissionStatus rs \<noteq> ''Processing''"
  "validChars (transmissionStatus rs)" "length (transmissionStatus rs) \<le> 20"
  using status_literals by (simp_all add: transmissionStatus_def validTransmissionStatus_def Let_def)

lemma statusNode_tidy:
  assumes "answerable x"
  shows "tidy (statusNode now x)" and "namesIn statusResponseElements (statusNode now x)"
proof -
  have rs: "\<forall>r \<in> set (sub_results x). readableResult r" using assms by (simp add: answerable_def list_all_iff)
  then have "\<forall>r \<in> set (sub_results x). tidy (resultNode r) \<and> isElement (resultNode r) \<and> namesIn statusResponseElements (resultNode r)"
    using resultNode_tidy by blast
  moreover have "validChars (sub_receiptID x)" "validChars (sub_utid x)"
    using assms visible_valid by (simp_all add: answerable_def opaque_def)
  moreover have "''TransStatusOrAckResponse'' \<in> set statusResponseElements" "''ReceiptId'' \<in> set statusResponseElements"
    "''UniqueTransmissionId'' \<in> set statusResponseElements" "''TransmissionStatusCd'' \<in> set statusResponseElements"
    by (simp_all add: statusResponseElements_def)
  ultimately show "tidy (statusNode now x)" "namesIn statusResponseElements (statusNode now x)"
    using status_literals transmissionStatus_valid
    by (auto simp: statusNode_def reply_names names_again textElement_tidy list_all_iff)
qed

lemma statusNode_fits:
  assumes "answerable x"
  shows "length (renderXML (statusNode now x)) \<le> maxResponseBytes"
proof -
  let ?st = "if acknowledged_at now x then transmissionStatus (sub_results x) else ''Processing''"
  have "length (concat (map renderXML (map resultNode (sub_results x)))) \<le> 500000"
    using results_length [of "sub_results x"] assms by (simp add: answerable_def)
  moreover have "length ?st \<le> 20" using transmissionStatus_valid by simp
  moreover have "length (sub_receiptID x) \<le> 200" "length (sub_utid x) \<le> 200"
    using assms by (simp_all add: answerable_def opaque_def)
  ultimately show ?thesis
    using render_text [of "''ReceiptId''" "sub_receiptID x"] render_text [of "''UniqueTransmissionId''" "sub_utid x"]
      render_text [of "''TransmissionStatusCd''" ?st]
    by (cases "acknowledged_at now x") (simp_all add: statusNode_def maxResponseBytes_def)
qed

lemma statusReply:
  assumes "answerable x"
  shows "clientStatus (Some (writeXML 200 (statusNode now x))) = Inr (statusMeaning now (Some x))"
proof -
  let ?st = "if acknowledged_at now x then transmissionStatus (sub_results x) else ''Processing''"
  let ?rs = "if acknowledged_at now x then sub_results x else []"
  let ?cs = "[textElement ''ReceiptId'' (sub_receiptID x), textElement ''UniqueTransmissionId'' (sub_utid x),
       textElement ''TransmissionStatusCd'' ?st] @ map resultNode ?rs"
  have node: "statusNode now x = Element ''TransStatusOrAckResponse'' ?cs"
    by (simp add: statusNode_def)
  have "decodeStrict (renderXML (statusNode now x)) ''TransStatusOrAckResponse'' statusResponseElements = Some ?cs"
    unfolding node by (rule strict_document) (use statusNode_tidy [OF assms, of now] node in simp_all)
  moreover have "stringField ''ReceiptId'' ?cs = sub_receiptID x" "stringField ''UniqueTransmissionId'' ?cs = sub_utid x"
    "stringField ''TransmissionStatusCd'' ?cs = ?st"
    "childrenNamed ''RecordResultGrp'' ?cs = map (\<lambda>r. elem_children (resultNode r)) ?rs"
    by (simp_all add: childrenNamed_results del: if_split_asm)
  moreover have "wireOutcomes (map (\<lambda>r. elem_children (resultNode r)) ?rs) = Some (map outcomeOf ?rs)"
    using assms by (intro wireOutcomes_results) (simp add: answerable_def)
  moreover have "sub_receiptID x \<noteq> ''''" "sub_utid x \<noteq> ''''" "validTransmissionStatus ?st" "?st = ''Processing'' \<longleftrightarrow> ?rs = []"
    using assms transmissionStatus_valid by (auto simp: answerable_def opaque_def validTransmissionStatus_def)
  moreover have "readResponse (writeXML 200 (statusNode now x)) = Some (renderXML (statusNode now x))"
    using statusNode_fits [OF assms, of now] by (simp add: readResponse_def writeXML_def)
  ultimately show ?thesis
    unfolding clientStatus_def by (simp add: writeXML_def statusMeaning_def Let_def)
qed

lemma decodeStatus_request:
  assumes "validChars firmID" "firmID \<noteq> ''''" "validChars v" "v \<noteq> ''''" "searchType \<in> {''UTID'', ''RECEIPTID''}"
  shows "decodeStatusRequest (renderXML (statusRequestNode firmID searchType v))
    = Inr \<lparr>ss_Transmitter = firmID, ss_Type = searchType, ss_Text = v\<rparr>"
proof -
  let ?cs = "[textElement ''TransmitterControlCd'' firmID, textElement ''SearchParameterTypeCd'' searchType,
        textElement ''SearchParameterTxt'' v]"
  have "validChars searchType" using assms(5) status_literals by auto
  then have "validateXMLElements (renderXML (Element ''TransStatusOrAckRequest'' ?cs)) ''TransStatusOrAckRequest'' statusElements
      = Inr (''TransStatusOrAckRequest'', ?cs)"
    using assms by (intro validate_document(1)) (simp_all add: reply_names names_again textElement_tidy statusElements_def)
  with assms show ?thesis by (simp add: decodeStatusRequest_def statusRequestNode_def)
qed

lemma status_reads:
  assumes "cl_token cl = ic_BearerToken (st_config store)" and "searchType \<in> {SearchUTID, SearchReceiptID}"
    and "validChars firmID" "firmID \<noteq> ''''" and "validChars v" "v \<noteq> ''''"
    and "\<And>x. found = Some x \<Longrightarrow> answerable x"
    and "found = (if searchType = SearchUTID then findByUTID firmID v store else findByReceiptID firmID v store)"
  shows "clientStatus (Some (handleStatus describe now (statusRequest cl firmID searchType v) store))
    = Inr (statusMeaning now found)"
proof -
  have front: "authorized (st_config store) (statusRequest cl firmID searchType v)"
    "rq_Accept (statusRequest cl firmID searchType v) = ''application/xml''"
    "rq_MediaType (statusRequest cl firmID searchType v) = ''application/xml''"
    "rq_Body (statusRequest cl firmID searchType v) = Some (renderXML (statusRequestNode firmID searchType v))"
    using assms(1) by (simp_all add: statusRequest_def clientRequest_def authorized_def)
  have req: "decodeStatusRequest (renderXML (statusRequestNode firmID searchType v))
    = Inr \<lparr>ss_Transmitter = firmID, ss_Type = searchType, ss_Text = v\<rparr>"
    using assms(2-6) by (intro decodeStatus_request) auto
  have "handleStatus describe now (statusRequest cl firmID searchType v) store
      = (case found of None \<Rightarrow> writeError 404 ''NOT_FOUND'' ''The ReceiptId or UTID was not found.''
         | Some x \<Rightarrow> writeXML 200 (statusNode now x))"
    using front req assms(2,8) by (auto simp: handleStatus_def)
  with errorReply(2) [OF plain_literals(4,8), of 404] statusReply assms(7) show ?thesis
    by (cases found) (simp_all add: statusMeaning_def)
qed

section \<open>What intake records, the client can read\<close>

definition readableInput :: "transmission \<Rightarrow> bool" where
  "readableInput t \<longleftrightarrow> distinctRecords t \<and> tx_utid t \<noteq> '''' \<and> validChars (tx_utid t) \<and> length (tx_utid t) \<le> 200
     \<and> tx_records t \<noteq> [] \<and> length (tx_records t) \<le> 100
     \<and> (\<forall>r \<in> set (tx_records t). fr_recordID r \<noteq> '''' \<and> validChars (fr_recordID r) \<and> length (fr_recordID r) \<le> 200)"

lemma resultFor_readable:
  assumes "resultFor r bs ids = Some (x, bs', ids')" and "blocks16 bs"
    and "fr_recordID r \<noteq> '''' \<and> validChars (fr_recordID r) \<and> length (fr_recordID r) \<le> 200"
  shows "readableResult x \<and> blocks16 bs'"
proof -
  have "opaque i \<and> blocks16 cs" if "newOpaqueID ''irsrec_'' bs ids = Some (i, cs, js)" for i cs js
    using newOpaqueID_opaque [OF that assms(2)] by (simp add: visible_def)
  with assms show ?thesis
    by (auto simp: resultFor_def readableResult_def validReason_def Let_def split: if_splits option.splits
       )
qed

lemma resultsFor_readable:
  assumes "resultsFor rs bs ids = Some (xs, bs', ids')" and "blocks16 bs"
    and "\<forall>r \<in> set rs. fr_recordID r \<noteq> '''' \<and> validChars (fr_recordID r) \<and> length (fr_recordID r) \<le> 200"
  shows "list_all readableResult xs \<and> length xs = length rs"
  using assms
proof (induction rs arbitrary: bs ids xs bs' ids')
  case (Cons r rs)
  from Cons.prems(1) obtain x cs js ys cs' js' where
    one: "resultFor r bs ids = Some (x, cs, js)" and rest: "resultsFor rs cs js = Some (ys, cs', js')" and xs: "xs = x # ys"
    by (auto split: option.splits)
  from resultFor_readable [OF one Cons.prems(2)] Cons.prems(3) have "readableResult x" "blocks16 cs" by auto
  with Cons.IH [OF _ \<open>blocks16 cs\<close>] rest Cons.prems(3) xs show ?case by auto
qed simp

lemma storeRecord_answerable:
  assumes "storeRecord env t s = Some (s', answer)" and "readableInput t" and "blocks16 (env_blocks env)"
    and "\<And>p x. submissionsByFirmAndUTID s p = Some x \<Longrightarrow> answerable x"
  shows "submissionsByFirmAndUTID s' p = Some x \<Longrightarrow> answerable x"
proof (cases "s' = s")
  case False
  assume at: "submissionsByFirmAndUTID s' p = Some x"
  from assms(1) False obtain rid bs ids xs bs' ids' where
    n: "newOpaqueID ''rcpt_'' (env_blocks env) (generatedIDs s) = Some (rid, bs, ids)"
    and m: "resultsFor (tx_records t) bs ids = Some (xs, bs', ids')"
    and s': "s' = storeSubmission t (recordedSubmission env (st_config s) t rid xs) ids' s"
    by (auto simp: storeRecord_def Let_def split: if_splits option.splits)
  from newOpaqueID_opaque [OF n assms(3)] have "opaque rid" "blocks16 bs" by (simp_all add: visible_def)
  with resultsFor_readable [OF m] assms(2) have "answerable (recordedSubmission env (st_config s) t rid xs)"
    by (auto simp: answerable_def readableInput_def)
  with at s' assms(4) show ?thesis by (auto split: if_splits)
qed (use assms(4) in blast)

text \<open>The stores reached by readable transmissions from a source of 16-byte blocks.\<close>

inductive intake_reachable :: "IrsConfig \<Rightarrow> irs_store \<Rightarrow> bool" for config where
  intake_start: "intake_reachable config (newStore config)"
| intake_next: "intake_reachable config s \<Longrightarrow> readableInput t \<Longrightarrow> blocks16 (env_blocks env) \<Longrightarrow>
    storeRecord env t s = Some (s', answer) \<Longrightarrow> intake_reachable config s'"

lemma intake_reachable_answerable:
  "intake_reachable config s \<Longrightarrow> submissionsByFirmAndUTID s p = Some x \<Longrightarrow> answerable x"
proof (induction arbitrary: p x rule: intake_reachable.induct)
  case intake_start
  then show ?case by (simp add: newStore_def)
next
  case (intake_next s t env s' answer)
  then show ?case using storeRecord_answerable [OF intake_next.hyps(4,2,3), of p x] by blast
qed

lemma intake_reachable_inv: "intake_reachable config s \<Longrightarrow> irs_inv s"
  by (induction rule: intake_reachable.induct)
    (auto intro: irs_inv_newStore storeRecord_inv simp: readableInput_def)

text \<open>C37. Asking crosses the wire: against every store that readable transmissions lead to, the
  client's status request for a UTID or a receipt reaches the lookup of that firm, and what the client
  reads is exactly the recorded submission (its receipt and UTID, still processing or acknowledged,
  with one outcome per record in order), or that there is none.\<close>

theorem status_crosses:
  assumes "intake_reachable config store" and "cl_token cl = ic_BearerToken (st_config store)"
    and "searchType \<in> {SearchUTID, SearchReceiptID}"
    and "validChars firmID" "firmID \<noteq> ''''" and "validChars v" "v \<noteq> ''''"
  shows "clientStatus (Some (handleStatus describe now (statusRequest cl firmID searchType v) store))
    = Inr (statusMeaning now (if searchType = SearchUTID then findByUTID firmID v store else findByReceiptID firmID v store))"
proof (rule status_reads [OF assms(2-7) _ refl])
  fix x assume found: "(if searchType = SearchUTID then findByUTID firmID v store else findByReceiptID firmID v store) = Some x"
  then have "\<exists>p. submissionsByFirmAndUTID store p = Some x"
    using irs_inv_receiptD(3) [OF intake_reachable_inv [OF assms(1)]]
    by (auto simp: findByUTID_def findByReceiptID_def split: if_splits option.splits)
  then show "answerable x" using intake_reachable_answerable [OF assms(1)] by blast
qed

section \<open>Witnesses\<close>

definition sampleCl :: client where
  "sampleCl = \<lparr>cl_baseURL = ''http://irs'', cl_token = ''local-irs-token''\<rparr>"

lemma wireSample_intake:
  assumes "tx_records t = [wireRecord wireSample]"
  shows "\<exists>s. storeRecord sampleEnv t (newStore sampleConfig) = Some (s, Inr (''rcpt_'' @ hexEncode ''AAAAAAAAAAAAAAAA'', intakeSucceeded))"
proof -
  have "list_all is_digit ''123456789''" by (simp add: is_digit_def)
  then have r: "resultFor (wireRecord wireSample) [''BBBBBBBBBBBBBBBB'', ''CCCCCCCCCCCCCCCC''] {''rcpt_'' @ hexEncode ''AAAAAAAAAAAAAAAA''}
    = Some (\<lparr>rr_recordID = fr_recordID (wireRecord wireSample), rr_status = ''Accepted'',
        rr_irsRecordID = ''irsrec_'' @ hexEncode ''BBBBBBBBBBBBBBBB'', rr_errorReason = ''''\<rparr>, [''CCCCCCCCCCCCCCCC''],
        {''irsrec_'' @ hexEncode ''BBBBBBBBBBBBBBBB'', ''rcpt_'' @ hexEncode ''AAAAAAAAAAAAAAAA''})"
    by (simp add: resultFor_def wireRecord_def wireSample_def trimSpace_digits isNineASCIIDigits_def hasPrefix_def Let_def)
  with assms show ?thesis
    by (simp add: storeRecord_def sampleEnv_def newStore_def sampleConfig_def Let_def classifyIntakeFault_def)
qed

lemma wireSample_decodes:
  "\<exists>t. decodeTransmission (groupXML ''acme'' [wireSample]) = Inr t \<and> tx_records t = [wireRecord wireSample]"
proof -
  have "validChars ''Smith & Sons <LLC>''" "validChars ''123456789''" "validChars ''acme''" "validChars ''c1''"
    by (rule validChars_plain, simp)+
  then show ?thesis
    using group_decodes [of "[wireSample]" "''acme''"]
    by (auto simp: groupOK_def wireOK_def wireSample_def)
qed

theorem intake_crosses_witness:
  "\<exists>store' reply. handleIntake (\<lambda>e. ''bad'') sampleEnv (submitRequest sampleCl (groupXML ''acme'' [wireSample]))
      (newStore sampleConfig) = Some (store', reply)
    \<and> clientSubmit (Some reply) = Inr \<lparr>sr_StatusCode = 200, sr_ErrorCode = '''',
        sr_ReceiptID = ''rcpt_'' @ hexEncode ''AAAAAAAAAAAAAAAA''\<rparr>"
proof -
  obtain t where t: "decodeTransmission (groupXML ''acme'' [wireSample]) = Inr t" "tx_records t = [wireRecord wireSample]"
    using wireSample_decodes by blast
  obtain s where s: "storeRecord sampleEnv t (newStore sampleConfig)
      = Some (s, Inr (''rcpt_'' @ hexEncode ''AAAAAAAAAAAAAAAA'', intakeSucceeded))"
    using wireSample_intake [OF t(2)] by blast
  have "cl_token sampleCl = ic_BearerToken (st_config (newStore sampleConfig))" "blocks16 (env_blocks sampleEnv)"
    by (simp_all add: sampleCl_def newStore_def sampleConfig_def blocks16_def sampleEnv_def)
  from intake_crosses [OF this(1) t(1) this(2) s, of "\<lambda>e. ''bad''"] show ?thesis
    by (auto simp: submitMeaning_def)
qed

lemma sampleStore_intake: "intake_reachable sampleConfig sampleStore"
proof (rule intake_next [OF intake_start _ _ sampleIntake])
  have "validChars ''u1''" "validChars ''r1''" "validChars ''r2''" by (rule validChars_plain, simp)+
  then show "readableInput sampleTx" using sampleTx_distinct
    by (simp add: readableInput_def sampleTx_def goodRecord_def badRecord_def)
  show "blocks16 (env_blocks sampleEnv)" by (simp add: blocks16_def sampleEnv_def)
qed

lemma sampleSub_times:
  "sub_neverAcknowledges sampleSub = False" "sub_availableAt sampleSub = 15000000000"
  by (simp_all add: sampleSub_def recordedSubmission_def sampleEnv_def sampleConfig_def
      ackDelayMinimum_def ackDelayRange_def Let_def)

theorem status_crosses_witness:
  "clientStatus (Some (handleStatus (\<lambda>e. ''bad'') 14000000000 (statusRequest sampleCl ''F001'' ''UTID'' ''u1'') sampleStore))
    = Inr \<lparr>st_StatusCode = 200, st_ErrorCode = '''', st_ReceiptID = sub_receiptID sampleSub, st_UTID = ''u1'',
        st_Status = ''Processing'', st_Outcomes = []\<rparr>
   \<and> clientStatus (Some (handleStatus (\<lambda>e. ''bad'') 15000000000 (statusRequest sampleCl ''F001'' ''UTID'' ''u1'') sampleStore))
    = Inr \<lparr>st_StatusCode = 200, st_ErrorCode = '''', st_ReceiptID = sub_receiptID sampleSub, st_UTID = ''u1'',
        st_Status = ''PartiallyAccepted'',
        st_Outcomes = [\<lparr>FilingKey = ''r1'', IRSRecordID = ''irsrec_'' @ hexEncode ''BBBBBBBBBBBBBBBB'', RejectionReason = ''''\<rparr>,
          \<lparr>FilingKey = ''r2'', IRSRecordID = '''', RejectionReason = ''TIN_INVALID''\<rparr>]\<rparr>"
proof -
  have token: "cl_token sampleCl = ic_BearerToken (st_config sampleStore)"
    by (simp add: sampleCl_def sampleStore_def newStore_def sampleConfig_def)
  have texts: "validChars ''F001''" "validChars ''u1''" by (rule validChars_plain, simp)+
  have found: "findByUTID ''F001'' ''u1'' sampleStore = Some sampleSub"
    using sampleStore_lookup by (simp add: findByUTID_def)
  have utid: "sub_utid sampleSub = ''u1''"
    and results: "sub_results sampleSub = [\<lparr>rr_recordID = ''r1'', rr_status = ''Accepted'',
         rr_irsRecordID = ''irsrec_'' @ hexEncode ''BBBBBBBBBBBBBBBB'', rr_errorReason = ''''\<rparr>,
      \<lparr>rr_recordID = ''r2'', rr_status = ''Rejected'', rr_irsRecordID = '''', rr_errorReason = ''TIN_INVALID''\<rparr>]"
    by (simp_all add: sampleSub_def sampleTx_def)
  note read = status_crosses [OF sampleStore_intake token, of SearchUTID "''F001''" "''u1''" "\<lambda>e. ''bad''"]
  show ?thesis
    using read [of 14000000000] read [of 15000000000] texts found utid results sampleSub_times
    by (simp add: statusMeaning_def acknowledged_at_def outcomeOf_def transmissionStatus_def Let_def
        del: hexEncode_Cons)
qed

end
