(* ===== verification/Worker_Facts.thy ===== *)
theory Worker_Facts
  imports Worker
begin

text \<open>
  The worker and the store fit together: delays stay within what the store accepts, and the
  event a reply leads to is legal for the batch that was claimed, so it is recorded while the
  lease holds.
\<close>

section \<open>Backoff\<close>

lemma doubled_min:
  assumes "0 < delay" and "0 < maximum" and "int64 maximum"
  shows "0 < doubled n maximum delay \<and> min maximum (doubled n maximum delay) = min maximum (delay * 2 ^ n)"
  using assms(1)
proof (induction n arbitrary: delay)
  case (Suc n)
  have big: "delay * 2 ^ Suc n \<ge> 2 * delay"
    using Suc.prems by (simp add: mult_le_cancel_left1)
  show ?case
  proof (cases "delay < maximum")
    case below: True
    have half: "go_div maximum 2 = maximum div 2" using assms(2) by (simp add: go_div_nonneg)
    show ?thesis
    proof (cases "maximum div 2 < delay")
      case True
      then have "maximum \<le> 2 * delay" by presburger
      with big have "maximum \<le> delay * 2 ^ Suc n" by linarith
      with True below assms(2) half show ?thesis by simp
    next
      case False
      then have "delay * 2 \<le> maximum" by presburger
      with assms(3) Suc.prems have "wrap64 (delay * 2) = delay * 2"
        by (intro wrap64_id) (auto simp: int64_def)
      with Suc.IH [of "delay * 2"] Suc.prems below False half show ?thesis by (simp add: mult.assoc)
    qed
  next
    case False
    with big Suc.prems have "maximum \<le> delay * 2 ^ Suc n" by linarith
    with False Suc.prems show ?thesis by simp
  qed
qed simp

lemma delay_defaults:
  "0 < initialDelay b" "0 < maximumDelay b" "int64 (Maximum b) \<Longrightarrow> int64 (maximumDelay b)"
  by (auto simp: initialDelay_def maximumDelay_def duration_defs int64_def)

lemma Delay_range:
  assumes "Delay b attempt = (delay, True)"
  shows "0 \<le> delay \<and> delay \<le> maximumDelay b"
  using assms delay_defaults(2) [of b] by (auto simp: Delay_def Let_def split: if_splits)

lemma backoff_grows:
  assumes "int64 (Maximum b)" and "1 \<le> attempt" and "MaxAttempts b \<le> 0 \<or> attempt < MaxAttempts b"
  shows "\<exists>delay. Delay b attempt = (delay, True) \<and> 0 \<le> delay \<and> delay \<le> maximumDelay b
    \<and> (Jitter b = None \<longrightarrow> delay = min (maximumDelay b) (initialDelay b * 2 ^ nat (attempt - 1)))"
proof -
  let ?m = "maximumDelay b" and ?g = "doubled (nat (attempt - 1)) (maximumDelay b) (initialDelay b)"
  obtain delay where delay: "Delay b attempt = (delay, True)"
    using assms(2,3) by (auto simp: Delay_def Let_def)
  have grown: "0 < ?g \<and> min ?m ?g = min ?m (initialDelay b * 2 ^ nat (attempt - 1))"
    by (rule doubled_min) (use delay_defaults assms(1) in auto)
  have "delay = min ?m (initialDelay b * 2 ^ nat (attempt - 1))" if "Jitter b = None"
  proof -
    have go: "\<not> (0 < MaxAttempts b \<and> MaxAttempts b \<le> attempt)" "\<not> attempt \<le> 0" using assms(2,3) by auto
    have "Delay b attempt = (min ?m ?g, True)"
    proof (cases "?m < ?g")
      case True
      with go that show ?thesis by (simp add: Delay_def Let_def)
    next
      case False
      have "0 < ?g" "0 < ?m" using grown delay_defaults by auto
      with False go that show ?thesis by (simp add: Delay_def Let_def)
    qed
    with delay have "delay = min ?m ?g" by simp
    also from grown have "\<dots> = min ?m (initialDelay b * 2 ^ nat (attempt - 1))" ..
    finally show ?thesis .
  qed
  with delay Delay_range [OF delay] show ?thesis by (intro exI [of _ delay]) simp
qed


text \<open>C33. The backoff doubles up to its maximum: without jitter the delay of an attempt is the
  initial delay doubled once per earlier attempt, cut at the maximum; with any jitter, overflow
  included, it stays between zero and the maximum.\<close>

theorem backoff_doubles:
  assumes "int64 (Maximum b)" and "1 \<le> attempt" and "MaxAttempts b \<le> 0 \<or> attempt < MaxAttempts b"
  shows "\<exists>delay. Delay b attempt = (delay, True) \<and> 0 \<le> delay \<and> delay \<le> maximumDelay b
    \<and> (Jitter b = None \<longrightarrow> delay = min (maximumDelay b) (initialDelay b * 2 ^ nat (attempt - 1)))"
  by (rule backoff_grows [OF assms])

theorem backoff_doubles_witness:
  "\<exists>delay. Delay \<lparr>Initial = second, Maximum = minute, MaxAttempts = 8, Jitter = None\<rparr> 3 = (delay, True)
     \<and> delay = 4 * second"
proof -
  have "int64 (Maximum \<lparr>Initial = second, Maximum = minute, MaxAttempts = 8, Jitter = None\<rparr>)"
    by (simp add: int64_def duration_defs)
  from backoff_doubles [OF this, of 3] show ?thesis
    by (auto simp: initialDelay_def maximumDelay_def duration_defs)
qed

text \<open>The last poll delay is not defended: past the last attempt the worker schedules polls with
  the configured maximum as it is, so a maximum left at zero means no delay at all, and a
  negative one a delay the store rejects, where every other delay falls back to five minutes.\<close>

theorem poll_delay_undefended:
  assumes "0 < MaxAttempts b" and "MaxAttempts b \<le> attempt" and "1 \<le> attempt"
  shows "pollDelay b attempt = Maximum b \<and> (Maximum b < 0 \<longrightarrow> \<not> validDelay (pollDelay b attempt))"
  using assms by (auto simp: pollDelay_def Delay_def validDelay_def)

theorem poll_delay_undefended_witness:
  "\<not> validDelay (pollDelay \<lparr>Initial = second, Maximum = - 1, MaxAttempts = 8, Jitter = None\<rparr> 9)"
  using poll_delay_undefended [of "\<lparr>Initial = second, Maximum = - 1, MaxAttempts = 8, Jitter = None\<rparr>" 9,
      THEN conjunct2, THEN mp] by simp

section \<open>Events that land\<close>

text \<open>The arguments an event is checked for, and the receipt it brings.\<close>

fun eventArgs_ok :: "lifecycle_event \<Rightarrow> bool" where
  "eventArgs_ok (EvSubmitAccepted e) =
     (validDelay (sa_PollDelay e) \<and> sa_ReceiptID e \<noteq> '''' \<and> length (sa_ReceiptID e) \<le> 256)"
| "eventArgs_ok (EvSubmitUnknown s) = (validDelay (rs_Delay s) \<and> validFailureCode (rs_FailureCode s))"
| "eventArgs_ok (EvReferenceFound e) =
     (validDelay (rf_PollDelay e) \<and> rf_ReceiptID e \<noteq> '''' \<and> length (rf_ReceiptID e) \<le> 256)"
| "eventArgs_ok (EvReferenceNotFound s) = (validDelay (rs_Delay s) \<and> validFailureCode (rs_FailureCode s))"
| "eventArgs_ok (EvAcknowledgmentPending s) = (validDelay (rs_Delay s) \<and> validFailureCode (rs_FailureCode s))"
| "eventArgs_ok (EvStatusUnavailable s) = (validDelay (rs_Delay s) \<and> validFailureCode (rs_FailureCode s))"
| "eventArgs_ok (EvCompleteAcknowledgment os) = False"
| "eventArgs_ok (EvRetryExhausted code) = (code \<noteq> '''' \<and> validFailureCode code)"
| "eventArgs_ok (EvFailInvariant code) = (code \<noteq> '''' \<and> validFailureCode code)"

fun eventReceipt :: "lifecycle_event \<Rightarrow> string option" where
  "eventReceipt (EvSubmitAccepted e) = Some (sa_ReceiptID e)"
| "eventReceipt (EvReferenceFound e) = Some (rf_ReceiptID e)"
| "eventReceipt _ = None"

lemma eventRow_ok:
  assumes "batch_row_ok b" and "b_state b \<notin> {BAcknowledged, BInvariantFailed}"
    and "st \<notin> {BAcknowledged, BInvariantFailed}"
    and "(b_receipt b = None \<and> receipt = '''') \<or> st \<in> set receiptStates"
  shows "batch_row_ok (eventRow t1 st delay receipt code submitted b)
    \<and> batch_update_ok b (eventRow t1 st delay receipt code submitted b)"
  using assms by (simp add: batch_row_ok_def batch_update_ok_def eventRow_def) blast

lemma terminalRow_ok:
  assumes "batch_row_ok b" and "b_state b \<notin> {BAcknowledged, BInvariantFailed}"
  shows "batch_row_ok (terminalRow t1 code exhausted b) \<and> batch_update_ok b (terminalRow t1 code exhausted b)"
  using assms by (simp add: batch_row_ok_def batch_update_ok_def terminalRow_def receiptStates_def)

lemma statusRetryRow_ok:
  assumes "batch_row_ok b" and "b_state b \<notin> {BAcknowledged, BInvariantFailed}"
  shows "batch_row_ok (statusRetryRow t1 delay code b) \<and> batch_update_ok b (statusRetryRow t1 delay code b)"
  using assms by (simp add: batch_row_ok_def batch_update_ok_def statusRetryRow_def)

lemma no_receipt_yet:
  "batch_row_ok b \<Longrightarrow> b_state b \<in> {BSubmitting, BSubmitUnknown} \<Longrightarrow> b_receipt b = None"
  by (auto simp: batch_row_ok_def receiptStates_def)

lemma eventUpdate_row_ok:
  assumes "batch_row_ok b" and "b_state b \<in> set (eventStates ev)" and "eventArgs_ok ev"
  shows "batch_row_ok (eventUpdate t1 ev b) \<and> batch_update_ok b (eventUpdate t1 ev b)"
  using assms
  by (cases ev; simp; intro eventRow_ok terminalRow_ok statusRetryRow_ok)
    (auto simp: receiptStates_def activeStates_def dest: no_receipt_yet)

lemma eventUpdate_receipt_of:
  "eventArgs_ok ev \<Longrightarrow>
     b_receipt (eventUpdate t1 ev b) = (case eventReceipt ev of None \<Rightarrow> b_receipt b | Some r \<Rightarrow> Some r)"
  by (cases ev) (auto simp: eventRow_def statusRetryRow_def terminalRow_def)

lemma eventUpdate_utid: "b_utid (eventUpdate t1 ev b) = b_utid b"
  by (cases ev) (auto simp: eventRow_def statusRetryRow_def terminalRow_def acknowledgedRow_def)

lemma nonNull_Cons: "nonNull (x # xs) = (case x of None \<Rightarrow> nonNull xs | Some a \<Rightarrow> a # nonNull xs)"
  by (cases x) (simp_all add: nonNull_def)

lemma set_nonNull: "set (nonNull xs) = {a. Some a \<in> set xs}"
  by (induction xs) (auto simp: nonNull_Cons nonNull_def split: option.splits)

lemma nonNull_append: "nonNull (xs @ ys) = nonNull xs @ nonNull ys"
  by (simp add: nonNull_def)

lemma nonNull_Nil: "nonNull [] = []"
  by (simp add: nonNull_def)

lemma applyEvent_recordOutcome:
  assumes "eventArgs_ok ev" and "0 < c_batchID c"
  shows "applyEvent t1 t2 c ev d = recordOutcome t1 t2 c (eventStates ev) (eventUpdate t1 ev) d"
  using assms
  by (cases ev) (auto simp: event_defs validFailureCode_def)

text \<open>An event with valid arguments for a batch held under the claim is recorded, unless its
  receipt is taken.\<close>

lemma event_lands:
  assumes "schema_ok d" and "b \<in> set (db_batches d)" and "claimRowOf t1 c (eventStates ev) b"
    and "eventArgs_ok ev" and "0 < c_batchID c" and "beginFirm (c_firmID c) = Inr ()"
    and "\<forall>r x. eventReceipt ev = Some r \<longrightarrow> x \<in> set (db_batches d) \<longrightarrow> b_receipt x \<noteq> Some r"
  shows "\<exists>d'. applyEvent t1 t2 c ev d = (d', Inr ()) \<and> eventUpdate t1 ev b \<in> set (db_batches d')"
proof -
  let ?p = "claimRowOf t1 c (eventStates ev)" and ?u = "eventUpdate t1 ev"
  let ?rows = "map (\<lambda>r. if ?p r then ?u r else r) (db_batches d)"
  have dist: "distinct (map b_id (db_batches d))" and rows_ok: "\<forall>x \<in> set (db_batches d). batch_row_ok x"
    and tab: "batch_table_ok (db_batches d)"
    using assms(1) by (auto simp: schema_ok_def batch_table_ok_def)
  have only: "?p x \<longleftrightarrow> x = b" if "x \<in> set (db_batches d)" for x
    using unique_row [OF dist that assms(2)] assms(3) by (auto simp: claimRowOf_def claimedBy_def)
  have state: "b_state b \<in> set (eventStates ev)" using assms(3) by (simp add: claimRowOf_def claimedBy_def)
  from split_list [OF assms(2)] obtain xs ys where xy: "db_batches d = xs @ b # ys" by blast
  with dist have out: "b \<notin> set xs" "b \<notin> set ys" by auto
  have rows: "?rows = xs @ ?u b # ys"
  proof -
    have "\<not> ?p x" if "x \<in> set xs \<union> set ys" for x
      using only [of x] that out by (auto simp: xy)
    then have "map (\<lambda>r. if ?p r then ?u r else r) xs = xs" and "map (\<lambda>r. if ?p r then ?u r else r) ys = ys"
      by (auto intro!: map_idI)
    with assms(3) show ?thesis by (simp add: xy)
  qed
  have "batch_table_ok ?rows"
  proof -
    have "distinct (nonNull (map b_receipt (xs @ ?u b # ys)))"
    proof (cases "eventReceipt ev")
      case None
      then show ?thesis using tab xy by (simp add: batch_table_ok_def eventUpdate_receipt_of [OF assms(4)])
    next
      case (Some r)
      have "Some r \<notin> set (map b_receipt (xs @ ys))" using assms(7) Some xy by auto
      then have "r \<notin> set (nonNull (map b_receipt xs @ map b_receipt ys))" by (simp add: set_nonNull)
      moreover have "distinct (nonNull (map b_receipt xs @ map b_receipt ys))"
        using tab xy by (auto simp: batch_table_ok_def nonNull_append nonNull_Cons split: option.splits)
      ultimately show ?thesis using Some
        by (simp add: nonNull_append nonNull_Cons eventUpdate_receipt_of [OF assms(4)])
    qed
    then show ?thesis
      unfolding rows using tab xy by (simp add: batch_table_ok_def eventUpdate_utid)
  qed
  moreover have "\<not> list_ex (\<lambda>r. ?p r \<and> \<not> batch_update_ok r (?u r)) (db_batches d)"
    and "\<not> list_ex (\<lambda>r. ?p r \<and> \<not> batch_row_ok (?u r)) (db_batches d)"
    using only rows_ok eventUpdate_row_ok [OF _ state assms(4)] assms(2) by (auto simp: list_ex_iff)
  moreover have "filter ?p (db_batches d) = [b]"
  proof -
    have "filter ?p (db_batches d) = filter (\<lambda>x. x = b) (db_batches d)" using only by (rule filter_cong [OF refl])
    also have "\<dots> = [b]"
      using filter_eq_single [of "db_batches d" b] dist assms(2) by (simp add: distinct_map)
    finally show ?thesis .
  qed
  ultimately have "updateBatches ?p ?u d = Inr (d\<lparr>db_batches := ?rows\<rparr>, 1)"
    by (simp add: updateBatches_def sql_update_def)
  then have "recordOutcome t1 t2 c (eventStates ev) ?u d = (d\<lparr>db_batches := ?rows\<rparr>, Inr ())"
    using assms(6) by (simp add: recordOutcome_def StoreClaimParts_def claimRowOf_def)
  with applyEvent_recordOutcome [OF assms(4,5)] show ?thesis by (simp add: rows)
qed

section \<open>The worker's events are legal\<close>

text \<open>A backoff whose delays the store accepts, and replies whose codes and receipts fit its columns.\<close>

definition storableBackoff :: "Backoff \<Rightarrow> bool" where
  "storableBackoff b \<longleftrightarrow> 0 \<le> Maximum b \<and> Maximum b \<le> 30 * 24 * hour"

fun storableSubmit :: "call_error + SubmitResult \<Rightarrow> bool" where
  "storableSubmit (Inl e) = True"
| "storableSubmit (Inr r) = (validFailureCode (sr_ErrorCode r) \<and> length (sr_ReceiptID r) \<le> 256)"

fun storableStatus :: "call_error + StatusResult \<Rightarrow> bool" where
  "storableStatus (Inl e) = True"
| "storableStatus (Inr r) =
     (validFailureCode (st_ErrorCode r) \<and> length (st_ReceiptID r) \<le> 256
      \<and> (st_StatusCode r = 200 \<longrightarrow> st_ReceiptID r \<noteq> ''''))"

lemma delays_storable:
  assumes "storableBackoff b"
  shows "Delay b attempt = (delay, True) \<Longrightarrow> validDelay delay" and "validDelay (pollDelay b attempt)"
proof -
  have max: "maximumDelay b \<le> 30 * 24 * hour"
    using assms by (auto simp: maximumDelay_def storableBackoff_def duration_defs)
  show valid: "Delay b attempt = (delay, True) \<Longrightarrow> validDelay delay" for delay
    using max Delay_range by (force simp: validDelay_def)
  show "validDelay (pollDelay b attempt)"
  proof (cases "Delay b attempt")
    case (Pair delay retry)
    with assms valid show ?thesis
      by (cases retry) (auto simp: pollDelay_def storableBackoff_def validDelay_def)
  qed
qed

lemma fixed_codes:
  "validFailureCode ''MALFORMED_RESPONSE''" "validFailureCode ''TRANSPORT_ERROR''"
  "validFailureCode ''SUBMIT_RETRY_EXHAUSTED''" "validFailureCode ''SUBMIT_UNKNOWN''"
  "validFailureCode ''STATUS_RETRY_EXHAUSTED''" "validFailureCode ''STATUS_UNAVAILABLE''"
  "validFailureCode ''SUBMIT_TERMINAL''" "validFailureCode ''STATUS_TERMINAL''"
  "validFailureCode ''REMOTE_IDENTITY_MISMATCH''" "validFailureCode ''''"
  "validFailureCode ''DUPLICATE_UTID''" "validFailureCode ''NOT_FOUND''"
  by code_simp+

lemma failureOr_valid:
  "validFailureCode code \<Longrightarrow> validFailureCode fallback \<Longrightarrow> validFailureCode (failureOr code fallback)"
  "fallback \<noteq> '''' \<Longrightarrow> failureOr code fallback \<noteq> ''''"
  by (simp_all add: failureOr_def)

lemmas plan_facts = fixed_codes failureOr_valid

lemma retrySubmit_event:
  assumes "storableBackoff b" and "validFailureCode code"
  shows "eventArgs_ok (retrySubmit b work code) \<and> BSubmitting \<in> set (eventStates (retrySubmit b work code))
    \<and> eventReceipt (retrySubmit b work code) = None"
proof (cases "Delay b (w_AttemptCount work)")
  case (Pair delay retry)
  with assms delays_storable(1) [OF assms(1)] show ?thesis
    by (cases retry) (auto simp: retrySubmit_def activeStates_def plan_facts)
qed

lemma retryStatus_event:
  assumes "storableBackoff b" and "validFailureCode code" and "st \<in> {BSubmitUnknown, BAwaitingAck}"
  shows "eventArgs_ok (retryStatus b work code) \<and> st \<in> set (eventStates (retryStatus b work code))
    \<and> eventReceipt (retryStatus b work code) = None"
proof (cases "Delay b (w_AttemptCount work)")
  case (Pair delay retry)
  with assms delays_storable(1) [OF assms(1)] show ?thesis
    by (cases retry) (auto simp: retryStatus_def activeStates_def plan_facts)
qed

lemma submitPlan_event:
  assumes "storableBackoff b" and "storableSubmit reply"
  shows "eventArgs_ok (snd (submitPlan b work reply))
    \<and> BSubmitting \<in> set (eventStates (snd (submitPlan b work reply)))"
proof (cases reply)
  case (Inl e)
  with retrySubmit_event [OF assms(1)] show ?thesis
    by (cases e) (simp_all add: submitPlan_def plan_facts activeStates_def)
next
  case (Inr r)
  with assms retrySubmit_event [OF assms(1)] delays_storable [OF assms(1)] show ?thesis
    by (simp add: submitPlan_def Let_def plan_facts activeStates_def)
qed

lemma statusPlan_event:
  assumes "storableBackoff b" and "storableStatus reply"
    and "searchType = SearchUTID \<and> st = BSubmitUnknown \<or> searchType = SearchReceiptID \<and> st = BAwaitingAck"
  shows "st \<in> set (eventStates (snd (statusPlan b work searchType reply)))
    \<and> ((\<exists>os. snd (statusPlan b work searchType reply) = EvCompleteAcknowledgment os)
       \<or> eventArgs_ok (snd (statusPlan b work searchType reply)))"
proof (cases reply)
  case (Inl e)
  from assms(3) have st: "st \<in> {BSubmitUnknown, BAwaitingAck}" by auto
  from Inl st retryStatus_event [OF assms(1) fixed_codes(2) st] show ?thesis
    by (cases e) (auto simp: statusPlan_def plan_facts activeStates_def)
next
  case (Inr r)
  from assms(3) have st: "st \<in> {BSubmitUnknown, BAwaitingAck}" by auto
  show ?thesis
  proof (cases "st_StatusCode r = 429 \<or> 500 \<le> st_StatusCode r")
    case True
    with Inr assms st show ?thesis
      using retryStatus_event [OF assms(1) _ st, of "failureOr (st_ErrorCode r) ''STATUS_UNAVAILABLE''"]
      by (auto simp: statusPlan_def Let_def plan_facts)
  next
    case False
    with Inr assms delays_storable(2) [OF assms(1)] show ?thesis
      by (auto simp: statusPlan_def Let_def plan_facts activeStates_def)
  qed
qed

text \<open>The plan for claimed work, by its action.\<close>

definition workPlan ::
  "Backoff \<Rightarrow> BatchWork \<Rightarrow> call_error + SubmitResult \<Rightarrow> call_error + StatusResult \<Rightarrow> CallResult \<times> lifecycle_event" where
  "workPlan b work submitReply statusReply =
     (if w_NextAction work = ActionSubmit then submitPlan b work submitReply
      else if w_NextAction work = ActionLookupByUTID then statusPlan b work SearchUTID statusReply
      else statusPlan b work (fst (pollSearch work)) statusReply)"

lemma workPlan_event:
  assumes "storableBackoff b" and "storableSubmit r1" and "storableStatus r2"
    and "w_NextAction work = actionFor st" and "st \<notin> {BAcknowledged, BInvariantFailed}"
    and "w_NextAction work = ActionPollStatus \<Longrightarrow> w_ReceiptID work \<noteq> ''''"
  shows "claimState st \<in> set (eventStates (snd (workPlan b work r1 r2)))
    \<and> ((\<exists>os. snd (workPlan b work r1 r2) = EvCompleteAcknowledgment os) \<or> eventArgs_ok (snd (workPlan b work r1 r2)))"
proof -
  have poll: "fst (pollSearch work) = SearchReceiptID" if "w_NextAction work = ActionPollStatus"
    using assms(6) [OF that] by (simp add: pollSearch_def)
  show ?thesis
  proof (cases "st = BPlanned")
    case True
    with assms(4) submitPlan_event [OF assms(1,2)] show ?thesis
      by (auto simp: workPlan_def actionFor_def claimState_def)
  next
    case planned: False
    show ?thesis
    proof (cases "st \<in> {BSubmitting, BSubmitUnknown}")
      case True
      with assms(4) planned statusPlan_event [OF assms(1,3), of SearchUTID BSubmitUnknown work] show ?thesis
        by (auto simp: workPlan_def actionFor_def claimState_def)
    next
      case False
      with assms(4,5) planned poll statusPlan_event [OF assms(1,3), of SearchReceiptID BAwaitingAck work] show ?thesis
        by (cases st) (auto simp: workPlan_def actionFor_def claimState_def)
    qed
  qed
qed


section \<open>A reply the worker cannot digest\<close>

lemma acquired_permit:
  assumes "AcquireCallPermit ts cmd d = (d1, Inr permit)"
  shows "\<not> cp_finished permit" "\<not> cp_released permit"
  using assms
  by (auto simp: AcquireCallPermit_def startCall_def Let_def split: prod.splits sum.splits list.splits if_splits)

lemma submitPlan_result:
  "cr_ErrorCode (fst (submitPlan b work (Inr r))) = sr_ErrorCode r"
  "cr_Outcome (fst (submitPlan b work (Inr r))) \<in> set callOutcomes"
  by (simp_all add: submitPlan_def callResult_def callOutcomes_def Let_def)


section \<open>Witnesses\<close>

definition sampleWork :: BatchWork where
  "sampleWork = claimWork ActionSubmit ''acme'' ''74'' (claimRow 5 ''w'' 1000 ''74'' (sampleBatch BPlanned None None))"

definition sampleBackoff :: Backoff where
  "sampleBackoff = \<lparr>Initial = second, Maximum = minute, MaxAttempts = 8, Jitter = None\<rparr>"

definition sampleReceipt :: SubmitResult where
  "sampleReceipt = \<lparr>sr_StatusCode = 200, sr_ErrorCode = '''', sr_ReceiptID = ''r-1''\<rparr>"


definition oddReply :: SubmitResult where
  "oddReply = \<lparr>sr_StatusCode = 503, sr_ErrorCode = ''busy now'', sr_ReceiptID = ''''\<rparr>"

definition oddClient :: "unit irs_client" where
  "oddClient = \<lparr>Submit = (\<lambda>xml i. (i, Inr oddReply)), Status = (\<lambda>firm t v i. (i, Inl TransportFailure))\<rparr>"

definition sampleEnv :: round_env where
  "sampleEnv = \<lparr>re_now = 5, re_locked = [], re_entropy = Some ''t'', re_start = (6, 6), re_finish = (7, 7), re_event = (8, 8)\<rparr>"


end
