(* ===== verification/System.thy ===== *)
theory System
  imports Wire_Facts Worker_Facts
begin

text \<open>
  The whole system: the database, the IRS stub, and workers whose every step can be delayed,
  repeated or cut off by a crash. A state holds the two stores, the work handed out by claims and
  the decisions workers reached but have not recorded; nothing is ever taken out of the latter two,
  so a decision may be recorded late, twice or never. Requests and replies may be lost. Every round
  of a worker over a transport that only loses messages is a run of this system.
\<close>

section \<open>States and steps\<close>

record sys =
  sy_db :: db
  sy_irs :: irs_store
  sy_work :: "BatchWork set"
  sy_plans :: "(Claim \<times> lifecycle_event) set"

text \<open>Filings whose text an XML document can carry. The import accepts control characters too;
  the renderer replaces those, so that what is filed differs from what was imported.\<close>

definition carriable :: "PlanBatchesCommand \<Rightarrow> db \<Rightarrow> bool" where
  "carriable cmd d \<longleftrightarrow> validChars (plan_FirmID cmd)
     \<and> (\<forall>f \<in> set (readyFilings (plan_FirmID cmd) (plan_DeterminationID cmd) d).
          wireOK f \<and> pf_taxYear f = 2025 \<and> validChars (pf_clientID f) \<and> pf_clientID f \<noteq> '''')"

text \<open>Operations of the store that are neither claims nor events of a worker.\<close>

fun quiet :: "db \<Rightarrow> store_op \<Rightarrow> bool" where
  "quiet d (OpClaim now locked entropy cmd) = False"
| "quiet d (OpEvent t1 t2 c ev) = False"
| "quiet d (OpPlan now cmd) = carriable cmd d"
| "quiet d _ = True"

definition handedOut :: "BatchWork option result \<Rightarrow> BatchWork set" where
  "handedOut r = (case r of Inr (Some w) \<Rightarrow> {w} | _ \<Rightarrow> {})"

inductive sys_step :: "client \<Rightarrow> Backoff \<Rightarrow> (request_error \<Rightarrow> string) \<Rightarrow> sys \<Rightarrow> sys \<Rightarrow> bool" for cl bo describe where
  operate: "quiet (sy_db s) op \<Longrightarrow> sys_step cl bo describe s (s\<lparr>sy_db := storeStep op (sy_db s)\<rparr>)"
| claim: "ClaimNextBatch now locked entropy cmd (sy_db s) = (d', r) \<Longrightarrow>
    sys_step cl bo describe s (s\<lparr>sy_db := d', sy_work := handedOut r \<union> sy_work s\<rparr>)"
| lost: "w \<in> sy_work s \<Longrightarrow>
    plan \<in> {snd (submitPlan bo w (clientSubmit None)), snd (statusPlan bo w searchType (clientStatus None))} \<Longrightarrow>
    sys_step cl bo describe s (s\<lparr>sy_plans := insert (w_Claim w, plan) (sy_plans s)\<rparr>)"
| submitted: "w \<in> sy_work s \<Longrightarrow> blocks16 (env_blocks env) \<Longrightarrow>
    handleIntake describe env (submitRequest cl (w_CanonicalXML w)) (sy_irs s) = Some (irs', reply) \<Longrightarrow>
    got \<in> {None, Some reply} \<Longrightarrow>
    sys_step cl bo describe s (s\<lparr>sy_irs := irs',
      sy_plans := insert (w_Claim w, snd (submitPlan bo w (clientSubmit got))) (sy_plans s)\<rparr>)"
| asked: "w \<in> sy_work s \<Longrightarrow> (searchType, v) \<in> {(SearchUTID, w_UTID w), (SearchReceiptID, w_ReceiptID w)} \<Longrightarrow>
    w_FirmID w \<noteq> '''' \<Longrightarrow> v \<noteq> '''' \<Longrightarrow>
    reply = handleStatus describe now (statusRequest cl (w_FirmID w) searchType v) (sy_irs s) \<Longrightarrow>
    sys_step cl bo describe s (s\<lparr>
      sy_plans := insert (w_Claim w, snd (statusPlan bo w searchType (clientStatus (Some reply)))) (sy_plans s)\<rparr>)"
| give_up: "w \<in> sy_work s \<Longrightarrow>
    sys_step cl bo describe s (s\<lparr>sy_plans := insert (w_Claim w, EvFailInvariant code) (sy_plans s)\<rparr>)"
| record_event: "(c, ev) \<in> sy_plans s \<Longrightarrow> applyEvent t1 t2 c ev (sy_db s) = (d', r) \<Longrightarrow>
    sys_step cl bo describe s (s\<lparr>sy_db := d'\<rparr>)"

text \<open>The states reached from a database in which nothing was planned yet and an empty stub.\<close>

definition unfiled :: "db \<Rightarrow> bool" where
  "unfiled d \<longleftrightarrow> schema_ok d \<and> db_batches d = []
     \<and> (\<forall>f \<in> set (db_filings d). f_state f \<in> {FReady, FBlockedPreflight})"

definition sys_start :: "IrsConfig \<Rightarrow> db \<Rightarrow> sys" where
  "sys_start config d = \<lparr>sy_db = d, sy_irs = newStore config, sy_work = {}, sy_plans = {}\<rparr>"

definition sys_reachable :: "IrsConfig \<Rightarrow> client \<Rightarrow> Backoff \<Rightarrow> (request_error \<Rightarrow> string) \<Rightarrow> sys \<Rightarrow> bool" where
  "sys_reachable config cl bo describe s \<longleftrightarrow>
     (\<exists>d. unfiled d \<and> (sys_step cl bo describe)\<^sup>*\<^sup>* (sys_start config d) s)"

section \<open>A worker's round is a run\<close>

text \<open>A transport that delivers to the stub's handlers or loses the request or the reply.\<close>

definition lossyIntake :: "(request_error \<Rightarrow> string) \<Rightarrow> (http_request \<Rightarrow> irs_store \<Rightarrow> irs_store \<times> http_response option) \<Rightarrow> bool" where
  "lossyIntake describe post \<longleftrightarrow> (\<forall>request i. post request i = (i, None)
     \<or> (\<exists>env i' reply got. blocks16 (env_blocks env) \<and> handleIntake describe env request i = Some (i', reply)
          \<and> post request i = (i', got) \<and> got \<in> {None, Some reply}))"

definition lossyStatus :: "(request_error \<Rightarrow> string) \<Rightarrow> (http_request \<Rightarrow> irs_store \<Rightarrow> irs_store \<times> http_response option) \<Rightarrow> bool" where
  "lossyStatus describe post \<longleftrightarrow> (\<forall>request i. post request i = (i, None)
     \<or> (\<exists>now. post request i = (i, Some (handleStatus describe now request i))))"

text \<open>A run from given stores to given stores, some work and some decisions added.\<close>

definition runs :: "client \<Rightarrow> Backoff \<Rightarrow> (request_error \<Rightarrow> string) \<Rightarrow> BatchWork set \<Rightarrow> (Claim \<times> lifecycle_event) set
    \<Rightarrow> db \<times> irs_store \<Rightarrow> BatchWork set \<Rightarrow> (Claim \<times> lifecycle_event) set \<Rightarrow> db \<times> irs_store \<Rightarrow> bool" where
  "runs cl bo describe W P s W' P' s' \<longleftrightarrow>
     (sys_step cl bo describe)\<^sup>*\<^sup>* \<lparr>sy_db = fst s, sy_irs = snd s, sy_work = W, sy_plans = P\<rparr>
       \<lparr>sy_db = fst s', sy_irs = snd s', sy_work = W', sy_plans = P'\<rparr>"

lemma runs_refl [simp]: "runs cl bo describe W P s W P s"
  by (simp add: runs_def)

lemma runs_trans [trans]:
  "runs cl bo describe W P s W1 P1 s1 \<Longrightarrow> runs cl bo describe W1 P1 s1 W2 P2 s2 \<Longrightarrow> runs cl bo describe W P s W2 P2 s2"
  unfolding runs_def by (rule rtranclp_trans)

lemma runs_operate: "quiet d op \<Longrightarrow> runs cl bo describe W P (d, i) W P (storeStep op d, i)"
  unfolding runs_def
  using operate [of "\<lparr>sy_db = d, sy_irs = i, sy_work = W, sy_plans = P\<rparr>" op cl bo describe] by auto

lemma runs_event:
  assumes "(c, ev) \<in> P"
  shows "runs cl bo describe W P (d, i) W P (fst (applyEvent t1 t2 c ev d), i)"
  unfolding runs_def
  using record_event [of c ev "\<lparr>sy_db = d, sy_irs = i, sy_work = W, sy_plans = P\<rparr>" t1 t2
      "fst (applyEvent t1 t2 c ev d)" "snd (applyEvent t1 t2 c ev d)" cl bo describe] assms by auto

lemma runs_acquire:
  assumes "AcquireCallPermit ts cmd d = (d', r)"
  shows "runs cl bo describe W P (d, i) W P (d', i)"
proof -
  obtain d1 r1 where g: "openGate cmd d = (d1, r1)" by (cases "openGate cmd d") auto
  have open_run: "runs cl bo describe W P (d, i) W P (d1, i)"
    using runs_operate [of d "OpOpenGate cmd"] g by simp
  show ?thesis
  proof (cases r1)
    case (Inl e)
    with assms g open_run show ?thesis by (simp add: AcquireCallPermit_def)
  next
    case (Inr allowed)
    with assms g have "startCall (fst ts) (snd ts) cmd d1 = (d', r)" by (simp add: AcquireCallPermit_def)
    then have "runs cl bo describe W P (d1, i) W P (d', i)"
      using runs_operate [of d1 "OpStartCall (fst ts) (snd ts) cmd"] by simp
    with open_run show ?thesis by (rule runs_trans)
  qed
qed

lemma runs_finishThen:
  assumes "finishThen env permit plan c d = (d', r)" and "(c, snd plan) \<in> P"
  shows "runs cl bo describe W P (d, i) W P (d', i)"
proof -
  obtain p1 d1 r1 where f: "Finish (fst (re_finish env)) (snd (re_finish env)) (fst plan) permit d = (p1, d1, r1)"
    by (cases "Finish (fst (re_finish env)) (snd (re_finish env)) (fst plan) permit d") auto
  have fin: "runs cl bo describe W P (d, i) W P (d1, i)"
    using runs_operate [of d "OpFinish (fst (re_finish env)) (snd (re_finish env)) (fst plan) permit"] f by simp
  show ?thesis
  proof (cases r1)
    case (Inl e)
    with assms(1) f fin show ?thesis by (simp add: finishThen_def)
  next
    case (Inr u)
    with assms(1) f have "applyEvent (fst (re_event env)) (snd (re_event env)) c (snd plan) d1 = (d', r)"
      by (simp add: finishThen_def)
    with runs_event [OF assms(2), of cl bo describe W d1 i "fst (re_event env)" "snd (re_event env)"]
    have "runs cl bo describe W P (d1, i) W P (d', i)" by simp
    with fin show ?thesis by (rule runs_trans)
  qed
qed

end
