(* ===== verification/System_Rounds.thy ===== *)
theory System_Rounds
  imports System
begin

text \<open>
  Every round of a worker, whatever it finds and however it ends, is a run of the system: the
  atomic functions of the worker are refinements of the interleaved steps.
\<close>

definition lossyClient ::
  "client \<Rightarrow> (request_error \<Rightarrow> string) \<Rightarrow> (http_request \<Rightarrow> irs_store \<Rightarrow> irs_store \<times> http_response option)
     \<Rightarrow> (http_request \<Rightarrow> irs_store \<Rightarrow> irs_store \<times> http_response option) \<Rightarrow> bool" where
  "lossyClient cl describe postIntake postStatus \<longleftrightarrow> lossyIntake describe postIntake \<and> lossyStatus describe postStatus"

lemma runs_submit_call:
  assumes "lossyIntake describe postIntake" and "w \<in> W"
    and "Submit (irsClientOver cl postIntake postStatus) (w_CanonicalXML w) i = (i', reply)"
  shows "runs cl bo describe W P (d, i) W (insert (w_Claim w, snd (submitPlan bo w reply)) P) (d, i')"
proof -
  let ?s = "\<lparr>sy_db = d, sy_irs = i, sy_work = W, sy_plans = P\<rparr>"
  obtain got where p: "postIntake (submitRequest cl (w_CanonicalXML w)) i = (i', got)" "reply = clientSubmit got"
    using assms(3) by (auto simp: irsClientOver_def split: prod.splits)
  from assms(1) [unfolded lossyIntake_def, rule_format, of "submitRequest cl (w_CanonicalXML w)" i] p(1)
  consider "i' = i" "got = None"
    | env r where "blocks16 (env_blocks env)" "handleIntake describe env (submitRequest cl (w_CanonicalXML w)) i = Some (i', r)"
      "got \<in> {None, Some r}"
    by auto
  then have "sys_step cl bo describe ?s (?s\<lparr>sy_irs := i', sy_plans := insert (w_Claim w, snd (submitPlan bo w (clientSubmit got))) P\<rparr>)"
  proof cases
    case 1
    with lost [of w ?s _ bo "''''" cl describe] assms(2) show ?thesis by simp
  next
    case 2
    with submitted [of w ?s env describe cl i' r got bo] assms(2) show ?thesis by simp
  qed
  then show ?thesis unfolding runs_def p(2) by (simp add: r_into_rtranclp)
qed

lemma runs_status_call:
  assumes "lossyStatus describe postStatus" and "w \<in> W"
    and "(searchType, v) \<in> {(SearchUTID, w_UTID w), (SearchReceiptID, w_ReceiptID w)}"
    and "Status (irsClientOver cl postIntake postStatus) (w_FirmID w) searchType v i = (i', reply)"
  shows "runs cl bo describe W P (d, i) W (insert (w_Claim w, snd (statusPlan bo w searchType reply)) P) (d, i')"
proof -
  let ?s = "\<lparr>sy_db = d, sy_irs = i, sy_work = W, sy_plans = P\<rparr>"
  let ?new = "\<lambda>r. insert (w_Claim w, snd (statusPlan bo w searchType r)) P"
  have "i' = i \<and> sys_step cl bo describe ?s (?s\<lparr>sy_plans := ?new reply\<rparr>)"
  proof (cases "w_FirmID w = '''' \<or> v = ''''")
    case True
    with assms(4) have "i' = i" "reply = clientStatus None"
      by (auto simp: irsClientOver_def clientStatus_def)
    with lost [of w ?s _ bo searchType cl describe] assms(2) show ?thesis by simp
  next
    case False
    with assms(3,4) obtain got where p: "postStatus (statusRequest cl (w_FirmID w) searchType v) i = (i', got)" "reply = clientStatus got"
      by (auto simp: irsClientOver_def split: prod.splits)
    from assms(1) [unfolded lossyStatus_def, rule_format, of "statusRequest cl (w_FirmID w) searchType v" i] p(1)
    consider "i' = i" "got = None"
      | now where "i' = i" "got = Some (handleStatus describe now (statusRequest cl (w_FirmID w) searchType v) i)"
      by auto
    then show ?thesis
    proof cases
      case 1
      with lost [of w ?s _ bo searchType cl describe] assms(2) p(2) show ?thesis by simp
    next
      case 2
      with asked [of w ?s searchType v _ describe _ cl bo] assms(2,3) False p(2) show ?thesis by simp
    qed
  qed
  then show ?thesis unfolding runs_def by (simp add: r_into_rtranclp)
qed

lemma runs_submit:
  assumes "lossyClient cl describe postIntake postStatus" and "w \<in> W"
    and "submit (irsClientOver cl postIntake postStatus) bo env w (d, i) = ((d', i'), r)"
  shows "\<exists>P'. runs cl bo describe W P (d, i) W P' (d', i')"
proof -
  let ?cmd = "\<lparr>acq_FirmID = w_FirmID w, acq_BatchID = w_BatchID w, acq_Operation = OperationSubmit\<rparr>"
  obtain d1 r1 where a: "AcquireCallPermit (re_start env) ?cmd d = (d1, r1)"
    by (cases "AcquireCallPermit (re_start env) ?cmd d") auto
  note acquire = runs_acquire [OF a, of cl bo describe W P i]
  show ?thesis
  proof (cases r1)
    case (Inl e)
    with assms(3) a acquire show ?thesis by (auto simp: submit_def)
  next
    case (Inr permit)
    obtain i1 reply where c: "Submit (irsClientOver cl postIntake postStatus) (w_CanonicalXML w) i = (i1, reply)"
      by (cases "Submit (irsClientOver cl postIntake postStatus) (w_CanonicalXML w) i") auto
    obtain d2 r2 where f: "finishThen env permit (submitPlan bo w reply) (w_Claim w) d1 = (d2, r2)"
      by (cases "finishThen env permit (submitPlan bo w reply) (w_Claim w) d1") auto
    from assms(3) a Inr c f have "d' = d2" "i' = i1" by (simp_all add: submit_def)
    moreover have "runs cl bo describe W P (d1, i) W (insert (w_Claim w, snd (submitPlan bo w reply)) P) (d1, i1)"
      using assms(1,2) c by (intro runs_submit_call) (simp_all add: lossyClient_def)
    moreover have "runs cl bo describe W (insert (w_Claim w, snd (submitPlan bo w reply)) P) (d1, i1)
        W (insert (w_Claim w, snd (submitPlan bo w reply)) P) (d2, i1)"
      by (rule runs_finishThen [OF f]) simp
    ultimately show ?thesis using acquire by (blast intro: runs_trans)
  qed
qed

lemma runs_status:
  assumes "lossyClient cl describe postIntake postStatus" and "w \<in> W"
    and "(searchType, v) \<in> {(SearchUTID, w_UTID w), (SearchReceiptID, w_ReceiptID w)}"
    and "status (irsClientOver cl postIntake postStatus) bo env w searchType v (d, i) = ((d', i'), r)"
  shows "\<exists>P'. runs cl bo describe W P (d, i) W P' (d', i')"
proof -
  let ?cmd = "\<lparr>acq_FirmID = w_FirmID w, acq_BatchID = w_BatchID w, acq_Operation = OperationStatus\<rparr>"
  obtain d1 r1 where a: "AcquireCallPermit (re_start env) ?cmd d = (d1, r1)"
    by (cases "AcquireCallPermit (re_start env) ?cmd d") auto
  note acquire = runs_acquire [OF a, of cl bo describe W P i]
  show ?thesis
  proof (cases r1)
    case (Inl e)
    with assms(4) a acquire show ?thesis by (auto simp: status_def)
  next
    case (Inr permit)
    obtain i1 reply where c: "Status (irsClientOver cl postIntake postStatus) (w_FirmID w) searchType v i = (i1, reply)"
      by (cases "Status (irsClientOver cl postIntake postStatus) (w_FirmID w) searchType v i") auto
    let ?plan = "statusPlan bo w searchType reply"
    obtain d2 r2 where f: "finishThen env permit ?plan (w_Claim w) d1 = (d2, r2)"
      by (cases "finishThen env permit ?plan (w_Claim w) d1") auto
    from assms(4) a Inr c f have "d' = d2" "i' = i1" by (simp_all add: status_def)
    moreover have "runs cl bo describe W P (d1, i) W (insert (w_Claim w, snd ?plan) P) (d1, i1)"
      using assms(1) by (intro runs_status_call [OF _ assms(2,3) c]) (simp add: lossyClient_def)
    moreover have "runs cl bo describe W (insert (w_Claim w, snd ?plan) P) (d1, i1)
        W (insert (w_Claim w, snd ?plan) P) (d2, i1)"
      by (rule runs_finishThen [OF f]) simp
    ultimately show ?thesis using acquire by (blast intro: runs_trans)
  qed
qed

lemma runs_give_up:
  assumes "w \<in> W" and "onStore (applyEvent t1 t2 (w_Claim w) (EvFailInvariant code)) (d, i) = ((d', i'), r)"
  shows "\<exists>P'. runs cl bo describe W P (d, i) W P' (d', i')"
proof -
  let ?s = "\<lparr>sy_db = d, sy_irs = i, sy_work = W, sy_plans = P\<rparr>"
  let ?P = "insert (w_Claim w, EvFailInvariant code) P"
  have "runs cl bo describe W P (d, i) W ?P (d, i)"
    unfolding runs_def using give_up [of w ?s cl bo describe code] assms(1) by (simp add: r_into_rtranclp)
  moreover have "runs cl bo describe W ?P (d, i) W ?P (fst (applyEvent t1 t2 (w_Claim w) (EvFailInvariant code) d), i)"
    by (rule runs_event) simp
  ultimately show ?thesis using assms(2)
    by (auto simp: onStore_def simp del: applyEvent.simps split: prod.splits intro: runs_trans)
qed

lemma runs_processWork:
  assumes "lossyClient cl describe postIntake postStatus" and "w \<in> W"
    and "processWork (irsClientOver cl postIntake postStatus) bo env w (d, i) = ((d', i'), r)"
  shows "\<exists>P'. runs cl bo describe W P (d, i) W P' (d', i')"
proof -
  have poll: "pollSearch w \<in> {(SearchUTID, w_UTID w), (SearchReceiptID, w_ReceiptID w)}"
    by (simp add: pollSearch_def)
  show ?thesis
    using assms(3) runs_give_up [OF assms(2)] runs_submit [OF assms(1,2)]
      runs_status [OF assms(1,2), of SearchUTID "w_UTID w"]
      runs_status [OF assms(1,2), of "fst (pollSearch w)" "snd (pollSearch w)"] poll
    unfolding processWork_def by (auto split: if_splits simp del: applyEvent.simps)
qed

lemma runs_ProcessOne:
  assumes "lossyClient cl describe postIntake postStatus"
    and "ProcessOne (irsClientOver cl postIntake postStatus) wk env firmID (d, i) = ((d', i'), r)"
  shows "\<exists>W' P'. runs cl (wk_backoff wk) describe W P (d, i) W' P' (d', i')"
proof -
  let ?cmd = "\<lparr>clm_FirmID = firmID, clm_WorkerID = wk_workerID wk, clm_LeaseDuration = wk_leaseDuration wk\<rparr>"
  obtain d1 r1 where c: "ClaimNextBatch (re_now env) (re_locked env) (re_entropy env) ?cmd d = (d1, r1)"
    by (cases "ClaimNextBatch (re_now env) (re_locked env) (re_entropy env) ?cmd d") auto
  have claimed: "runs cl (wk_backoff wk) describe W P (d, i) (handedOut r1 \<union> W) P (d1, i)"
    unfolding runs_def
    using claim [of "re_now env" "re_locked env" "re_entropy env" ?cmd
        "\<lparr>sy_db = d, sy_irs = i, sy_work = W, sy_plans = P\<rparr>" d1 r1 cl "wk_backoff wk" describe] c
    by (simp add: r_into_rtranclp)
  show ?thesis
  proof (cases "\<exists>w. r1 = Inr (Some w)")
    case True
    then obtain w where w: "r1 = Inr (Some w)" by blast
    obtain s2 r2 where p: "processWork (irsClientOver cl postIntake postStatus) (wk_backoff wk) env w (d1, i) = (s2, r2)"
      by (cases "processWork (irsClientOver cl postIntake postStatus) (wk_backoff wk) env w (d1, i)") auto
    with assms(2) c w have "s2 = (d', i')" by (auto simp: ProcessOne_def split: sum.splits)
    with p have "processWork (irsClientOver cl postIntake postStatus) (wk_backoff wk) env w (d1, i) = ((d', i'), r2)" by simp
    moreover have "w \<in> handedOut r1 \<union> W" using w by (simp add: handedOut_def)
    ultimately obtain P' where "runs cl (wk_backoff wk) describe (handedOut r1 \<union> W) P (d1, i) (handedOut r1 \<union> W) P' (d', i')"
      using runs_processWork [OF assms(1)] by blast
    with claimed show ?thesis by (blast intro: runs_trans)
  next
    case False
    with assms(2) c have "d' = d1" "i' = i" by (auto simp: ProcessOne_def split: sum.splits option.splits)
    with claimed show ?thesis by blast
  qed
qed

text \<open>A worker's loop refines the system: however many rounds the loop of a firm runs, against a
  transport that at worst loses messages, and however each of them ends, the two stores it leaves are
  reached by steps of the system: claims, gate and permit operations, exchanges with the stub and
  events recorded under the claim.\<close>

theorem worker_loop_is_run:
  assumes "lossyClient cl describe postIntake postStatus"
    and "firmLoop (irsClientOver cl postIntake postStatus) wk firmID envs (d, i) = ((d', i'), r)"
  shows "\<exists>W' P'. runs cl (wk_backoff wk) describe W P (d, i) W' P' (d', i')"
  using assms(2)
proof (induction envs arbitrary: d i W P)
  case (Cons env envs)
  obtain d1 i1 r1 where p: "ProcessOne (irsClientOver cl postIntake postStatus) wk env firmID (d, i) = ((d1, i1), r1)"
    by (cases "ProcessOne (irsClientOver cl postIntake postStatus) wk env firmID (d, i)") auto
  from runs_ProcessOne [OF assms(1) p] obtain W1 P1 where
    one: "runs cl (wk_backoff wk) describe W P (d, i) W1 P1 (d1, i1)" by blast
  show ?case
  proof (cases r1)
    case (Inl e)
    with Cons.prems p one show ?thesis by auto
  next
    case (Inr worked)
    with Cons.prems p have "firmLoop (irsClientOver cl postIntake postStatus) wk firmID envs (d1, i1) = ((d', i'), r)" by simp
    from Cons.IH [OF this] one show ?thesis by (blast intro: runs_trans)
  qed
qed (auto intro: runs_refl)

section \<open>A transport that always delivers\<close>

definition reliableIntake :: "(request_error \<Rightarrow> string) \<Rightarrow> irs_env \<Rightarrow> http_request \<Rightarrow> irs_store \<Rightarrow> irs_store \<times> http_response option" where
  "reliableIntake describe env request i =
     (case handleIntake describe env request i of None \<Rightarrow> (i, None) | Some (i', reply) \<Rightarrow> (i', Some reply))"

definition reliableStatus :: "(request_error \<Rightarrow> string) \<Rightarrow> int \<Rightarrow> http_request \<Rightarrow> irs_store \<Rightarrow> irs_store \<times> http_response option" where
  "reliableStatus describe now request i = (i, Some (handleStatus describe now request i))"

lemma reliable_lossy:
  assumes "blocks16 (env_blocks env)"
  shows "lossyClient cl describe (reliableIntake describe env) (reliableStatus describe now)"
  using assms unfolding lossyClient_def lossyIntake_def lossyStatus_def reliableIntake_def reliableStatus_def
  by (auto split: option.splits)

section \<open>Witness\<close>

definition deliverIntake :: "http_request \<Rightarrow> irs_store \<Rightarrow> irs_store \<times> http_response option" where
  "deliverIntake = reliableIntake (\<lambda>e. ''bad'') Irs_Idempotence.sampleEnv"

definition deliverStatus :: "http_request \<Rightarrow> irs_store \<Rightarrow> irs_store \<times> http_response option" where
  "deliverStatus = reliableStatus (\<lambda>e. ''bad'') 0"

definition sampleWorker :: worker where
  "sampleWorker = \<lparr>wk_workerID = ''w'', wk_leaseDuration = minute, wk_idleDelay = second, wk_backoff = sampleBackoff\<rparr>"

lemma deliver_lossy: "lossyClient sampleCl (\<lambda>e. ''bad'') deliverIntake deliverStatus"
  unfolding deliverIntake_def deliverStatus_def
  by (rule reliable_lossy) (simp add: blocks16_def Irs_Idempotence.sampleEnv_def)

theorem worker_loop_is_run_witness:
  "\<exists>W' P'. runs sampleCl (wk_backoff sampleWorker) (\<lambda>e. ''bad'') {} {} (claimedDb BPlanned None None, newStore sampleConfig) W' P'
     (fst (firmLoop (irsClientOver sampleCl deliverIntake deliverStatus) sampleWorker ''acme'' [Worker_Facts.sampleEnv]
        (claimedDb BPlanned None None, newStore sampleConfig)))"
proof -
  let ?loop = "firmLoop (irsClientOver sampleCl deliverIntake deliverStatus) sampleWorker ''acme'' [Worker_Facts.sampleEnv]
        (claimedDb BPlanned None None, newStore sampleConfig)"
  have "?loop = ((fst (fst ?loop), snd (fst ?loop)), snd ?loop)" by simp
  from worker_loop_is_run [OF deliver_lossy this] show ?thesis by simp
qed

end
