(* ===== verification/Worker_Run.thy ===== *)
theory Worker_Run
  imports System_Rounds
begin

text \<open>
  \<open>Worker.Run\<close> of \<open>service/internal/filing/worker.go\<close> for several firms: one loop per firm on shared
  stores, a context that the first failure or the caller cancels, and the channel of errors. The
  goroutines are interleaved round by round; a round that runs into the cancelled context is
  cut off where it stands, which the relation \<open>brk\<close> describes.
\<close>

section \<open>The loops\<close>

datatype loop_state = Working | Idling | Returned

text \<open>\<open>rn_errors\<close> is the channel: the firm, the error, and (for the statements only) whether a round
  failed by itself or was cut off; \<open>rn_parent\<close> says whether the caller's context is done.\<close>

record 's run_state =
  rn_stores :: 's
  rn_loops :: "loop_state list"
  rn_parent :: bool
  rn_cancelled :: bool
  rn_errors :: "(string \<times> go_error \<times> bool) list"

definition startRun :: "string list \<Rightarrow> 's \<Rightarrow> 's run_state" where
  "startRun firms s =
     \<lparr>rn_stores = s, rn_loops = replicate (length firms) Working, rn_parent = False, rn_cancelled = False, rn_errors = []\<rparr>"

text \<open>The error is sent and the run cancelled before the loop returns.\<close>

definition loopFails :: "string list \<Rightarrow> nat \<Rightarrow> go_error \<Rightarrow> bool \<Rightarrow> 's \<Rightarrow> 's run_state \<Rightarrow> 's run_state" where
  "loopFails firms k e byItself s r =
     r\<lparr>rn_stores := s, rn_loops := (rn_loops r)[k := Returned], rn_cancelled := True,
       rn_errors := rn_errors r @ [(firms ! k, e, byItself)]\<rparr>"

inductive run_step ::
  "'i irs_client \<Rightarrow> worker \<Rightarrow> (db \<times> 'i \<Rightarrow> db \<times> 'i \<Rightarrow> bool) \<Rightarrow> string list
     \<Rightarrow> (db \<times> 'i) run_state \<Rightarrow> (db \<times> 'i) run_state \<Rightarrow> bool"
  for irs wk brk firms where
  worked: "k < length (rn_loops r) \<Longrightarrow> rn_loops r ! k = Working \<Longrightarrow>
    ProcessOne irs wk env (firms ! k) (rn_stores r) = (s', Inr busy) \<Longrightarrow>
    run_step irs wk brk firms r (r\<lparr>rn_stores := s', rn_loops := (rn_loops r)[k := if busy then Working else Idling]\<rparr>)"
| failed: "k < length (rn_loops r) \<Longrightarrow> rn_loops r ! k = Working \<Longrightarrow>
    ProcessOne irs wk env (firms ! k) (rn_stores r) = (s', Inl e) \<Longrightarrow>
    run_step irs wk brk firms r (loopFails firms k e True s' r)"
| cut_off: "k < length (rn_loops r) \<Longrightarrow> rn_loops r ! k = Working \<Longrightarrow> rn_cancelled r \<Longrightarrow> brk (rn_stores r) s' \<Longrightarrow>
    run_step irs wk brk firms r (loopFails firms k ErrContext False s' r)"
| timer: "k < length (rn_loops r) \<Longrightarrow> rn_loops r ! k = Idling \<Longrightarrow>
    run_step irs wk brk firms r (r\<lparr>rn_loops := (rn_loops r)[k := Working]\<rparr>)"
| stopped: "k < length (rn_loops r) \<Longrightarrow> rn_loops r ! k = Idling \<Longrightarrow> rn_cancelled r \<Longrightarrow>
    run_step irs wk brk firms r (r\<lparr>rn_loops := (rn_loops r)[k := Returned]\<rparr>)"
| parent_done: "run_step irs wk brk firms r (r\<lparr>rn_parent := True, rn_cancelled := True\<rparr>)"

text \<open>After \<open>Wait\<close>: the first error of the channel, if there is one; without firms an error at once.\<close>

definition runAnswer :: "string list \<Rightarrow> 's run_state \<Rightarrow> unit result" where
  "runAnswer firms r =
     (if firms = [] then Inl (ErrMsg ''worker requires at least one firm'')
      else case rn_errors r of [] \<Rightarrow> Inr () | (firm, e, _) # _ \<Rightarrow> Inl e)"

section \<open>Invariants\<close>

text \<open>Each loop that sent an error has returned, so the buffered channel never blocks; the run is
  cancelled by a failure or the caller only, and the first error of an uncancelled run is a round's own.\<close>

definition run_inv :: "string list \<Rightarrow> 's run_state \<Rightarrow> bool" where
  "run_inv firms r \<longleftrightarrow>
     length (rn_loops r) = length firms
     \<and> length (rn_errors r) \<le> length (filter (\<lambda>l. l = Returned) (rn_loops r))
     \<and> (rn_cancelled r \<longleftrightarrow> rn_parent r \<or> rn_errors r \<noteq> [])
     \<and> (Returned \<in> set (rn_loops r) \<longrightarrow> rn_cancelled r)
     \<and> (\<not> rn_parent r \<and> rn_errors r \<noteq> [] \<longrightarrow> snd (snd (hd (rn_errors r))))
     \<and> fst ` set (rn_errors r) \<subseteq> set firms"

lemma returned_more:
  assumes "k < length ls" and "ls ! k \<noteq> Returned"
  shows "length (filter (\<lambda>l. l = Returned) (ls[k := Returned])) = Suc (length (filter (\<lambda>l. l = Returned) ls))"
    and "l \<noteq> Returned \<Longrightarrow> length (filter (\<lambda>l. l = Returned) (ls[k := l])) = length (filter (\<lambda>l. l = Returned) ls)"
  using assms by (induction ls arbitrary: k) (auto simp: nth_Cons split: nat.splits)

lemma run_inv_step:
  assumes "run_step irs wk brk firms r r'" and "run_inv firms r"
  shows "run_inv firms r'"
  using assms(1)
proof cases
  case (worked k env s' busy)
  have "set ((rn_loops r)[k := if busy then Working else Idling]) \<subseteq> insert (if busy then Working else Idling) (set (rn_loops r))"
    by (rule set_update_subset_insert)
  then have "Returned \<in> set ((rn_loops r)[k := if busy then Working else Idling]) \<Longrightarrow> Returned \<in> set (rn_loops r)"
    by (auto split: if_splits)
  with worked assms(2) returned_more(2) [of k "rn_loops r" "if busy then Working else Idling"] show ?thesis
    by (auto simp: run_inv_def)
next
  case (failed k env s' e)
  with assms(2) returned_more(1) [of k "rn_loops r"] show ?thesis
    by (cases "rn_errors r") (auto simp: run_inv_def loopFails_def)
next
  case (cut_off k s')
  with assms(2) returned_more(1) [of k "rn_loops r"] show ?thesis
    by (cases "rn_errors r") (auto simp: run_inv_def loopFails_def)
next
  case (timer k)
  have "set ((rn_loops r)[k := Working]) \<subseteq> insert Working (set (rn_loops r))" by (rule set_update_subset_insert)
  then have "Returned \<in> set ((rn_loops r)[k := Working]) \<Longrightarrow> Returned \<in> set (rn_loops r)" by auto
  with timer assms(2) returned_more(2) [of k "rn_loops r" Working] show ?thesis
    by (auto simp: run_inv_def)
next
  case (stopped k)
  with assms(2) returned_more(1) [of k "rn_loops r"] show ?thesis by (auto simp: run_inv_def)
next
  case parent_done
  with assms(2) show ?thesis by (auto simp: run_inv_def)
qed

lemma run_invariant:
  assumes "(run_step irs wk brk firms)\<^sup>*\<^sup>* (startRun firms s) r"
  shows "run_inv firms r"
  using assms
proof (induction rule: rtranclp_induct)
  case base
  show ?case by (auto simp: run_inv_def startRun_def)
next
  case (step r r')
  then show ?case using run_inv_step by blast
qed


section \<open>A run of the workers is a run of the system\<close>

text \<open>A round cut off leaves what some steps of the system leave.\<close>

definition cutRound :: "client \<Rightarrow> Backoff \<Rightarrow> (request_error \<Rightarrow> string) \<Rightarrow> db \<times> irs_store \<Rightarrow> db \<times> irs_store \<Rightarrow> bool" where
  "cutRound cl bo describe s s' \<longleftrightarrow> (\<forall>W P. \<exists>W' P'. runs cl bo describe W P s W' P' s')"


section \<open>Witnesses\<close>

text \<open>The loop of a firm with a blank name fails in its first round.\<close>

definition blankRun :: "(db \<times> irs_store) run_state" where
  "blankRun = loopFails [''''] 0 (ErrMsg ''invalid firm identity'') True (emptyDb, newStore sampleConfig)
     (startRun [''''] (emptyDb, newStore sampleConfig))"

lemma blank_step:
  "(run_step (irsClientOver sampleCl deliverIntake deliverStatus) sampleWorker brk [''''])\<^sup>*\<^sup>*
     (startRun [''''] (emptyDb, newStore sampleConfig)) blankRun"
proof -
  have bad: "validateFirmID '''' = Inl (ErrMsg ''invalid firm identity'')" by code_simp
  have "ProcessOne (irsClientOver sampleCl deliverIntake deliverStatus) sampleWorker Worker_Facts.sampleEnv ([''''] ! 0)
      (emptyDb, newStore sampleConfig) = ((emptyDb, newStore sampleConfig), Inl (ErrMsg ''invalid firm identity''))"
    using bad by (simp add: ProcessOne_def ClaimNextBatch_def beginFirm_def sampleWorker_def newClaimToken_def
        Worker_Facts.sampleEnv_def minute_def second_def)
  then show ?thesis
    unfolding blankRun_def
    by (intro r_into_rtranclp run_step.failed) (simp_all add: startRun_def)
qed



end
