(* ===== verification/Ledger.thy ===== *)
theory Ledger
  imports System
begin

text \<open>
  The ledger agrees with the IRS: in every state of the system each filing the database calls
  accepted or rejected is backed by exactly the verdict a recorded transmission of the firm holds
  for its key. The invariants: every batch has a payload the stub reads and text XML can carry,
  every receipt is one the stub issued, and every decision not yet recorded was drawn from a
  submission the stub still holds.
\<close>

section \<open>Payloads\<close>

definition wireBatch :: "batch_row \<Rightarrow> bool" where
  "wireBatch b \<longleftrightarrow> validChars (b_firm b) \<and> b_firm b \<noteq> '''' \<and> validChars (b_utid b) \<and> b_utid b \<noteq> ''''
     \<and> (\<forall>t. decodeTransmission (b_xml b) = Inr t \<longrightarrow> readableInput t)
     \<and> (\<forall>r. b_receipt b = Some r \<longrightarrow> opaque r)"

definition wireWork :: "BatchWork \<Rightarrow> bool" where
  "wireWork w \<longleftrightarrow> validChars (w_FirmID w) \<and> w_FirmID w \<noteq> '''' \<and> validChars (w_UTID w) \<and> w_UTID w \<noteq> ''''
     \<and> (\<forall>t. decodeTransmission (w_CanonicalXML w) = Inr t \<longrightarrow> readableInput t)
     \<and> (w_ReceiptID w \<noteq> '''' \<longrightarrow> opaque (w_ReceiptID w)) \<and> c_firmID (w_Claim w) = w_FirmID w"

definition wireBatches :: "db \<Rightarrow> bool" where
  "wireBatches d \<longleftrightarrow> (\<forall>b \<in> set (db_batches d). wireBatch b)"

lemma validateFirm_nonempty: "beginFirm firmID = Inr () \<Longrightarrow> firmID \<noteq> '''' \<and> length firmID \<le> 128"
  by (auto simp: beginFirm_def validateFirmID_def trimSpace_digits split: if_splits)

lemma groupUTID_text:
  assumes "validChars firmID" and "length firmID \<le> 128"
  shows "validChars (groupUTID firmID grp)" "groupUTID firmID grp \<noteq> ''''" "length (groupUTID firmID grp) \<le> 200"
proof -
  obtain digest u where id: "batchIdentity firmID (pf_clientID (hd grp)) (pf_taxYear (hd grp)) (map pf_key grp) = (digest, u)"
    by fastforce
  then have "u = uuidString digest @ '':IRIS:'' @ firmID @ ''::A''" and len: "length digest = 32"
    by (auto simp: batchIdentity_def Let_def setUUIDBits_def hashSequence_def)
  with id have utid: "groupUTID firmID grp = uuidString digest @ '':IRIS:'' @ firmID @ ''::A''"
    by (simp add: groupUTID_def)
  show "validChars (groupUTID firmID grp)"
    unfolding utid by (intro validChars_app validChars_plain uuid_plain assms(1)) simp_all
  show "groupUTID firmID grp \<noteq> ''''" unfolding utid by simp
  show "length (groupUTID firmID grp) \<le> 200" unfolding utid using assms(2) uuid_shape(1) [OF len] by simp
qed

lemma group_readable:
  assumes "groupOK grp" and "distinct (map pf_key grp)" and "validChars firmID" "firmID \<noteq> ''''" "length firmID \<le> 128"
    and "\<forall>f \<in> set grp. wireOK f \<and> pf_taxYear f = 2025 \<and> validChars (pf_clientID f) \<and> pf_clientID f \<noteq> ''''
           \<and> length (pf_key f) = 32"
    and "decodeTransmission (groupXML firmID grp) = Inr t"
  shows "readableInput t"
proof -
  have hd: "hd grp \<in> set grp" using assms(1) by (simp add: groupOK_def)
  have "\<exists>submissionID. decodeTransmission (groupXML firmID grp) = Inr \<lparr>tx_firmID = firmID,
      tx_clientID = pf_clientID (hd grp), tx_taxYear = ''2025'', tx_utid = groupUTID firmID grp,
      tx_submissionID = submissionID, tx_records = map wireRecord grp\<rparr>"
    using assms(6) hd by (intro group_decodes [OF assms(1) _ assms(2,3,4)]) auto
  with assms(7) have t: "tx_utid t = groupUTID firmID grp" "tx_records t = map wireRecord grp" by auto
  have "inj_on hexEncode (set (map pf_key grp))" by (simp add: inj_on_def)
  then have "distinct (map hexEncode (map pf_key grp))" using assms(2) by (simp only: distinct_map [of hexEncode])
  then have "distinctRecords t" by (simp add: distinctRecords_def t comp_def wireRecord_def filingKeyString_def)
  moreover have "\<forall>r \<in> set (tx_records t). fr_recordID r \<noteq> '''' \<and> validChars (fr_recordID r) \<and> length (fr_recordID r) \<le> 200"
    using assms(6) visible_valid [OF hexEncode_visible]
    by (auto simp: t wireRecord_def filingKeyString_def hexEncode_nonempty)
  ultimately show ?thesis
    using groupUTID_text [OF assms(3,5)] assms(1) by (simp add: readableInput_def t groupOK_def)
qed

lemma wireBatches_update:
  assumes "wireBatches d" and "updateBatches p u d = Inr (d', n)"
    and "\<And>b. wireBatch b \<Longrightarrow> p b \<Longrightarrow> wireBatch (u b)"
  shows "wireBatches d'"
  using assms updateBatches_Inr(1) [OF assms(2)] by (auto simp: wireBatches_def)

lemma claimRow_wire: "wireBatch b \<Longrightarrow> wireBatch (claimRow now w l token b)"
  by (simp add: wireBatch_def claimRow_def)

lemma hashMismatchRow_wire: "wireBatch b \<Longrightarrow> wireBatch (hashMismatchRow b)"
  by (simp add: wireBatch_def hashMismatchRow_def)

lemma eventUpdate_wire:
  assumes "wireBatch b" and "\<And>r. eventReceipt ev = Some r \<Longrightarrow> opaque r" and "eventWellFormed ev"
  shows "wireBatch (eventUpdate t1 ev b)"
  using assms by (cases ev) (auto simp: wireBatch_def eventRow_def statusRetryRow_def acknowledgedRow_def terminalRow_def
     )

lemma claim_wire:
  assumes "wireBatches d" and "ClaimNextBatch now locked entropy cmd d = (d', r)"
  shows "wireBatches d' \<and> (\<forall>w \<in> handedOut r. wireWork w)"
  using assms(2)
proof (cases rule: ClaimNextBatch_cases)
  case (claimed b token action)
  have "wireBatch b" using assms(1) claimed(1) by (simp add: wireBatches_def)
  then have "wireWork (claimWork action (clm_FirmID cmd) token
      (claimRow now (clm_WorkerID cmd) (Microseconds (clm_LeaseDuration cmd)) token b))"
    by (auto simp: wireBatch_def wireWork_def claimWork_def claimRow_def NewStoreClaim_def coalesce_def
        split: option.splits)
  moreover have "wireBatches d'" by (rule wireBatches_update [OF assms(1) claimed(4) claimRow_wire])
  ultimately show ?thesis using claimed(7) by (simp add: handedOut_def)
next
  case (mismatch b token d1 n)
  have "wireBatches d1" by (rule wireBatches_update [OF assms(1) mismatch(3) claimRow_wire])
  then have "wireBatches d'" by (rule wireBatches_update [OF _ mismatch(4) hashMismatchRow_wire])
  with mismatch(6) show ?thesis by (simp add: handedOut_def)
qed (use assms(1) in \<open>auto simp: handedOut_def\<close>)

lemma event_wire:
  assumes "wireBatches d" and "applyEvent t1 t2 c ev d = (d', r)" and "\<And>q. eventReceipt ev = Some q \<Longrightarrow> opaque q"
  shows "wireBatches d'"
proof (cases r)
  case (Inl e)
  with assms show ?thesis by (auto dest: applyEvent_Inl)
next
  case (Inr u)
  with assms(2) have "applyEvent t1 t2 c ev d = (d', Inr ())" by simp
  then obtain d1 where d1: "db_batches d1 = db_batches d"
    and u: "updateBatches (claimRowOf t1 c (eventStates ev)) (eventUpdate t1 ev) d1 = Inr (d', 1)"
    and wf: "eventWellFormed ev"
    by (rule applyEvent_Inr)
  from assms(1) d1 have "wireBatches d1" by (simp add: wireBatches_def)
  then show ?thesis
    by (rule wireBatches_update [OF _ u]) (rule eventUpdate_wire [OF _ assms(3) wf])
qed

lemma PlanBatches_begin: "PlanBatches now cmd d = (d', Inr r) \<Longrightarrow> beginFirm (plan_FirmID cmd) = Inr ()"
  by (auto simp: PlanBatches_def Let_def split: if_splits sum.splits)

text \<open>The groups a plan forms: each of one client, with distinct keys, all of ready filings.\<close>

lemma group_keys:
  assumes "schema_ok d" and "grp \<in> set (groupsFrom (readyFilings firmID det d) 0)"
  shows "groupOK grp" "set grp \<subseteq> set (readyFilings firmID det d)" "distinct (map pf_key grp)"
    "\<forall>f \<in> set grp. length (pf_key f) = 32"
proof -
  let ?ready = "readyFilings firmID det d"
  have parts: "concat (groupsFrom ?ready 0) = ?ready" by (simp add: groupsFrom_concat)
  have "distinct (map f_key (db_filings d))" "\<forall>f \<in> set (db_filings d). filing_row_ok f"
    using assms(1) by (simp_all add: schema_ok_def filing_table_ok_def)
  then have keys: "distinct (map pf_key ?ready)" "\<forall>f \<in> set ?ready. length (pf_key f) = 32"
    by (auto simp: readyFilings_def scanFiling_def comp_def filing_row_ok_def distinct_map inj_on_def)
  show "groupOK grp" using assms(2) groupsFrom_groupOK by blast
  show sub: "set grp \<subseteq> set ?ready"
    using assms(2) arg_cong [OF parts, of set] by auto
  have "distinct (map pf_key (concat (groupsFrom ?ready 0)))" using keys(1) parts by simp
  then show "distinct (map pf_key grp)"
    using assms(2) unfolding map_concat by (auto simp: distinct_concat_iff)
  show "\<forall>f \<in> set grp. length (pf_key f) = 32" using keys(2) sub by blast
qed

lemma plan_wire:
  assumes "schema_ok d" and "wireBatches d" and "carriable cmd d" and "PlanBatches now cmd d = (d', r)"
  shows "wireBatches d'"
proof (cases r)
  case (Inl e)
  with assms show ?thesis by (auto dest: PlanBatches_Inl)
next
  case (Inr res)
  with assms(4) have ok: "PlanBatches now cmd d = (d', Inr res)" by simp
  from ok show ?thesis
  proof (cases rule: PlanBatches_Inr)
    case (planned groups base rows links)
    note firm = validateFirm_nonempty [OF PlanBatches_begin [OF ok]]
    have "wireBatch (groupRow now (plan_FirmID cmd) base i grp)" if g: "grp \<in> set groups" for i grp
    proof -
      note grp = group_keys [OF assms(1) g [unfolded planned(1)]]
      have "decodeTransmission (groupXML (plan_FirmID cmd) grp) = Inr t \<Longrightarrow> readableInput t" for t
        using assms(3) firm grp by (intro group_readable [of grp "plan_FirmID cmd"]) (auto simp: carriable_def)
      with groupUTID_text assms(3) firm show ?thesis
        by (simp add: wireBatch_def groupRow_def plannedRow_def planGroup_def carriable_def)
    qed
    then have "\<forall>b \<in> set rows. wireBatch b" by (auto simp: planned(4) in_set_enumerate_eq)
    with assms(2) planned(10) show ?thesis by (auto simp: wireBatches_def)
  qed (use assms in simp)
qed

lemma quiet_wire:
  assumes "schema_ok d" and "wireBatches d" and "quiet d op"
  shows "wireBatches (storeStep op d)"
proof (cases op)
  case (OpPlan now cmd)
  with assms plan_wire show ?thesis by (metis prod.collapse quiet.simps(3) storeStep.simps(3))
qed (use assms in \<open>simp_all add: wireBatches_def other_batches\<close>)

section \<open>Decisions\<close>

text \<open>The outcomes of a submission the stub holds for the firm.\<close>

definition drawnFrom :: "irs_store \<Rightarrow> string \<Rightarrow> FilingOutcome list \<Rightarrow> bool" where
  "drawnFrom irs firmID os \<longleftrightarrow>
     (\<exists>u x. findByUTID firmID u irs = Some x \<and> os = map outcomeOf (sub_results x))"

definition plan_ok :: "irs_store \<Rightarrow> Claim \<times> lifecycle_event \<Rightarrow> bool" where
  "plan_ok irs p \<longleftrightarrow>
     (\<forall>os. snd p = EvCompleteAcknowledgment os \<longrightarrow> drawnFrom irs (c_firmID (fst p)) os)
     \<and> (\<forall>r. eventReceipt (snd p) = Some r \<longrightarrow> opaque r)"

lemma submitPlan_ok:
  assumes "\<And>q. reply = Inr q \<Longrightarrow> sr_StatusCode q = 200 \<Longrightarrow> opaque (sr_ReceiptID q)"
  shows "plan_ok irs (c, snd (submitPlan bo w reply))"
  using assms
  by (auto simp: plan_ok_def submitPlan_def retrySubmit_def Let_def split: sum.splits call_error.splits if_splits prod.splits)

lemma clientSubmit_error:
  "rs_Status reply \<noteq> 200 \<Longrightarrow> clientSubmit (Some reply) = Inr q \<Longrightarrow> sr_StatusCode q \<noteq> 200"
  by (auto simp: clientSubmit_def split: option.splits)

lemma writeError_status [simp]: "rs_Status (writeError code c m) = code"
  by (simp add: writeError_def writeXML_def)

lemma submitted_ok:
  assumes "intake_reachable config irs" and "cl_token cl = ic_BearerToken (st_config irs)" and "wireWork w"
    and "blocks16 (env_blocks env)"
    and "handleIntake describe env (submitRequest cl (w_CanonicalXML w)) irs = Some (irs', reply)"
    and "got \<in> {None, Some reply}"
  shows "intake_reachable config irs'" and "plan_ok irs' (c, snd (submitPlan bo w (clientSubmit got)))"
    and "findByUTID f u irs = Some x \<Longrightarrow> findByUTID f u irs' = Some x"
proof -
  have "intake_reachable config irs' \<and> (findByUTID f u irs = Some x \<longrightarrow> findByUTID f u irs' = Some x)
    \<and> (\<forall>q. clientSubmit (Some reply) = Inr q \<longrightarrow> sr_StatusCode q = 200 \<longrightarrow> opaque (sr_ReceiptID q))"
  proof (cases "\<exists>input. decodeTransmission (w_CanonicalXML w) = Inr input")
    case True
    then obtain input where input: "decodeTransmission (w_CanonicalXML w) = Inr input" by blast
    then have readable: "readableInput input" using assms(3) by (simp add: wireWork_def)
    have "payload \<noteq> []" if "decodeTransmission payload = Inr input" for payload using that decodeTransmission_Nil by auto
    with input assms(2,5) obtain answer where answer: "storeRecord env input irs = Some (irs', answer)"
      by (auto simp: handleIntake_def readMultipartXML_def submitRequest_def clientRequest_def authorized_def)
    from intake_reads [OF assms(2) input assms(4) answer, of describe] assms(5)
    have "clientSubmit (Some reply) = Inr (submitMeaning answer)" by auto
    moreover have "opaque (sr_ReceiptID (submitMeaning answer))" if "sr_StatusCode (submitMeaning answer) = 200"
      using that answer storeRecord_receipt [OF _ assms(4)]
      by (auto simp: submitMeaning_def split: sum.splits irs_error.splits prod.splits intakeFault.splits)
    ultimately show ?thesis
      using intake_next [OF assms(1) readable assms(4) answer] irs.frozen [OF answer, of "(f, u)" x]
      by (auto simp: findByUTID_def)
  next
    case False
    then obtain e where e: "decodeTransmission (w_CanonicalXML w) = Inl e" by (cases "decodeTransmission (w_CanonicalXML w)") auto
    with assms(2,5) have "irs' = irs" "rs_Status reply \<noteq> 200"
      by (auto simp: handleIntake_def readMultipartXML_def submitRequest_def clientRequest_def authorized_def split: if_splits)
    with assms(1) clientSubmit_error show ?thesis by auto
  qed
  moreover have "clientSubmit None = Inl TransportFailure" by (simp add: clientSubmit_def)
  ultimately show "intake_reachable config irs'" "plan_ok irs' (c, snd (submitPlan bo w (clientSubmit got)))"
    "findByUTID f u irs = Some x \<Longrightarrow> findByUTID f u irs' = Some x"
    using assms(6) by (auto intro!: submitPlan_ok)
qed

lemma statusPlan_event_of:
  assumes "snd (statusPlan bo w searchType (Inr (statusMeaning now found))) = ev"
  shows "(\<forall>os. ev = EvCompleteAcknowledgment os \<longrightarrow> (\<exists>x. found = Some x \<and> os = map outcomeOf (sub_results x)))
    \<and> (\<forall>r. eventReceipt ev = Some r \<longrightarrow> (\<exists>x. found = Some x \<and> r = sub_receiptID x))"
  using assms
  by (cases found) (auto simp: statusPlan_def statusMeaning_def retryStatus_def Let_def split: if_splits prod.splits)

definition foundBy :: "string \<Rightarrow> string \<Rightarrow> string \<Rightarrow> irs_store \<Rightarrow> submission option" where
  "foundBy searchType firmID v irs = (if searchType = SearchUTID then findByUTID firmID v irs else findByReceiptID firmID v irs)"

lemma found_recorded:
  assumes "intake_reachable config irs" and "foundBy searchType firmID v irs = Some x"
  shows "findByUTID firmID (sub_utid x) irs = Some x" "answerable x"
proof -
  note inv = intake_reachable_inv [OF assms(1)]
  show "findByUTID firmID (sub_utid x) irs = Some x"
  proof (cases "searchType = SearchUTID")
    case True
    with assms(2) irs_inv_utidD(2) [OF inv] show ?thesis by (auto simp: findByUTID_def foundBy_def)
  next
    case False
    with assms(2) have "submissionsByReceiptID irs v = Some x" "sub_firmID x = firmID"
      by (auto simp: findByReceiptID_def foundBy_def split: option.splits if_splits)
    with irs_inv_receiptD(3) [OF inv] show ?thesis by (metis findByUTID_def)
  qed
  then show "answerable x" using intake_reachable_answerable [OF assms(1)] by (auto simp: findByUTID_def)
qed

lemma asked_reads:
  assumes "intake_reachable config irs" and "cl_token cl = ic_BearerToken (st_config irs)" and "wireWork w"
    and "(searchType, v) \<in> {(SearchUTID, w_UTID w), (SearchReceiptID, w_ReceiptID w)}" and "v \<noteq> ''''"
  shows "clientStatus (Some (handleStatus describe now (statusRequest cl (w_FirmID w) searchType v) irs))
    = Inr (statusMeaning now (foundBy searchType (w_FirmID w) v irs))"
proof -
  have "validChars v" using assms(3-5) visible_valid by (auto simp: wireWork_def opaque_def)
  then show ?thesis
    using assms(3-5) found_recorded [OF assms(1)] unfolding foundBy_def
    by (intro status_reads [OF assms(2)]) (auto simp: wireWork_def foundBy_def)
qed

lemma asked_ok:
  assumes "intake_reachable config irs" and "cl_token cl = ic_BearerToken (st_config irs)" and "wireWork w"
    and "(searchType, v) \<in> {(SearchUTID, w_UTID w), (SearchReceiptID, w_ReceiptID w)}" and "v \<noteq> ''''"
    and "reply = handleStatus describe now (statusRequest cl (w_FirmID w) searchType v) irs"
  shows "plan_ok irs (w_Claim w, snd (statusPlan bo w searchType (clientStatus (Some reply))))"
proof -
  have firm: "c_firmID (w_Claim w) = w_FirmID w" using assms(3) by (simp add: wireWork_def)
  show ?thesis
    using statusPlan_event_of [OF refl, of bo w searchType now "foundBy searchType (w_FirmID w) v irs"] found_recorded [OF assms(1)]
    unfolding assms(6) asked_reads [OF assms(1-5)] plan_ok_def drawnFrom_def fst_conv snd_conv firm by (fastforce simp: answerable_def)
qed

lemma lost_ok:
  assumes "plan \<in> {snd (submitPlan bo w (clientSubmit None)), snd (statusPlan bo w searchType (clientStatus None))}"
  shows "plan_ok irs (c, plan)"
  using assms
  by (auto simp: plan_ok_def submitPlan_def statusPlan_def retrySubmit_def retryStatus_def clientSubmit_def clientStatus_def
      split: if_splits prod.splits)

lemma drawnFrom_kept:
  assumes "drawnFrom irs firmID os" and "\<And>u x. findByUTID firmID u irs = Some x \<Longrightarrow> findByUTID firmID u irs' = Some x"
  shows "drawnFrom irs' firmID os"
  using assms by (auto simp: drawnFrom_def)

section \<open>The ledger\<close>

definition backed :: "irs_store \<Rightarrow> filing_row \<Rightarrow> bool" where
  "backed irs f \<longleftrightarrow>
     (f_state f = FAccepted \<longrightarrow> (\<exists>u x r. findByUTID (f_firm f) u irs = Some x \<and> r \<in> set (sub_results x)
        \<and> rr_recordID r = filingKeyString (f_key f) \<and> rr_status r = ''Accepted''
        \<and> f_irs_record_id f = Some (rr_irsRecordID r)))
     \<and> (f_state f = FRejected \<longrightarrow> (\<exists>u x r. findByUTID (f_firm f) u irs = Some x \<and> r \<in> set (sub_results x)
        \<and> rr_recordID r = filingKeyString (f_key f) \<and> rr_status r = ''Rejected''
        \<and> f_rejection_reason f = Some (rr_errorReason r)))"

definition ledger_ok :: "irs_store \<Rightarrow> db \<Rightarrow> bool" where
  "ledger_ok irs d \<longleftrightarrow> (\<forall>f \<in> set (db_filings d). backed irs f)"

lemma settleOutcomes_origin:
  assumes "settleOutcomes t firmID expected seen os fs = Inr fs'" and "f' \<in> set fs'"
  shows "f' \<in> set fs \<or> (\<exists>outcome f. outcome \<in> set os \<and> f \<in> set fs \<and> f_id f = f_id f' \<and> f_key f = f_key f'
      \<and> f_firm f' = firmID \<and> map_of (rev expected) (FilingKey outcome) = Some (f_id f') \<and> settledBy outcome f')"
  using assms
proof (induction os arbitrary: seen fs)
  case (Cons outcome rest)
  from Cons.prems(1) obtain i fs1 where i: "map_of (rev expected) (FilingKey outcome) = Some i"
    and valid: "validOutcome outcome"
    and u: "sql_update filing_update_ok filing_row_ok filing_table_ok
        (\<lambda>f. f_id f = i \<and> f_firm f = firmID \<and> f_state f = FBatched) (outcomeRow t outcome) fs = Inr (fs1, 1)"
    and rest: "settleOutcomes t firmID expected (FilingKey outcome # seen) rest fs1 = Inr fs'"
    by (rule settleOutcomes_step)
  have row: "f_id (outcomeRow t outcome f) = f_id f \<and> f_key (outcomeRow t outcome f) = f_key f
      \<and> f_firm (outcomeRow t outcome f) = f_firm f" for f by (simp add: outcomeRow_def)
  have prior: "g \<in> set fs \<or> (\<exists>f \<in> set fs. g = outcomeRow t outcome f \<and> f_id f = i \<and> f_firm f = firmID)"
    if "g \<in> set fs1" for g
    using that unfolding sql_update_Inr(1) [OF u] by (auto split: if_splits)
  have origin: "\<exists>f \<in> set fs. f_id f = f_id g \<and> f_key f = f_key g" if "g \<in> set fs1" for g
    using prior [OF that] row by metis
  from Cons.IH [OF rest Cons.prems(2)] show ?case
  proof
    assume "f' \<in> set fs1"
    from prior [OF this] show ?thesis
      using row outcomeRow_settled [OF valid] i by fastforce
  next
    assume "\<exists>o2 f. o2 \<in> set rest \<and> f \<in> set fs1 \<and> f_id f = f_id f' \<and> f_key f = f_key f'
      \<and> f_firm f' = firmID \<and> map_of (rev expected) (FilingKey o2) = Some (f_id f') \<and> settledBy o2 f'"
    then obtain o2 f where f: "o2 \<in> set rest" "f \<in> set fs1" "f_id f = f_id f'" "f_key f = f_key f'"
      "f_firm f' = firmID" "map_of (rev expected) (FilingKey o2) = Some (f_id f')" "settledBy o2 f'" by blast
    from origin [OF f(2)] f show ?thesis by fastforce
  qed
qed simp

lemma settled_backed:
  assumes "settledBy (outcomeOf r) f" and "readableResult r" and "findByUTID (f_firm f) u irs = Some x"
    and "r \<in> set (sub_results x)" and "rr_recordID r = filingKeyString (f_key f)"
  shows "backed irs f"
proof (cases "rr_status r = ''Accepted''")
  case True
  with assms(1,2) have "f_state f = FAccepted" "f_irs_record_id f = Some (rr_irsRecordID r)"
    by (auto simp: settledBy_def outcomeOf_def readableResult_def opaque_def)
  with True assms(3-5) show ?thesis unfolding backed_def by auto
next
  case False
  with assms(1,2) have "f_state f = FRejected" "rr_status r = ''Rejected''" "f_rejection_reason f = Some (rr_errorReason r)"
    by (auto simp: settledBy_def outcomeOf_def readableResult_def)
  with assms(3-5) show ?thesis unfolding backed_def by auto
qed

lemma event_ledger:
  assumes "schema_ok d" and "ledger_ok irs d" and "intake_reachable config irs" and "plan_ok irs (c, ev)"
    and "applyEvent t1 t2 c ev d = (d', r)"
  shows "ledger_ok irs d'"
  using applyEvent_filings [OF assms(5)]
proof
  assume "db_filings d' = db_filings d"
  with assms(2) show ?thesis by (simp add: ledger_ok_def)
next
  assume "\<exists>os. ev = EvCompleteAcknowledgment os \<and> settleOutcomes t1 (c_firmID c)
          (batchFilings (c_batchID c) (c_firmID c) d) [] os (db_filings d) = Inr (db_filings d')"
  then obtain os where ev: "ev = EvCompleteAcknowledgment os"
    and s: "settleOutcomes t1 (c_firmID c) (batchFilings (c_batchID c) (c_firmID c) d) [] os (db_filings d) = Inr (db_filings d')"
    by blast
  from assms(4) ev obtain u x where x: "findByUTID (c_firmID c) u irs = Some x" "os = map outcomeOf (sub_results x)"
    by (auto simp: plan_ok_def drawnFrom_def)
  have ids: "distinct (map f_id (db_filings d))" using assms(1) by (simp add: schema_ok_def filing_table_ok_def)
  show ?thesis
    unfolding ledger_ok_def
  proof
    fix f' assume f': "f' \<in> set (db_filings d')"
    from settleOutcomes_origin [OF s f'] show "backed irs f'"
    proof
      assume "f' \<in> set (db_filings d)"
      with assms(2) show ?thesis by (simp add: ledger_ok_def)
    next
      assume "\<exists>outcome f. outcome \<in> set os \<and> f \<in> set (db_filings d) \<and> f_id f = f_id f' \<and> f_key f = f_key f'
        \<and> f_firm f' = c_firmID c
        \<and> map_of (rev (batchFilings (c_batchID c) (c_firmID c) d)) (FilingKey outcome) = Some (f_id f') \<and> settledBy outcome f'"
      then obtain outcome f where o: "outcome \<in> set os" "f \<in> set (db_filings d)" "f_id f = f_id f'" "f_key f = f_key f'"
        "f_firm f' = c_firmID c" "settledBy outcome f'"
        and m: "map_of (rev (batchFilings (c_batchID c) (c_firmID c) d)) (FilingKey outcome) = Some (f_id f')" by blast
      from map_of_SomeD [OF m] have "(FilingKey outcome, f_id f') \<in> set (batchFilings (c_batchID c) (c_firmID c) d)" by simp
      then obtain g where g: "g \<in> set (db_filings d)" "hexEncode (f_key g) = FilingKey outcome" "f_id g = f_id f'"
        by (rule batchFilings_mem)
      with ids o(2,3) have "g = f" by (metis distinct_map inj_onD)
      with g(2) o(4) have key: "FilingKey outcome = filingKeyString (f_key f')" by (simp add: filingKeyString_def)
      from o(1) x(2) obtain q where q: "q \<in> set (sub_results x)" "outcome = outcomeOf q" by auto
      have "answerable x" using intake_reachable_answerable [OF assms(3)] x(1) by (auto simp: findByUTID_def)
      with q(1) have "readableResult q" by (auto simp: answerable_def list_all_iff)
      with settled_backed [of q f' u irs x] o(5,6) q key x(1) show ?thesis by (simp add: outcomeOf_def)
    qed
  qed
qed

lemma ledger_append:
  assumes "db_filings d' = db_filings d @ new" and "\<forall>f \<in> set new. f_state f \<in> {FReady, FBlockedPreflight}" and "ledger_ok irs d"
  shows "ledger_ok irs d'"
  using assms by (auto simp: ledger_ok_def backed_def)

lemma determine_ledger:
  assumes "ledger_ok irs d"
  shows "ledger_ok irs (fst (DetermineDataset cmd d))"
proof (cases "\<exists>r. snd (DetermineDataset cmd d) = Inr r \<and> \<not> dr_Existing r")
  case True
  then obtain r where "DetermineDataset cmd d = (fst (DetermineDataset cmd d), Inr r)" "\<not> dr_Existing r"
    by (metis prod.collapse)
  then show ?thesis
  proof (rule DetermineDataset_fresh)
    fix ds :: dataset_row and row new
    assume "new = prepared (det_FirmID cmd) (dr_DeterminationID r) (d_tax_year ds) (classified (det_DatasetID cmd) (det_FirmID cmd) d)"
      and "fst (DetermineDataset cmd d) = d\<lparr>db_determinations := db_determinations d @ [row],
            db_filings := db_filings d @ numberFilings (nextId (map f_id (db_filings d))) new\<rparr>"
    moreover have "f_state f \<in> {FReady, FBlockedPreflight}"
      if "f \<in> set (numberFilings base (prepared firm det y ps))" for f base firm det y ps
      using that by (auto simp: numberFilings_def prepared_def preparedFiling_def Let_def in_set_enumerate_eq split: if_splits)
    ultimately show ?thesis by (intro ledger_append [OF _ _ assms]) (simp, blast)
  qed
next
  case False
  then have "fst (DetermineDataset cmd d) = d"
    by (intro DetermineDataset_unchanged [of cmd d _ "snd (DetermineDataset cmd d)"]) simp_all
  with assms show ?thesis by simp
qed

lemma plan_ledger:
  assumes "ledger_ok irs d"
  shows "ledger_ok irs (fst (PlanBatches now cmd d))"
proof (cases "PlanBatches now cmd d")
  case (Pair d' r)
  show ?thesis
  proof (cases r)
    case (Inl e)
    with Pair assms show ?thesis by (auto dest: PlanBatches_Inl)
  next
    case (Inr res)
    with Pair have "PlanBatches now cmd d = (d', Inr res)" by simp
    then show ?thesis
    proof (cases rule: PlanBatches_Inr)
      case (planned groups base rows links)
      show ?thesis using assms unfolding Pair fst_conv planned(10) ledger_ok_def
        by (auto simp: backed_def split: if_splits)
    qed (use Pair assms in simp)
  qed
qed

lemma quiet_ledger:
  assumes "ledger_ok irs d" and "quiet d op"
  shows "ledger_ok irs (storeStep op d)"
proof (cases op)
  case (OpDetermine cmd)
  then show ?thesis using determine_ledger [OF assms(1)] by simp
next
  case (OpPlan now cmd)
  then show ?thesis using plan_ledger [OF assms(1)] by simp
qed (use assms in \<open>simp_all add: ledger_ok_def other_filings\<close>)

section \<open>The system keeps its ledger\<close>

definition sys_inv :: "IrsConfig \<Rightarrow> sys \<Rightarrow> bool" where
  "sys_inv config s \<longleftrightarrow> schema_ok (sy_db s) \<and> wireBatches (sy_db s) \<and> (\<forall>w \<in> sy_work s. wireWork w)
     \<and> intake_reachable config (sy_irs s) \<and> (\<forall>p \<in> sy_plans s. plan_ok (sy_irs s) p)
     \<and> ledger_ok (sy_irs s) (sy_db s)"

lemma sys_invD:
  assumes "sys_inv config s"
  shows "schema_ok (sy_db s)" "wireBatches (sy_db s)" "w \<in> sy_work s \<Longrightarrow> wireWork w"
    "intake_reachable config (sy_irs s)" "p \<in> sy_plans s \<Longrightarrow> plan_ok (sy_irs s) p" "ledger_ok (sy_irs s) (sy_db s)"
  using assms by (auto simp: sys_inv_def)

lemma intake_reachable_config: "intake_reachable config irs \<Longrightarrow> st_config irs = config"
proof (induction rule: intake_reachable.induct)
  case (intake_next s t env s' answer)
  from intake_next.hyps(4) intake_next.IH show ?case by (cases rule: storeRecord_cases) auto
qed (simp add: newStore_def)

lemma backed_kept:
  assumes "backed irs f" and "\<And>f u x. findByUTID f u irs = Some x \<Longrightarrow> findByUTID f u irs' = Some x"
  shows "backed irs' f"
  using assms unfolding backed_def by blast

lemma plan_ok_kept:
  assumes "plan_ok irs p" and "\<And>f u x. findByUTID f u irs = Some x \<Longrightarrow> findByUTID f u irs' = Some x"
  shows "plan_ok irs' p"
  using assms drawnFrom_kept unfolding plan_ok_def by blast

lemma claim_ledger:
  assumes "ledger_ok irs d" and "ClaimNextBatch now locked entropy cmd d = (d', r)"
  shows "ledger_ok irs d'"
  using assms other_filings(2) [of now locked entropy cmd d] by (simp add: ledger_ok_def)

lemma sys_step_inv:
  assumes "sys_inv config s" and "sys_step cl bo describe s s'" and "cl_token cl = ic_BearerToken config"
  shows "sys_inv config s'"
  using assms(2)
proof (cases rule: sys_step.cases)
  note inv = sys_invD [OF assms(1)]
  have token: "cl_token cl = ic_BearerToken (st_config (sy_irs s))"
    using assms(3) intake_reachable_config [OF inv(4)] by simp
  {
    case (operate op)
    then show ?thesis
      using inv storeStep_schema quiet_wire quiet_ledger by (simp add: sys_inv_def)
  next
    case (claim now locked entropy cmd d' r)
    note wire = claim_wire [OF inv(2) claim(2)]
    have "schema_ok d'" by (rule ClaimNextBatch_schema [OF inv(1) claim(2)])
    moreover have "ledger_ok (sy_irs s) d'" by (rule claim_ledger [OF inv(6) claim(2)])
    ultimately show ?thesis using wire inv(3-5) unfolding claim(1) by (auto simp: sys_inv_def)
  next
    case (lost w plan searchType)
    have "plan_ok (sy_irs s) (w_Claim w, plan)" by (rule lost_ok [OF lost(3)])
    then show ?thesis using inv unfolding lost(1) by (auto simp: sys_inv_def)
  next
    case (submitted w env irs' reply got)
    note ok = submitted_ok [OF inv(4) token inv(3) [OF submitted(2)] submitted(3-5)]
    have kept: "findByUTID f u (sy_irs s) = Some x \<Longrightarrow> findByUTID f u irs' = Some x" for f u x by (rule ok(3))
    have "\<forall>p \<in> sy_plans s. plan_ok irs' p" using inv(5) kept plan_ok_kept by blast
    moreover have "ledger_ok irs' (sy_db s)" using inv(6) kept backed_kept unfolding ledger_ok_def by blast
    ultimately show ?thesis using inv(1-3) ok(1,2) unfolding submitted(1) by (simp add: sys_inv_def)
  next
    case (asked w searchType v reply now)
    have "plan_ok (sy_irs s) (w_Claim w, snd (statusPlan bo w searchType (clientStatus (Some reply))))"
      by (rule asked_ok [OF inv(4) token inv(3) [OF asked(2)] asked(3,5,6)])
    then show ?thesis using inv unfolding asked(1) by (auto simp: sys_inv_def)
  next
    case (give_up w code)
    have "plan_ok (sy_irs s) (w_Claim w, EvFailInvariant code)" by (simp add: plan_ok_def)
    then show ?thesis using inv unfolding give_up(1) by (auto simp: sys_inv_def)
  next
    case (record_event c ev t1 t2 d' r)
    have plan: "plan_ok (sy_irs s) (c, ev)" by (rule inv(5) [OF record_event(2)])
    have "schema_ok d'" by (rule applyEvent_schema [OF inv(1) record_event(3)])
    moreover have "wireBatches d'"
      by (rule event_wire [OF inv(2) record_event(3)]) (use plan in \<open>auto simp: plan_ok_def\<close>)
    moreover have "ledger_ok (sy_irs s) d'"
      by (rule event_ledger [OF inv(1) inv(6) inv(4) plan record_event(3)])
    ultimately show ?thesis using inv(3-5) unfolding record_event(1) by (simp add: sys_inv_def)
  }
qed

lemma sys_start_inv: "unfiled d \<Longrightarrow> sys_inv config (sys_start config d)"
  by (auto simp: unfiled_def sys_inv_def sys_start_def wireBatches_def ledger_ok_def backed_def intake_start)

lemma sys_reachable_inv:
  assumes "sys_reachable config cl bo describe s" and "cl_token cl = ic_BearerToken config"
  shows "sys_inv config s"
proof -
  from assms(1) obtain d where "unfiled d" and run: "(sys_step cl bo describe)\<^sup>*\<^sup>* (sys_start config d) s"
    by (auto simp: sys_reachable_def)
  from run show ?thesis
  proof (induction rule: rtranclp_induct)
    case (step y z)
    with sys_step_inv assms(2) show ?case by blast
  qed (rule sys_start_inv [OF \<open>unfiled d\<close>])
qed

lemma ledger_verdict:
  assumes "sys_reachable config cl bo describe s" and "cl_token cl = ic_BearerToken config"
    and "f \<in> set (db_filings (sy_db s))" and "f_state f \<in> {FAccepted, FRejected}"
  shows "\<exists>u x r. findByUTID (f_firm f) u (sy_irs s) = Some x
      \<and> filter (\<lambda>q. rr_recordID q = filingKeyString (f_key f)) (sub_results x) = [r]
      \<and> (f_state f = FAccepted \<longrightarrow> rr_status r = ''Accepted'' \<and> f_irs_record_id f = Some (rr_irsRecordID r))
      \<and> (f_state f = FRejected \<longrightarrow> rr_status r = ''Rejected'' \<and> f_rejection_reason f = Some (rr_errorReason r))"
proof -
  note inv = sys_invD [OF sys_reachable_inv [OF assms(1,2)]]
  have "backed (sy_irs s) f" using inv(6) assms(3) by (simp add: ledger_ok_def)
  with assms(4) obtain u x r where x: "findByUTID (f_firm f) u (sy_irs s) = Some x" "r \<in> set (sub_results x)"
    and r: "rr_recordID r = filingKeyString (f_key f)"
      "f_state f = FAccepted \<longrightarrow> rr_status r = ''Accepted'' \<and> f_irs_record_id f = Some (rr_irsRecordID r)"
      "f_state f = FRejected \<longrightarrow> rr_status r = ''Rejected'' \<and> f_rejection_reason f = Some (rr_errorReason r)"
    unfolding backed_def by fastforce
  have "distinct (submissionKeys x)"
    using irs_inv_keysD(1) [OF intake_reachable_inv [OF inv(4)]] x(1) by (simp add: findByUTID_def)
  then have "distinct (map rr_recordID (sub_results x))" by (auto simp: submissionKeys_def distinct_map inj_on_def)
  with x(2) r(1) have "filter (\<lambda>q. rr_recordID q = filingKeyString (f_key f)) (sub_results x) = [r]"
    using filter_unique_key [of rr_recordID "sub_results x" r] by simp
  with x(1) r(2,3) show ?thesis by blast
qed

text \<open>C1. The ledger agrees with the IRS: whatever the system went through (interleaved workers,
  lost requests and replies, crashes, decisions recorded late or repeatedly), each filing the database
  calls accepted or rejected belongs to a recorded transmission of its firm, has exactly one result
  there, and that result is the database's verdict, with the same IRS record ID or rejection reason.\<close>

theorem ledger_agrees:
  assumes "sys_reachable config cl bo describe s" and "cl_token cl = ic_BearerToken config"
    and "f \<in> set (db_filings (sy_db s))" and "f_state f \<in> {FAccepted, FRejected}"
  shows "\<exists>u x r. findByUTID (f_firm f) u (sy_irs s) = Some x
      \<and> filter (\<lambda>q. rr_recordID q = filingKeyString (f_key f)) (sub_results x) = [r]
      \<and> (f_state f = FAccepted \<longrightarrow> rr_status r = ''Accepted'' \<and> f_irs_record_id f = Some (rr_irsRecordID r))
      \<and> (f_state f = FRejected \<longrightarrow> rr_status r = ''Rejected'' \<and> f_rejection_reason f = Some (rr_errorReason r))"
  by (rule ledger_verdict [OF assms])

end
