(* ===== verification/Ledger_Sample.thy ===== *)
theory Ledger_Sample
  imports Ledger
begin

text \<open>
  One run of the whole system, evaluated: from a determined filing to its acceptance. The batch is
  planned, claimed and submitted, the receipt is recorded, the next claim polls the stub after the
  acknowledgment delay, and the outcome is settled.
\<close>

section \<open>The states of the run\<close>

definition sampleRow :: batch_row where
  "sampleRow = groupRow 0 ''acme'' 1 0 sampleGroup"

definition batchedFiling :: filing_row where
  "batchedFiling = sampleFiling\<lparr>f_state := FBatched\<rparr>"

definition runDb :: "batch_row \<Rightarrow> filing_row \<Rightarrow> db" where
  "runDb b f = sampleDb\<lparr>db_filings := [f], db_batches := [b],
     db_batch_filings := [\<lparr>bf_batch = 1, bf_filing = 1, bf_firm = ''acme'', bf_client = ''c1'', bf_slot = 1\<rparr>]\<rparr>"

definition receipt1 :: string where
  "receipt1 = ''rcpt_'' @ hexEncode ''AAAAAAAAAAAAAAAA''"

definition record1 :: string where
  "record1 = ''irsrec_'' @ hexEncode ''BBBBBBBBBBBBBBBB''"

definition result1 :: recordResult where
  "result1 = \<lparr>rr_recordID = hexEncode (replicate 32 (CHR ''k'')), rr_status = ''Accepted'', rr_irsRecordID = record1, rr_errorReason = ''''\<rparr>"

definition claimed1 :: batch_row where
  "claimed1 = claimRow 5 ''w'' 1000 ''74'' sampleRow"

definition submitted1 :: batch_row where
  "submitted1 = eventRow 6 BSubmitted (pollDelay sampleBackoff 1) receipt1 '''' True claimed1"

definition claimed2 :: batch_row where
  "claimed2 = claimRow 2000000 ''w'' 1000 ''75'' submitted1"

definition acceptedFiling :: filing_row where
  "acceptedFiling = batchedFiling\<lparr>f_state := FAccepted, f_irs_record_id := Some record1, f_rejection_reason := None,
     f_acknowledged_at := Some 2000001\<rparr>"

definition work1 :: BatchWork where "work1 = claimWork ActionSubmit ''acme'' ''74'' claimed1"
definition work2 :: BatchWork where "work2 = claimWork ActionPollStatus ''acme'' ''75'' claimed2"

lemma sampleRow_eq:
  "sampleRow = \<lparr>b_id = 1, b_firm = ''acme'', b_client = ''c1'', b_tax_year = 2025, b_utid = groupUTID ''acme'' sampleGroup,
     b_xml = groupXML ''acme'' sampleGroup, b_hash = sha256 (groupXML ''acme'' sampleGroup),
     b_state = BPlanned, b_receipt = None, b_next_action_at = 0, b_attempts = 0,
     b_lease_owner = None, b_lease_expires = None, b_token = None, b_submitted_at = None,
     b_acknowledged_at = None, b_retry_exhausted_at = None, b_last_error = None\<rparr>"
proof -
  have "pf_clientID (hd sampleGroup) = ''c1''" "pf_taxYear (hd sampleGroup) = 2025"
    by (simp_all add: sampleGroup_def scanFiling_def sampleFiling_def)
  then show ?thesis by (simp add: sampleRow_def groupRow_def plannedRow_def planGroup_def)
qed

lemma sample_xml: "groupXML ''acme'' sampleGroup \<noteq> []"
  by (simp add: groupXML_def canonicalXML_def case_prod_beta transmissionNode_def renderXML_nonempty)

lemma run_planned: "fst (PlanBatches 0 samplePlan sampleDb) = runDb sampleRow batchedFiling"
proof -
  obtain d' where ok: "PlanBatches 0 samplePlan sampleDb = (d', Inr \<lparr>ExistingBatchCount = 0, CreatedBatchCount = 1\<rparr>)"
    using sample_plan_ok by blast
  then show ?thesis
  proof (cases rule: PlanBatches_Inr)
    case nothing
    then show ?thesis by (simp add: samplePlan_def sample_ready sampleGroup_def)
  next
    case (planned groups base rows links)
    have "groups = [sampleGroup]" using planned(1) by (simp add: samplePlan_def sample_ready sample_groups)
    moreover have "base = 1" using planned(3) by (simp add: sampleDb_def nextId_def)
    ultimately have parts: "groups = [sampleGroup]" "base = 1" by auto
    with planned(4,5,10) parts have "d' = runDb sampleRow batchedFiling"
      by (simp add: runDb_def sampleRow_def batchedFiling_def samplePlan_def groupLinkRows_def)
        (simp add: sampleGroup_def scanFiling_def sampleFiling_def sampleDb_def)
    with ok show ?thesis by simp
  qed
qed

lemmas run_defs = runDb_def batchedFiling_def claimed1_def submitted1_def claimed2_def sampleRow_eq

lemma sample_poll: "pollDelay sampleBackoff 1 = second" "pollDelay sampleBackoff 2 = 2 * second"
  by (simp_all add: pollDelay_def Delay_def sampleBackoff_def duration_defs numeral_2_eq_2 initialDelay_def maximumDelay_def
      wrap64_def go_div_def Let_def)

lemma run_claimed1:
  "ClaimNextBatch 5 [] (Some ''t'') sampleClaimCmd (runDb sampleRow batchedFiling) = (runDb claimed1 batchedFiling, Inr (Some work1))"
  using sample_xml
  by (simp add: ClaimNextBatch_def sampleClaimCmd_def sampleToken claimCandidate_def claimDue_def
      updateBatches_def sql_update_def claimRow_def claimState_def claimAction_def work1_def
      Microseconds_def go_div_def duration_defs Let_def run_defs sample_defs schema_defs)

lemma run_submitted1:
  "applyEvent 6 6 (w_Claim work1) (EvSubmitAccepted \<lparr>sa_ReceiptID = receipt1, sa_PollDelay = pollDelay sampleBackoff 1\<rparr>)
     (runDb claimed1 batchedFiling) = (runDb submitted1 batchedFiling, Inr ())"
proof -
  have "receipt1 \<noteq> []" "length receipt1 \<le> 256" by (simp_all add: receipt1_def)
  then show ?thesis
    using sample_xml
    by (simp add: event_defs recordOutcome_def StoreClaimParts_def work1_def claimWork_def NewStoreClaim_def validDelay_def
        validFailureCode_def updateBatches_def sql_update_def claimedBy_def eventRow_def claimRow_def claimState_def
        sample_poll duration_defs run_defs sample_defs schema_defs nullIfEmpty_def)
qed

lemma run_claimed2:
  "ClaimNextBatch 2000000 [] (Some ''u'') sampleClaimCmd (runDb submitted1 batchedFiling) = (runDb claimed2 batchedFiling, Inr (Some work2))"
proof -
  have "newClaimToken (Some ''u'') = Some ''75''" "receipt1 \<noteq> []" by code_simp+
  then show ?thesis
  using sample_xml
  by (simp add: ClaimNextBatch_def sampleClaimCmd_def claimCandidate_def claimDue_def
      updateBatches_def sql_update_def claimRow_def claimState_def claimAction_def work2_def eventRow_def sample_poll
      Microseconds_def go_div_def duration_defs Let_def run_defs sample_defs schema_defs)
qed

lemma run_accepted:
  "applyEvent 2000001 2000001 (w_Claim work2) (EvCompleteAcknowledgment [outcomeOf result1])
     (runDb claimed2 batchedFiling) = (runDb (acknowledgedRow 2000001 claimed2) acceptedFiling, Inr ())"
proof -
  have key: "batchFilings 1 ''acme'' (runDb claimed2 batchedFiling) = [(hexEncode (replicate 32 (CHR ''k'')), 1)]"
    by (simp add: batchFilings_def run_defs sample_defs)
  have rec: "record1 \<noteq> []" by (simp add: record1_def)
  then have s: "settleOutcomes 2000001 ''acme'' [(hexEncode (replicate 32 (CHR ''k'')), 1)] [] [outcomeOf result1] [batchedFiling] = Inr [acceptedFiling]"
    by (simp add: outcomeOf_def result1_def sql_update_def validOutcome_def outcomeRow_def acceptedFiling_def batchedFiling_def
        sample_defs schema_defs del: hexEncode_Cons)
  have r: "receipt1 \<noteq> []" by (simp add: receipt1_def)
  have u: "updateBatches (claimedBy 2000001 1 ''acme'' ''75'' [BSubmitted, BAwaitingAck]) (acknowledgedRow 2000001)
      (runDb claimed2 acceptedFiling) = Inr (runDb (acknowledgedRow 2000001 claimed2) acceptedFiling, 1)"
    using r sample_xml
    by (simp add: updateBatches_def sql_update_def claimedBy_def acknowledgedRow_def claimRow_def claimState_def eventRow_def
        sample_poll duration_defs run_defs sample_defs schema_defs)
  have "runDb claimed2 batchedFiling\<lparr>db_filings := [acceptedFiling]\<rparr> = runDb claimed2 acceptedFiling"
    "db_filings (runDb claimed2 batchedFiling) = [batchedFiling]"
    by (simp_all add: runDb_def)
  moreover have "w_Claim work2 = \<lparr>c_batchID = 1, c_firmID = ''acme'', c_token = ''75''\<rparr>"
    by (simp add: work2_def claimWork_def NewStoreClaim_def claimRow_def eventRow_def run_defs)
  ultimately show ?thesis
    using s u key by (simp add: CompleteAcknowledgment_def StoreClaimParts_def Let_def del: settleOutcomes.simps)
qed

section \<open>The stub's side\<close>

lemma sample_texts: "validChars ''Vendor''" "validChars ''123456789''" "validChars ''acme''" "validChars ''c1''"
  by (rule validChars_plain, simp)+

lemma sample_carriable: "carriable samplePlan sampleDb"
  using sample_texts
  by (simp add: carriable_def samplePlan_def sample_ready) (simp add: sampleGroup_def scanFiling_def sampleFiling_def wireOK_def coalesce_def)

lemma sampleGroup_decodes:
  "\<exists>t. decodeTransmission (groupXML ''acme'' sampleGroup) = Inr t \<and> tx_records t = [wireRecord (scanFiling sampleFiling)]
     \<and> tx_firmID t = ''acme'' \<and> tx_utid t = groupUTID ''acme'' sampleGroup"
  using group_decodes [of sampleGroup "''acme''"] sample_texts
  by (auto simp: groupOK_def wireOK_def sampleGroup_def scanFiling_def sampleFiling_def coalesce_def)

definition runSub :: "transmission \<Rightarrow> submission" where
  "runSub t = recordedSubmission Irs_Idempotence.sampleEnv sampleConfig t receipt1 [result1]"

definition runIrs :: "transmission \<Rightarrow> irs_store" where
  "runIrs t = storeSubmission t (runSub t) {record1, receipt1} (newStore sampleConfig)"

lemma run_intake:
  assumes "tx_records t = [wireRecord (scanFiling sampleFiling)]"
  shows "storeRecord Irs_Idempotence.sampleEnv t (newStore sampleConfig) = Some (runIrs t, Inr (receipt1, intakeSucceeded))"
proof -
  have "list_all is_digit ''123456789''" by (simp add: is_digit_def)
  then have "resultFor (wireRecord (scanFiling sampleFiling)) [''BBBBBBBBBBBBBBBB'', ''CCCCCCCCCCCCCCCC''] {receipt1}
    = Some (result1, [''CCCCCCCCCCCCCCCC''], {record1, receipt1})"
    by (simp add: resultFor_def wireRecord_def scanFiling_def sampleFiling_def coalesce_def trimSpace_digits isNineASCIIDigits_def
        hasPrefix_def Let_def result1_def record1_def receipt1_def filingKeyString_def)
  with assms show ?thesis
    by (simp add: storeRecord_def Irs_Idempotence.sampleEnv_def newStore_def sampleConfig_def Let_def classifyIntakeFault_def
        runIrs_def runSub_def receipt1_def)
qed

lemma runSub_facts:
  assumes "tx_firmID t = ''acme''" and "tx_utid t = groupUTID ''acme'' sampleGroup"
  shows "sub_receiptID (runSub t) = receipt1" "sub_results (runSub t) = [result1]"
    "sub_utid (runSub t) = groupUTID ''acme'' sampleGroup" "acknowledged_at 15000000000 (runSub t)"
    "findByReceiptID ''acme'' receipt1 (runIrs t) = Some (runSub t)" "st_config (runIrs t) = sampleConfig"
  using assms
  by (simp_all add: runIrs_def runSub_def findByReceiptID_def acknowledged_at_def newStore_def)
    (simp_all add: recordedSubmission_def Irs_Idempotence.sampleEnv_def sampleConfig_def ackDelayMinimum_def ackDelayRange_def Let_def)

lemma run_works:
  "w_FirmID work1 = ''acme''" "w_CanonicalXML work1 = groupXML ''acme'' sampleGroup" "w_AttemptCount work1 = 1"
  "w_FirmID work2 = ''acme''" "w_UTID work2 = groupUTID ''acme'' sampleGroup" "w_ReceiptID work2 = receipt1"
  "receipt1 \<noteq> []"
  by (simp_all add: work1_def work2_def claimWork_def claimed1_def claimed2_def submitted1_def claimRow_def eventRow_def
      sampleRow_eq coalesce_def receipt1_def)

section \<open>The run\<close>

abbreviation runs_here :: "BatchWork set \<Rightarrow> (Claim \<times> lifecycle_event) set \<Rightarrow> db \<times> irs_store \<Rightarrow> BatchWork set
    \<Rightarrow> (Claim \<times> lifecycle_event) set \<Rightarrow> db \<times> irs_store \<Rightarrow> bool" where
  "runs_here \<equiv> runs sampleCl sampleBackoff (\<lambda>e. ''bad'')"

lemma runs_claim:
  "ClaimNextBatch now locked entropy cmd d = (d', Inr (Some w)) \<Longrightarrow> runs cl bo describe W P (d, i) (insert w W) P (d', i)"
  unfolding runs_def
  using claim [of now locked entropy cmd "\<lparr>sy_db = d, sy_irs = i, sy_work = W, sy_plans = P\<rparr>" d' "Inr (Some w)" cl bo describe]
  by (auto simp: handedOut_def)

lemma run_submits:
  assumes "decodeTransmission (groupXML ''acme'' sampleGroup) = Inr t" and "tx_records t = [wireRecord (scanFiling sampleFiling)]"
  shows "runs_here {work1} {} (runDb claimed1 batchedFiling, newStore sampleConfig)
    {work1} {(w_Claim work1, EvSubmitAccepted \<lparr>sa_ReceiptID = receipt1, sa_PollDelay = pollDelay sampleBackoff 1\<rparr>)}
    (runDb claimed1 batchedFiling, runIrs t)"
proof -
  have token: "cl_token sampleCl = ic_BearerToken (st_config (newStore sampleConfig))"
    and blocks: "blocks16 (env_blocks Irs_Idempotence.sampleEnv)"
    by (simp_all add: sampleCl_def newStore_def sampleConfig_def blocks16_def Irs_Idempotence.sampleEnv_def)
  from intake_reads [OF token assms(1) blocks run_intake [OF assms(2)], of "\<lambda>e. ''bad''"] obtain reply where
    handled: "handleIntake (\<lambda>e. ''bad'') Irs_Idempotence.sampleEnv (submitRequest sampleCl (groupXML ''acme'' sampleGroup))
      (newStore sampleConfig) = Some (runIrs t, reply)"
    and read: "clientSubmit (Some reply) = Inr \<lparr>sr_StatusCode = 200, sr_ErrorCode = '''', sr_ReceiptID = receipt1\<rparr>"
    by (auto simp: submitMeaning_def)
  have "snd (submitPlan sampleBackoff work1 (clientSubmit (Some reply)))
      = EvSubmitAccepted \<lparr>sa_ReceiptID = receipt1, sa_PollDelay = pollDelay sampleBackoff 1\<rparr>"
    using run_works by (simp add: read submitPlan_def)
  then show ?thesis
    using submitted [of work1 "\<lparr>sy_db = runDb claimed1 batchedFiling, sy_irs = newStore sampleConfig, sy_work = {work1}, sy_plans = {}\<rparr>"
        Irs_Idempotence.sampleEnv "\<lambda>e. ''bad''" sampleCl "runIrs t" reply "Some reply" sampleBackoff] blocks handled run_works
    unfolding runs_def by (auto intro: r_into_rtranclp)
qed

lemma run_polls:
  assumes "decodeTransmission (groupXML ''acme'' sampleGroup) = Inr t" and "tx_records t = [wireRecord (scanFiling sampleFiling)]"
    and "tx_firmID t = ''acme''" "tx_utid t = groupUTID ''acme'' sampleGroup" and "work2 \<in> W"
  shows "runs_here W P (d, runIrs t) W (insert (w_Claim work2, EvCompleteAcknowledgment [outcomeOf result1]) P) (d, runIrs t)"
proof -
  note sub = runSub_facts [OF assms(3,4)]
  have token: "cl_token sampleCl = ic_BearerToken (st_config (runIrs t))" using sub(6) by (simp add: sampleCl_def sampleConfig_def)
  have opaque: "opaque receipt1" "opaque record1"
    using hexEncode_visible [of "''AAAAAAAAAAAAAAAA''"] hexEncode_visible [of "''BBBBBBBBBBBBBBBB''"]
    by (auto simp: opaque_def receipt1_def record1_def visible_def)
  then have "readableResult result1"
    using visible_valid [OF hexEncode_visible]
    by (simp add: readableResult_def result1_def hexEncode_nonempty del: hexEncode_Cons)
  with opaque groupUTID_text [OF sample_texts(3)] sub have ans: "answerable (runSub t)" by (simp add: answerable_def)
  have read: "clientStatus (Some (handleStatus (\<lambda>e. ''bad'') 15000000000 (statusRequest sampleCl ''acme'' SearchReceiptID receipt1) (runIrs t)))
      = Inr (statusMeaning 15000000000 (Some (runSub t)))"
    using ans sub(5) sample_texts visible_valid opaque run_works
    by (intro status_reads [OF token]) (auto simp: opaque_def)
  have "snd (statusPlan sampleBackoff work2 SearchReceiptID (Inr (statusMeaning 15000000000 (Some (runSub t)))))
      = EvCompleteAcknowledgment [outcomeOf result1]"
    using sub run_works transmissionStatus_valid(2) [of "[result1]"] by (simp add: statusPlan_def statusMeaning_def Let_def)
  then show ?thesis
    using asked [of work2 "\<lparr>sy_db = d, sy_irs = runIrs t, sy_work = W, sy_plans = P\<rparr>" SearchReceiptID receipt1
        _ "\<lambda>e. ''bad''" 15000000000 sampleCl sampleBackoff] assms(5) run_works read
    unfolding runs_def by (auto intro: r_into_rtranclp)
qed

lemma whole_run:
  "\<exists>W P t. runs_here {} {} (sampleDb, newStore sampleConfig) W P (runDb (acknowledgedRow 2000001 claimed2) acceptedFiling, runIrs t)"
proof -
  obtain t where t: "decodeTransmission (groupXML ''acme'' sampleGroup) = Inr t"
    "tx_records t = [wireRecord (scanFiling sampleFiling)]" "tx_firmID t = ''acme''" "tx_utid t = groupUTID ''acme'' sampleGroup"
    using sampleGroup_decodes by blast
  let ?sub = "(w_Claim work1, EvSubmitAccepted \<lparr>sa_ReceiptID = receipt1, sa_PollDelay = pollDelay sampleBackoff 1\<rparr>)"
  let ?ack = "(w_Claim work2, EvCompleteAcknowledgment [outcomeOf result1])"
  have "runs_here {} {} (sampleDb, newStore sampleConfig) {} {} (runDb sampleRow batchedFiling, newStore sampleConfig)"
    using runs_operate [of sampleDb "OpPlan 0 samplePlan"] sample_carriable run_planned by simp
  also have "runs_here {} {} (runDb sampleRow batchedFiling, newStore sampleConfig) {work1} {} (runDb claimed1 batchedFiling, newStore sampleConfig)"
    by (rule runs_claim [OF run_claimed1])
  also note run_submits [OF t(1,2)]
  also have "runs_here {work1} {?sub} (runDb claimed1 batchedFiling, runIrs t) {work1} {?sub} (runDb submitted1 batchedFiling, runIrs t)"
    using runs_event [of "fst ?sub" "snd ?sub" "{?sub}" sampleCl sampleBackoff "\<lambda>e. ''bad''" "{work1}" "runDb claimed1 batchedFiling" "runIrs t" 6 6]
      run_submitted1 by simp
  also have "runs_here {work1} {?sub} (runDb submitted1 batchedFiling, runIrs t) {work2, work1} {?sub} (runDb claimed2 batchedFiling, runIrs t)"
    by (rule runs_claim [OF run_claimed2])
  also have "runs_here {work2, work1} {?sub} (runDb claimed2 batchedFiling, runIrs t) {work2, work1} {?ack, ?sub} (runDb claimed2 batchedFiling, runIrs t)"
    by (rule run_polls [OF t]) simp
  also have "runs_here {work2, work1} {?ack, ?sub} (runDb claimed2 batchedFiling, runIrs t) {work2, work1} {?ack, ?sub}
      (runDb (acknowledgedRow 2000001 claimed2) acceptedFiling, runIrs t)"
    using runs_event [of "fst ?ack" "snd ?ack" "{?ack, ?sub}" sampleCl sampleBackoff "\<lambda>e. ''bad''" "{work2, work1}" "runDb claimed2 batchedFiling" "runIrs t" 2000001 2000001]
      run_accepted by simp
  finally show ?thesis by blast
qed

theorem ledger_agrees_witness:
  "\<exists>(s :: sys) u x r. sys_reachable sampleConfig sampleCl sampleBackoff (\<lambda>e. ''bad'') s
     \<and> acceptedFiling \<in> set (db_filings (sy_db s)) \<and> f_state acceptedFiling = FAccepted
     \<and> findByUTID ''acme'' u (sy_irs s) = Some x \<and> r \<in> set (sub_results x) \<and> rr_irsRecordID r = record1"
proof -
  obtain W P t where run: "runs_here {} {} (sampleDb, newStore sampleConfig) W P
      (runDb (acknowledgedRow 2000001 claimed2) acceptedFiling, runIrs t)"
    using whole_run by blast
  let ?s = "\<lparr>sy_db = runDb (acknowledgedRow 2000001 claimed2) acceptedFiling, sy_irs = runIrs t, sy_work = W, sy_plans = P\<rparr>"
  have "unfiled sampleDb" using sampleDb_ok by (simp add: unfiled_def) (simp add: sampleDb_def sampleFiling_def)
  with run have reach: "sys_reachable sampleConfig sampleCl sampleBackoff (\<lambda>e. ''bad'') ?s"
    by (auto simp: sys_reachable_def sys_start_def runs_def)
  have f: "acceptedFiling \<in> set (db_filings (sy_db ?s))" by (simp add: runDb_def)
  have st: "f_state acceptedFiling = FAccepted" "f_firm acceptedFiling = ''acme''" "f_irs_record_id acceptedFiling = Some record1"
    by (simp_all add: acceptedFiling_def batchedFiling_def sampleFiling_def)
  have "cl_token sampleCl = ic_BearerToken sampleConfig" by (simp add: sampleCl_def sampleConfig_def)
  from ledger_agrees [OF reach this f] st obtain u x r where
    x: "findByUTID ''acme'' u (sy_irs ?s) = Some x"
    and only: "filter (\<lambda>q. rr_recordID q = filingKeyString (f_key acceptedFiling)) (sub_results x) = [r]"
    and r: "rr_irsRecordID r = record1" by auto
  have "r \<in> set (filter (\<lambda>q. rr_recordID q = filingKeyString (f_key acceptedFiling)) (sub_results x))" unfolding only by simp
  then have "r \<in> set (sub_results x)" by simp
  with reach x r f st show ?thesis by (intro exI [of _ ?s] exI [of _ u] exI [of _ x] exI [of _ r]) simp
qed

end
