(* ===== verification/Csv.thy ===== *)
theory Csv
  imports Prelude
begin

text \<open>
  What \<open>service/internal/importer/source.go\<close> uses of \<open>encoding/csv\<close>: a reader with the comma
  as delimiter, no comments, strict quotes and a fixed number of fields. A stream is the
  bytes it still has and whether it ends in a read error instead of the end of file (a
  damaged gzip stream). A reader's error is one value: the program only wraps its text.
  \<open>csvRecordText\<close> writes a record the way RFC 4180 says; reading gives the record back.
\<close>

abbreviation LF :: char where "LF \<equiv> char_of (10::nat)"
abbreviation CR :: char where "CR \<equiv> char_of (13::nat)"
abbreviation quote :: char where "quote \<equiv> char_of (34::nat)"
abbreviation comma :: char where "comma \<equiv> char_of (44::nat)"

section \<open>Lines\<close>

datatype line_result = NoMoreLines | ReadFails | GotLine string string

definition dropCR :: "string \<Rightarrow> string" where
  "dropCR s = (if s \<noteq> [] \<and> last s = CR then butlast s else s)"

text \<open>\<open>readLine\<close>: the next line with its line feed, \<open>\r\n\<close> turned into \<open>\n\<close>, and a last \<open>\r\<close>
  before the end of the file dropped.\<close>

definition readLine :: "bool \<Rightarrow> string \<Rightarrow> line_result" where
  "readLine broken s =
     (case dropWhile (\<lambda>c. c \<noteq> LF) s of
        _ # rest \<Rightarrow> GotLine (dropCR (takeWhile (\<lambda>c. c \<noteq> LF) s) @ [LF]) rest
      | [] \<Rightarrow> if broken then ReadFails else if s = [] then NoMoreLines else GotLine (dropCR s) [])"

lemma dropCR_le: "length (dropCR s) \<le> length s"
  by (simp add: dropCR_def)

lemma readLine_shorter:
  assumes "readLine broken s = GotLine line rest"
  shows "length line + length rest \<le> length s" and "length rest < length s"
proof -
  have s: "s = takeWhile (\<lambda>c. c \<noteq> LF) s @ dropWhile (\<lambda>c. c \<noteq> LF) s" by simp
  have len: "length s = length (takeWhile (\<lambda>c. c \<noteq> LF) s) + length (dropWhile (\<lambda>c. c \<noteq> LF) s)"
    by (metis length_append s)
  show "length line + length rest \<le> length s"
    using assms len dropCR_le [of "takeWhile (\<lambda>c. c \<noteq> LF) s"] dropCR_le [of s]
    by (auto simp: readLine_def split: list.splits if_splits)
  show "length rest < length s"
    using assms len by (auto simp: readLine_def split: list.splits if_splits)
qed

section \<open>Fields\<close>

definition consField :: "string \<Rightarrow> string list option \<times> string \<Rightarrow> string list option \<times> string" where
  "consField f r = (map_option (Cons f) (fst r), snd r)"

text \<open>
  The field loop of \<open>readRecord\<close> on the current line and the unread rest: at the start of a
  field (\<open>None\<close>), or inside quotes with what was collected. The result is the fields, or
  \<open>None\<close> for an error, and the unread rest. Only a quoted field goes on to further lines.
\<close>

function csvFields :: "bool \<Rightarrow> string option \<Rightarrow> string \<Rightarrow> string \<Rightarrow> string list option \<times> string" where
  "csvFields broken None line rest =
     (if line \<noteq> [] \<and> hd line = quote then csvFields broken (Some []) (tl line) rest
      else case dropWhile (\<lambda>c. c \<noteq> comma) line of
        _ # line' \<Rightarrow>
          if quote \<in> set (takeWhile (\<lambda>c. c \<noteq> comma) line) then (None, rest)
          else consField (takeWhile (\<lambda>c. c \<noteq> comma) line) (csvFields broken None line' rest)
      | [] \<Rightarrow>
          if quote \<in> set line then (None, rest)
          else (Some [if line \<noteq> [] \<and> last line = LF then butlast line else line], rest))"
| "csvFields broken (Some acc) line rest =
     (case dropWhile (\<lambda>c. c \<noteq> quote) line of
        _ # after \<Rightarrow>
          (let acc' = acc @ takeWhile (\<lambda>c. c \<noteq> quote) line in
           if after \<noteq> [] \<and> hd after = quote then csvFields broken (Some (acc' @ [quote])) (tl after) rest
           else if after \<noteq> [] \<and> hd after = comma then consField acc' (csvFields broken None (tl after) rest)
           else if after = [] \<or> after = [LF] then (Some [acc'], rest)
           else (None, rest))
      | [] \<Rightarrow>
          if line = [] then (None, rest)
          else (case readLine broken rest of
                  GotLine line' rest' \<Rightarrow> csvFields broken (Some (acc @ line)) line' rest'
                | _ \<Rightarrow> (None, [])))"
  by pat_completeness auto

lemma dropWhile_Cons_shorter: "dropWhile p xs = y # ys \<Longrightarrow> length ys < length xs"
  by (metis length_Cons length_dropWhile_le less_eq_Suc_le)

termination csvFields
  by (relation "measure (\<lambda>(_, _, line, rest). length line + length rest)")
    (auto simp: neq_Nil_conv dest: dropWhile_Cons_shorter readLine_shorter(1))

declare csvFields.simps [simp del]

lemma csvFields_rest: "length (snd (csvFields broken acc line rest)) \<le> length rest"
proof (induction broken acc line rest rule: csvFields.induct)
  case (1 broken line rest)
  then show ?case
    by (subst csvFields.simps) (auto simp: consField_def split: list.splits if_splits)
next
  case (2 broken acc line rest)
  show ?case
  proof (cases "dropWhile (\<lambda>c. c \<noteq> quote) line")
    case Nil
    show ?thesis
    proof (cases "line \<noteq> [] \<and> (\<exists>line' rest'. readLine broken rest = GotLine line' rest')")
      case True
      then obtain line' rest' where r: "line \<noteq> []" "readLine broken rest = GotLine line' rest'" by blast
      from "2.IH" Nil r have "length (snd (csvFields broken (Some (acc @ line)) line' rest')) \<le> length rest'"
        by blast
      with readLine_shorter(2) [OF r(2)] show ?thesis
        by (subst csvFields.simps) (simp add: Nil r)
    next
      case False
      then show ?thesis by (subst csvFields.simps) (auto simp: Nil split: line_result.splits)
    qed
  next
    case (Cons y ys)
    then show ?thesis using "2.IH"
      by (subst csvFields.simps) (auto simp: consField_def Let_def)
  qed
qed

section \<open>Records\<close>

datatype csv_result = CsvEOF | CsvError | CsvRecord "string list"

text \<open>\<open>Read\<close>: empty lines are skipped; a record with another number of fields is an error.\<close>

function csvRead :: "nat \<Rightarrow> bool \<Rightarrow> string \<Rightarrow> csv_result \<times> string" where
  "csvRead fieldsPerRecord broken s =
     (case readLine broken s of
        NoMoreLines \<Rightarrow> (CsvEOF, [])
      | ReadFails \<Rightarrow> (CsvError, [])
      | GotLine line rest \<Rightarrow>
          if line = [] \<or> line = [LF] then csvRead fieldsPerRecord broken rest
          else (case csvFields broken None line rest of
                  (None, rest') \<Rightarrow> (CsvError, rest')
                | (Some fields, rest') \<Rightarrow>
                    (if length fields \<noteq> fieldsPerRecord then CsvError else CsvRecord fields, rest')))"
  by pat_completeness auto

termination csvRead
  by (relation "measure (\<lambda>(_, _, s). length s)") (auto dest: readLine_shorter(2))

declare csvRead.simps [simp del]

lemma csvRead_shorter:
  "csvRead n broken s = (r, rest) \<Longrightarrow> length rest \<le> length s \<and> (\<forall>fs. r = CsvRecord fs \<longrightarrow> length rest < length s)"
proof (induction n broken s arbitrary: r rest rule: csvRead.induct)
  case (1 n broken s)
  show ?case
  proof (cases "readLine broken s")
    case (GotLine line rest0)
    note shorter = readLine_shorter(2) [OF GotLine] csvFields_rest [of broken None line rest0]
    show ?thesis
    proof (cases "line = [] \<or> line = [LF]")
      case True
      with "1.prems" have "csvRead n broken rest0 = (r, rest)"
        by (subst (asm) csvRead.simps) (auto simp: GotLine)
      from "1.IH" [OF GotLine True this] shorter(1) show ?thesis by auto
    next
      case False
      with "1.prems" shorter show ?thesis
        by (subst (asm) csvRead.simps) (auto simp: GotLine split: prod.splits option.splits)
    qed
  qed (use "1.prems" in \<open>subst (asm) csvRead.simps; simp\<close>)+
qed

lemma csvRead_fields: "csvRead n broken s = (CsvRecord fs, rest) \<Longrightarrow> length fs = n"
proof (induction n broken s arbitrary: rest rule: csvRead.induct)
  case (1 n broken s)
  show ?case
  proof (cases "readLine broken s")
    case (GotLine line rest0)
    show ?thesis
    proof (cases "line = [] \<or> line = [LF]")
      case True
      with "1.prems" have "csvRead n broken rest0 = (CsvRecord fs, rest)"
        by (subst (asm) csvRead.simps) (auto simp: GotLine)
      from "1.IH" [OF GotLine True this] show ?thesis .
    next
      case False
      with "1.prems" show ?thesis
        by (subst (asm) csvRead.simps) (auto simp: GotLine split: prod.splits option.splits if_splits)
    qed
  qed (use "1.prems" in \<open>subst (asm) csvRead.simps; simp\<close>)+
qed

section \<open>Writing, and reading back\<close>

definition escapeQuotes :: "string \<Rightarrow> string" where
  "escapeQuotes f = concat (map (\<lambda>c. if c = quote then [quote, quote] else [c]) f)"

text \<open>A field is written quoted, or as it is when it has no special character.\<close>

definition writeField :: "bool \<times> string \<Rightarrow> string" where
  "writeField qf = (if fst qf then quote # escapeQuotes (snd qf) @ [quote] else snd qf)"

definition writableField :: "bool \<times> string \<Rightarrow> bool" where
  "writableField qf \<longleftrightarrow> CR \<notin> set (snd qf)
     \<and> (fst qf \<or> comma \<notin> set (snd qf) \<and> quote \<notin> set (snd qf) \<and> LF \<notin> set (snd qf))"

fun csvRecordText :: "(bool \<times> string) list \<Rightarrow> string" where
  "csvRecordText [] = [LF]"
| "csvRecordText [f] = writeField f @ [LF]"
| "csvRecordText (f # g # fs) = writeField f @ comma # csvRecordText (g # fs)"

lemma escapeQuotes_simps [simp]:
  "escapeQuotes [] = []"
  "escapeQuotes (c # f) = (if c = quote then quote # quote # escapeQuotes f else c # escapeQuotes f)"
  by (simp_all add: escapeQuotes_def)

lemma set_escapeQuotes [simp]: "set (escapeQuotes f) = set f"
  by (induction f) auto

lemma csvRecordText_LF: "LF \<in> set (csvRecordText fs)"
  by (induction fs rule: csvRecordText.induct) auto

lemma csvRecordText_CR: "list_all writableField fs \<Longrightarrow> CR \<notin> set (csvRecordText fs)"
  by (induction fs rule: csvRecordText.induct) (auto simp: writeField_def writableField_def)

text \<open>The first line of a text and what follows it.\<close>

definition lineOf :: "string \<Rightarrow> string" where
  "lineOf x = takeWhile (\<lambda>c. c \<noteq> LF) x @ [LF]"

definition restOf :: "string \<Rightarrow> string" where
  "restOf x = tl (dropWhile (\<lambda>c. c \<noteq> LF) x)"

lemma lineOf_Cons [simp]:
  "lineOf (c # x) = (if c = LF then [LF] else c # lineOf x)"
  "restOf (c # x) = (if c = LF then x else restOf x)"
  by (simp_all add: lineOf_def restOf_def)

lemma lineOf_append [simp]:
  assumes "LF \<notin> set f"
  shows "lineOf (f @ x) = f @ lineOf x" and "restOf (f @ x) = restOf x"
  using assms by (induction f) auto

lemma lineOf_nonempty [simp]: "lineOf x \<noteq> []"
  by (simp add: lineOf_def)

lemma readLine_text:
  assumes "LF \<in> set x" and "CR \<notin> set x"
  shows "readLine broken (x @ t) = GotLine (lineOf x) (restOf x @ t)"
proof -
  from assms(1) obtain a b where x: "x = a @ LF # b" and a: "LF \<notin> set a" by (meson split_list_first)
  have "takeWhile (\<lambda>c. c \<noteq> LF) (a @ LF # b @ t) = a" "dropWhile (\<lambda>c. c \<noteq> LF) (a @ LF # b @ t) = LF # b @ t"
    using a by (induction a) auto
  moreover have "dropCR a = a" using assms(2) by (auto simp: dropCR_def x dest: last_in_set)
  ultimately show ?thesis using a by (simp add: readLine_def x)
qed

lemma csvFields_shift:
  assumes "c \<noteq> quote" and "line \<noteq> []"
  shows "csvFields broken (Some acc) (c # line) rest = csvFields broken (Some (acc @ [c])) line rest"
  using assms by (simp add: csvFields.simps(2) Let_def cong: list.case_cong line_result.case_cong)

lemma csvFields_quoted:
  assumes "CR \<notin> set f" and "CR \<notin> set x" and "LF \<in> set x"
  shows "csvFields broken (Some acc) (lineOf (escapeQuotes f @ quote # x)) (restOf (escapeQuotes f @ quote # x) @ t)
    = csvFields broken (Some (acc @ f)) (quote # lineOf x) (restOf x @ t)"
  using assms(1)
proof (induction f arbitrary: acc)
  case (Cons c f)
  let ?y = "escapeQuotes f @ quote # x"
  have IH: "csvFields broken (Some acc) (lineOf ?y) (restOf ?y @ t)
      = csvFields broken (Some (acc @ f)) (quote # lineOf x) (restOf x @ t)" for acc
    using Cons by simp
  consider "c = quote" | "c = LF" | "c \<noteq> quote" "c \<noteq> LF" by blast
  then show ?case
  proof cases
    case 1
    then show ?thesis by (simp add: csvFields.simps(2) [of _ acc "quote # _"] IH)
  next
    case 2
    have "readLine broken (?y @ t) = GotLine (lineOf ?y) (restOf ?y @ t)"
      by (rule readLine_text) (use Cons.prems assms in auto)
    with 2 show ?thesis by (simp add: csvFields.simps(2) [of _ acc "[LF]"] IH)
  next
    case 3
    then show ?thesis by (simp add: csvFields_shift IH)
  qed
qed simp

lemma csvFields_closed [simp]:
  "csvFields broken (Some acc) (quote # comma # line) rest = consField acc (csvFields broken None line rest)"
  "csvFields broken (Some acc) [quote, LF] rest = (Some [acc], rest)"
  by (simp_all add: csvFields.simps(2))

lemma csvFields_plain:
  assumes "comma \<notin> set f" and "quote \<notin> set f" and "LF \<notin> set f"
  shows "csvFields broken None (f @ comma # line) rest = consField f (csvFields broken None line rest)"
    and "csvFields broken None (f @ [LF]) rest = (Some [f], rest)"
proof -
  have f: "takeWhile (\<lambda>c. c \<noteq> comma) (f @ comma # line) = f"
    "dropWhile (\<lambda>c. c \<noteq> comma) (f @ comma # line) = comma # line"
    "dropWhile (\<lambda>c. c \<noteq> comma) (f @ [LF]) = []"
    using assms(1) by (induction f) auto
  have hd: "(f @ g \<noteq> [] \<and> hd (f @ g) = quote) = False" if "g = comma # line \<or> g = [LF]" for g
    using assms(2) that by (cases f) auto
  show "csvFields broken None (f @ comma # line) rest = consField f (csvFields broken None line rest)"
    by (subst csvFields.simps(1), simp only: hd [OF disjI1 [OF refl]] if_False f list.case) (use assms(2) in simp)
  show "csvFields broken None (f @ [LF]) rest = (Some [f], rest)"
    by (subst csvFields.simps(1), simp only: hd [OF disjI2 [OF refl]] if_False f list.case) (use assms(2) in simp)
qed

lemma csvFields_written:
  assumes "writableField qf" and "CR \<notin> set x" and "LF \<in> set x"
  shows "csvFields broken None (lineOf (writeField qf @ comma # x)) (restOf (writeField qf @ comma # x) @ t)
      = consField (snd qf) (csvFields broken None (lineOf x) (restOf x @ t))"
    and "csvFields broken None (lineOf (writeField qf @ [LF])) (restOf (writeField qf @ [LF]) @ t)
      = (Some [snd qf], t)"
proof -
  have start: "csvFields broken None (quote # line) rest = csvFields broken (Some []) line rest" for line rest
    by (simp add: csvFields.simps(1))
  show "csvFields broken None (lineOf (writeField qf @ comma # x)) (restOf (writeField qf @ comma # x) @ t)
      = consField (snd qf) (csvFields broken None (lineOf x) (restOf x @ t))"
    using assms csvFields_quoted [of "snd qf" "comma # x" broken "[]" t] csvFields_plain(1) [of "snd qf"]
    by (cases "fst qf") (auto simp: writeField_def writableField_def start)
  show "csvFields broken None (lineOf (writeField qf @ [LF])) (restOf (writeField qf @ [LF]) @ t)
      = (Some [snd qf], t)"
    using assms csvFields_quoted [of "snd qf" "[LF]" broken "[]" t] csvFields_plain(2) [of "snd qf"]
    by (cases "fst qf") (auto simp: writeField_def writableField_def start)
qed

lemma csvFields_record:
  assumes "list_all writableField fs" and "fs \<noteq> []"
  shows "csvFields broken None (lineOf (csvRecordText fs)) (restOf (csvRecordText fs) @ t) = (Some (map snd fs), t)"
  using assms
proof (induction fs rule: csvRecordText.induct)
  case (2 f)
  then show ?case using csvFields_written(2) [of f "[LF]" broken t] by simp
next
  case (3 f g fs)
  then have "list_all writableField (g # fs)" "writableField f" by simp_all
  from csvFields_written(1) [OF this(2) csvRecordText_CR [OF this(1)] csvRecordText_LF] "3.IH" [OF this(1)]
  show ?case by (simp add: consField_def)
qed simp

text \<open>A written record is read back, whatever follows it.\<close>

lemma csvRead_record:
  assumes "list_all writableField fs" and "2 \<le> length fs"
  shows "csvRead (length fs) broken (csvRecordText fs @ t) = (CsvRecord (map snd fs), t)"
proof -
  obtain f g hs where fs: "fs = f # g # hs" using assms(2) by (cases fs; cases "tl fs") auto
  have "lineOf (csvRecordText fs) \<noteq> [LF]"
  proof
    assume "lineOf (csvRecordText fs) = [LF]"
    then have "takeWhile (\<lambda>c. c \<noteq> LF) (csvRecordText fs) = []" by (simp add: lineOf_def)
    then have "hd (csvRecordText fs) = LF" by (cases "csvRecordText fs") (auto simp: fs split: if_splits)
    with assms(1) show False
      by (cases "snd f") (auto simp: fs writeField_def writableField_def split: if_splits)
  qed
  with assms csvFields_record [OF assms(1), of broken t]
    readLine_text [OF csvRecordText_LF csvRecordText_CR [OF assms(1)], of broken t] fs
  show ?thesis by (subst csvRead.simps) simp
qed

lemma csvRead_end [simp]: "csvRead n False [] = (CsvEOF, [])"
  by (subst csvRead.simps) (simp add: readLine_def)

end
