(* ===== verification/Payment_Source.thy ===== *)
theory Payment_Source
  imports Csv Importing
begin

text \<open>
  The CSV source of an import, \<open>service/internal/importer/source.go\<close>: finding the export file
  (\<open>Discover\<close>), opening it (\<open>Open\<close>), and the cursor \<open>Source\<close> with \<open>Next\<close>, \<open>SHA256\<close> and
  \<open>Close\<close>. The file system is a record of functions; opening a file gives its decompressed
  bytes and whether the gzip stream is damaged after them. Texts of wrapped errors are left out.
\<close>

section \<open>Files\<close>

datatype file_kind = RegularFile | Folder | Symlink | SpecialFile

record file_info =
  fi_name :: string
  fi_kind :: file_kind

record dir_entry =
  de_name :: string
  de_kind :: file_kind
  de_info :: "file_kind option"

record gzip_stream =
  gz_content :: bytes
  gz_broken :: bool

text \<open>\<open>fs_open\<close>: no such file, or a file that is (\<open>Some\<close>) or is not a gzip stream.\<close>

record file_system =
  fs_lstat :: "string \<Rightarrow> file_info option"
  fs_readDir :: "string \<Rightarrow> dir_entry list option"
  fs_open :: "string \<Rightarrow> gzip_stream option option"

definition hasSuffix :: "string \<Rightarrow> string \<Rightarrow> bool" where
  "hasSuffix s e \<longleftrightarrow> length e \<le> length s \<and> drop (length s - length e) s = e"

text \<open>\<open>filepath.Join\<close> on Unix: join with a slash and clean lexically.\<close>

fun splitSlash :: "string \<Rightarrow> string list" where
  "splitSlash [] = [[]]"
| "splitSlash (c # s) =
     (if c = CHR ''/'' then [] # splitSlash s
      else case splitSlash s of p # ps \<Rightarrow> (c # p) # ps | [] \<Rightarrow> [[c]])"

fun cleanParts :: "bool \<Rightarrow> string list \<Rightarrow> string list \<Rightarrow> string list" where
  "cleanParts rooted acc [] = rev acc"
| "cleanParts rooted acc (p # ps) =
     (if p = '''' \<or> p = ''.'' then cleanParts rooted acc ps
      else if p = ''..'' then
        (case acc of
           a # as \<Rightarrow> if a = ''..'' then cleanParts rooted (p # acc) ps else cleanParts rooted as ps
         | [] \<Rightarrow> cleanParts rooted (if rooted then [] else [p]) ps)
      else cleanParts rooted (p # acc) ps)"

fun joinSlash :: "string list \<Rightarrow> string" where
  "joinSlash [] = []"
| "joinSlash [p] = p"
| "joinSlash (p # q # ps) = p @ ''/'' @ joinSlash (q # ps)"

definition cleanPath :: "string \<Rightarrow> string" where
  "cleanPath path =
     (let rooted = (path \<noteq> [] \<and> hd path = CHR ''/'');
          body = joinSlash (cleanParts rooted [] (splitSlash path))
      in if rooted then CHR ''/'' # body else if body = [] then ''.'' else body)"

definition joinPath :: "string \<Rightarrow> string \<Rightarrow> string" where
  "joinPath dir name =
     (if dir = [] then (if name = [] then [] else cleanPath name) else cleanPath (dir @ ''/'' @ name))"

definition expectedName :: "string \<Rightarrow> string" where
  "expectedName firmID = ''firm_'' @ firmID @ ''_export.csv.gz''"

text \<open>The loop over the directory: an entry that cannot be inspected ends it.\<close>

fun matchingEntries :: "string \<Rightarrow> string \<Rightarrow> dir_entry list \<Rightarrow> string list result" where
  "matchingEntries inputPath name [] = Inr []"
| "matchingEntries inputPath name (entry # entries) =
     (if de_name entry \<noteq> name \<or> de_kind entry = Symlink then matchingEntries inputPath name entries
      else case de_info entry of
        None \<Rightarrow> Inl (ErrMsg ''inspect input entry'')
      | Some kind \<Rightarrow>
          (case matchingEntries inputPath name entries of
             Inl e \<Rightarrow> Inl e
           | Inr matches \<Rightarrow>
               Inr (if kind = RegularFile then joinPath inputPath (de_name entry) # matches else matches)))"

definition Discover :: "file_system \<Rightarrow> string \<Rightarrow> string \<Rightarrow> string result" where
  "Discover fs inputPath firmID =
     (if trimSpace firmID = '''' then Inl (ErrMsg ''firm ID is required'')
      else case fs_lstat fs inputPath of
        None \<Rightarrow> Inl (ErrMsg ''inspect input'')
      | Some info \<Rightarrow>
          if fi_kind info = Symlink then Inl (ErrMsg ''input symlinks are not supported'')
          else if fi_kind info \<noteq> Folder then
            (if fi_kind info \<noteq> RegularFile \<or> \<not> hasSuffix (fi_name info) ''.csv.gz''
             then Inl (ErrMsg ''input must be a regular .csv.gz file'') else Inr inputPath)
          else case fs_readDir fs inputPath of
            None \<Rightarrow> Inl (ErrMsg ''read input directory'')
          | Some entries \<Rightarrow>
              (case matchingEntries inputPath (expectedName firmID) entries of
                 Inl e \<Rightarrow> Inl e
               | Inr matches \<Rightarrow>
                   if length matches \<noteq> 1
                   then Inl (ErrMsg (''expected one '' @ expectedName firmID @ '' in input directory, found ''
                                     @ dec_of_nat (length matches)))
                   else Inr (hd matches)))"

section \<open>The cursor\<close>

definition MaxRecordBytes :: nat where "MaxRecordBytes = 1048576"

definition requiredHeader :: "string list" where
  "requiredHeader = [''client_id'', ''vendor_name'', ''vendor_tin'', ''payment_date'', ''amount'',
     ''payment_method'', ''backup_withholding'', ''memo'']"

text \<open>\<open>utf8.ValidString\<close>\<close>

fun validString :: "string \<Rightarrow> bool" where
  "validString [] = True"
| "validString (c # s) =
     (let rw = decodeRune (map byte_val (take 4 (c # s)))
      in \<not> (fst rw = RuneError \<and> snd rw = 1) \<and> validString (drop (snd rw - 1) s))"

declare validString.simps(2) [simp del]

lemma validString_ascii: "list_all (\<lambda>c. byte_val c < 128) s \<Longrightarrow> validString s"
  by (induction s) (auto simp: validString.simps(2) decodeRune_def RuneError_def Let_def)

definition validUTF8 :: "string list \<Rightarrow> bool" where
  "validUTF8 record \<longleftrightarrow> list_all validString record"

text \<open>The unread and the whole decompressed stream: at its end the tee has hashed all of it.\<close>

record source =
  so_unread :: bytes
  so_content :: bytes
  so_broken :: bool
  so_rowNumber :: int
  so_exhausted :: bool
  so_closed :: bool

definition Open :: "file_system \<Rightarrow> string \<Rightarrow> source result" where
  "Open fs filePath =
     (case fs_open fs filePath of
        None \<Rightarrow> Inl (ErrMsg ''open export'')
      | Some None \<Rightarrow> Inl (ErrMsg ''open gzip export'')
      | Some (Some gz) \<Rightarrow>
          (case csvRead (length requiredHeader) (gz_broken gz) (gz_content gz) of
             (CsvRecord header, rest) \<Rightarrow>
               if \<not> validUTF8 header \<or> header \<noteq> requiredHeader
               then Inl (ErrMsg ''CSV header must exactly match'')
               else Inr \<lparr>so_unread = rest, so_content = gz_content gz, so_broken = gz_broken gz,
                         so_rowNumber = 0, so_exhausted = False, so_closed = False\<rparr>
           | _ \<Rightarrow> Inl (ErrMsg ''read CSV header'')))"

definition recordError :: "int \<Rightarrow> string \<Rightarrow> go_error" where
  "recordError n what = ErrMsg (''source record '' @ dec_of_int n @ '': '' @ what)"

definition paymentRow :: "int \<Rightarrow> string list \<Rightarrow> PaymentRow" where
  "paymentRow n record =
     \<lparr>SourceRowNumber = n, pr_ClientID = record ! 0, pr_VendorName = record ! 1, pr_VendorTIN = record ! 2,
      pr_PaymentDate = record ! 3, pr_Amount = record ! 4, pr_PaymentMethod = record ! 5,
      pr_BackupWithholding = record ! 6, pr_Memo = record ! 7\<rparr>"

text \<open>\<open>Next\<close>; the first argument says whether the context is done.\<close>

definition Next :: "bool \<Rightarrow> source \<Rightarrow> source \<times> PaymentRow option result" where
  "Next cancelled source =
     (if so_closed source then (source, Inl (ErrMsg ''payment source is closed''))
      else if so_exhausted source then (source, Inr None)
      else if cancelled then (source, Inl ErrContext)
      else case csvRead (length requiredHeader) (so_broken source) (so_unread source) of
        (result, rest) \<Rightarrow>
          if result = CsvEOF then (source\<lparr>so_unread := rest, so_exhausted := True\<rparr>, Inr None)
          else
            (let n = so_rowNumber source + 1; source' = source\<lparr>so_unread := rest, so_rowNumber := n\<rparr>
             in case result of
               CsvRecord record \<Rightarrow>
                 if \<not> validUTF8 record then (source', Inl (recordError n ''invalid UTF-8''))
                 else if MaxRecordBytes < sum_list (map length record)
                 then (source', Inl (recordError n ''exceeds 1048576 bytes''))
                 else (source', Inr (Some (paymentRow n record)))
             | _ \<Rightarrow> (source', Inl (recordError n ''CSV''))))"

definition SHA256 :: "source \<Rightarrow> bytes result" where
  "SHA256 source =
     (if \<not> so_exhausted source then Inl (ErrMsg ''decompressed SHA-256 is unavailable before EOF'')
      else Inr (sha256 (so_content source)))"

text \<open>\<open>Close\<close>, with what closing the gzip reader and the file answer.\<close>

definition Close :: "go_error option \<Rightarrow> go_error option \<Rightarrow> source \<Rightarrow> source \<times> go_error option" where
  "Close gzipErr fileErr source =
     (if so_closed source then (source, None)
      else (source\<lparr>so_closed := True\<rparr>, if gzipErr \<noteq> None then gzipErr else fileErr))"

section \<open>Draining the source\<close>

lemma Next_row:
  assumes "Next cancelled source = (source', Inr (Some row))"
  shows "length (so_unread source') < length (so_unread source)"
    and "so_rowNumber source' = so_rowNumber source + 1" and "SourceRowNumber row = so_rowNumber source'"
    and "so_content source' = so_content source" and "so_broken source' = so_broken source"
    and "so_closed source' = so_closed source" and "so_exhausted source' = so_exhausted source"
  using assms csvRead_shorter [of "length requiredHeader" "so_broken source" "so_unread source"]
  by (auto simp: Next_def Let_def paymentRow_def split: if_splits prod.splits csv_result.splits)

text \<open>\<open>CopyFrom\<close> over \<open>paymentCopySource\<close> calls \<open>Next\<close> until the rows end or a call fails; \<open>halted n\<close>
  says whether the context is done at the call after row \<open>n\<close>.\<close>

function drain :: "(int \<Rightarrow> bool) \<Rightarrow> source \<Rightarrow> PaymentRow list \<times> go_error option \<times> source" where
  "drain halted source =
     (case Next (halted (so_rowNumber source)) source of
        (source', Inl e) \<Rightarrow> ([], Some e, source')
      | (source', Inr None) \<Rightarrow> ([], None, source')
      | (source', Inr (Some row)) \<Rightarrow> (case drain halted source' of (rows, e, end) \<Rightarrow> (row # rows, e, end)))"
  by pat_completeness auto

termination drain
  by (relation "measure (\<lambda>(_, source). length (so_unread source))") (auto dest: Next_row(1) [OF sym])

declare drain.simps [simp del]

definition rowsOf :: "(int \<Rightarrow> bool) \<Rightarrow> source \<Rightarrow> rowSource" where
  "rowsOf halted source =
     (case drain halted source of
        (rows, e, end) \<Rightarrow> \<lparr>src_rows = rows, src_error = e, src_hash = SHA256 end\<rparr>)"

lemma Next_end:
  assumes "Next cancelled source = (source', Inr None)"
  shows "so_exhausted source'" and "so_content source' = so_content source"
  using assms by (auto simp: Next_def Let_def split: if_splits prod.splits csv_result.splits)

lemma Next_content: "Next cancelled source = (source', r) \<Longrightarrow> so_content source' = so_content source"
  by (auto simp: Next_def Let_def split: if_splits prod.splits csv_result.splits)

section \<open>The contract of a row source\<close>

text \<open>What \<open>CopyFrom\<close> does with any source of rows: call after call until the rows
  end or a call fails.\<close>

inductive drained ::
  "(bool \<Rightarrow> 's \<Rightarrow> 's \<times> PaymentRow option result) \<Rightarrow> 's \<Rightarrow> PaymentRow list \<Rightarrow> go_error option \<Rightarrow> 's \<Rightarrow> bool"
  for read :: "bool \<Rightarrow> 's \<Rightarrow> 's \<times> PaymentRow option result" where
  failed: "read c s = (s', Inl e) \<Longrightarrow> drained read s [] (Some e) s'"
| finished: "read c s = (s', Inr None) \<Longrightarrow> drained read s [] None s'"
| row: "read c s = (s1, Inr (Some r)) \<Longrightarrow> drained read s1 rows e s'
    \<Longrightarrow> drained read s (r # rows) e s'"

text \<open>\<open>PaymentRowSource\<close>: rows come numbered one after another, and once they have ended the source has the
  hash of its content.\<close>

locale row_source =
  fixes read :: "bool \<Rightarrow> 's \<Rightarrow> 's \<times> PaymentRow option result"
    and hash :: "'s \<Rightarrow> bytes result"
    and number :: "'s \<Rightarrow> int"
    and content :: "'s \<Rightarrow> bytes"
  assumes read_content: "read c s = (s', r) \<Longrightarrow> content s' = content s"
    and read_row: "read c s = (s', Inr (Some row)) \<Longrightarrow> number s' = number s + 1 \<and> SourceRowNumber row = number s'"
    and read_end: "read c s = (s', Inr None) \<Longrightarrow> hash s' = Inr (sha256 (content s'))"
begin

lemma drained_numbers:
  "drained read s rows e s' \<Longrightarrow> map SourceRowNumber rows = map (\<lambda>i. number s + int i) [1 ..< length rows + 1]"
proof (induction rule: drained.induct)
  case (row c s s1 r rows e s')
  have "[1 ..< length (r # rows) + 1] = 1 # map Suc [1 ..< length rows + 1]"
    by (simp add: map_Suc_upt upt_conv_Cons del: upt_Suc)
  with row read_row [OF row.hyps(1)] show ?case by simp
qed simp_all

lemma drained_hash:
  "drained read s rows e s' \<Longrightarrow> content s' = content s \<and> (e = None \<longrightarrow> hash s' = Inr (sha256 (content s)))"
proof (induction rule: drained.induct)
  case (finished c s s')
  then show ?case using read_end read_content by metis
qed (auto dest: read_content)

end

interpretation csv_source: row_source Next SHA256 so_rowNumber so_content
proof unfold_locales
  show "Next c s = (s', Inr None) \<Longrightarrow> SHA256 s' = Inr (sha256 (so_content s'))" for c s s'
    using Next_end(1) [of c s s'] by (simp add: SHA256_def)
qed (auto dest: Next_content Next_row(2,3))

lemma drain_drained:
  "drain halted source = (rows, e, source') \<Longrightarrow> drained Next source rows e source'"
proof (induction halted source arbitrary: rows e source' rule: drain.induct)
  case (1 halted source)
  obtain s1 r where n: "Next (halted (so_rowNumber source)) source = (s1, r)" by (cases "Next (halted (so_rowNumber source)) source")
  consider (failed) x where "r = Inl x" | (eof) "r = Inr None" | (row) row where "r = Inr (Some row)"
    by (metis sum.exhaust option.exhaust)
  then show ?case
  proof cases
    case failed
    with "1.prems" n show ?thesis by (subst (asm) drain.simps) (auto intro: drained.failed)
  next
    case eof
    with "1.prems" n show ?thesis by (subst (asm) drain.simps) (auto intro: drained.finished)
  next
    case row
    from "1.prems" n row obtain rows1 where d: "drain halted s1 = (rows1, e, source')" and rows: "rows = row # rows1"
      by (subst (asm) drain.simps) (auto split: prod.splits)
    have "drained Next s1 rows1 e source'" by (rule "1.IH" [OF _ _ _ d]) (use n row in auto)
    with n row rows show ?thesis by (auto intro: drained.row)
  qed
qed

text \<open>So no row of a source is ever refused for its number.\<close>

lemma rowsOf_numbers:
  assumes "copyFrom (rowsOf halted source) = Inr rows" and "so_rowNumber source = 0"
  shows "map SourceRowNumber rows = map int [1 ..< length rows + 1]"
    and "src_hash (rowsOf halted source) = Inr (sha256 (so_content source))"
    and "distinct (map SourceRowNumber rows)" and "\<And>row. row \<in> set rows \<Longrightarrow> 0 < SourceRowNumber row"
proof -
  obtain e source' where d: "drain halted source = (rows, e, source')" and e: "e = None"
    using assms(1) by (auto simp: copyFrom_def rowsOf_def split: option.splits prod.splits if_splits)
  note facts = csv_source.drained_numbers [OF drain_drained [OF d]] csv_source.drained_hash [OF drain_drained [OF d]]
  from facts assms(2) show nums: "map SourceRowNumber rows = map int [1 ..< length rows + 1]" by simp
  from facts e d show "src_hash (rowsOf halted source) = Inr (sha256 (so_content source))"
    by (simp add: rowsOf_def)
  show "distinct (map SourceRowNumber rows)" unfolding nums by (simp add: distinct_map)
  show "0 < SourceRowNumber row" if "row \<in> set rows" for row
  proof -
    from that have "SourceRowNumber row \<in> set (map SourceRowNumber rows)" by simp
    then show ?thesis unfolding nums by auto
  qed
qed

section \<open>An export file is read as it was written\<close>

definition exportText :: "(bool \<times> string) list list \<Rightarrow> string" where
  "exportText records = concat (map csvRecordText records)"

definition carriedRecord :: "(bool \<times> string) list \<Rightarrow> bool" where
  "carriedRecord r \<longleftrightarrow> length r = length requiredHeader \<and> list_all writableField r
     \<and> validUTF8 (map snd r) \<and> sum_list (map length (map snd r)) \<le> MaxRecordBytes"

lemma requiredHeader_length [simp]: "length requiredHeader = 8"
  by (simp add: requiredHeader_def)

lemma exportText_Cons [simp]: "exportText (r # rs) = csvRecordText r @ exportText rs" "exportText [] = []"
  by (simp_all add: exportText_def)

lemma csvRead_carried:
  assumes "carriedRecord r"
  shows "csvRead 8 broken (csvRecordText r @ t) = (CsvRecord (map snd r), t)"
  using csvRead_record [of r broken t] assms by (simp add: carriedRecord_def)

lemma drain_export:
  assumes "list_all carriedRecord records" and "so_unread source = exportText records"
    and "\<not> so_broken source" and "\<not> so_closed source" and "\<not> so_exhausted source"
  shows "\<exists>source'. drain (\<lambda>_. False) source
      = (map (\<lambda>(i, r). paymentRow (so_rowNumber source + int i) (map snd r)) (enumerate 1 records), None, source')
    \<and> so_exhausted source' \<and> so_content source' = so_content source"
  using assms
proof (induction records arbitrary: source)
  case Nil
  then have "Next False source = (source\<lparr>so_unread := [], so_exhausted := True\<rparr>, Inr None)"
    by (simp add: Next_def)
  then show ?case by (subst drain.simps) simp
next
  case (Cons r rs)
  let ?n = "so_rowNumber source"
  let ?s = "source\<lparr>so_unread := exportText rs, so_rowNumber := ?n + 1\<rparr>"
  have step: "Next False source = (?s, Inr (Some (paymentRow (?n + 1) (map snd r))))"
    using Cons.prems csvRead_carried [of r False "exportText rs"]
    by (simp add: Next_def Let_def carriedRecord_def not_less)
  from Cons.prems have "list_all carriedRecord rs" "so_unread ?s = exportText rs" "\<not> so_broken ?s"
    "\<not> so_closed ?s" "\<not> so_exhausted ?s" by simp_all
  from Cons.IH [OF this] obtain source' where
    "drain (\<lambda>_. False) ?s = (map (\<lambda>(i, r). paymentRow (so_rowNumber ?s + int i) (map snd r)) (enumerate 1 rs), None, source')"
    "so_exhausted source'" "so_content source' = so_content source" by auto
  moreover have "enumerate (Suc 1) rs = map (\<lambda>(i, r). (Suc i, r)) (enumerate 1 rs)"
    by (simp add: enumerate_Suc_eq case_prod_beta apfst_def map_prod_def)
  ultimately show ?case
    using step by (subst drain.simps) (simp add: case_prod_beta comp_def algebra_simps)
qed

end
