(* ===== verification/Status.thy ===== *)
theory Status
  imports Batches Samples
begin

text \<open>
  \<open>postgres/internal/store/status.go\<close>: the status of one client and of a whole firm, and the
  list of exceptions. \<open>clock_timestamp()\<close> is one argument per query. The theorems say that
  the two status queries agree, that the counts partition the filings, what the headlines
  mean, and that attention is raised exactly when there is an exception to show.
\<close>

section \<open>One client\<close>

record clientStatusFacts =
  csf_status :: ClientStatus
  csf_attention :: bool
  csf_awaiting :: bool

definition ackOverdueMicros :: int where "ackOverdueMicros = 30 * 60 * 1000000"

text \<open>\<open>COALESCE(submitted_at, next_action_at) < clock_timestamp() - interval '30 minutes'\<close>, for a
  batch the IRS has but has not acknowledged.\<close>

definition ackOverdue :: "int \<Rightarrow> batch_row \<Rightarrow> bool" where
  "ackOverdue now b \<longleftrightarrow>
     b_state b \<in> {BSubmitted, BAwaitingAck}
     \<and> (case b_submitted_at b of None \<Rightarrow> b_next_action_at b | Some s \<Rightarrow> s) < now - ackOverdueMicros"

definition awaitingStates :: "batch_state list" where
  "awaitingStates = [BSubmitting, BSubmitUnknown, BSubmitted, BAwaitingAck]"

definition clientFilings :: "string \<Rightarrow> string \<Rightarrow> db \<Rightarrow> filing_row list" where
  "clientFilings firmID clientID d = filter (\<lambda>f. f_firm f = firmID \<and> f_client f = clientID) (db_filings d)"

definition clientBatches :: "string \<Rightarrow> string \<Rightarrow> db \<Rightarrow> batch_row list" where
  "clientBatches firmID clientID d = filter (\<lambda>b. b_firm b = firmID \<and> b_client b = clientID) (db_batches d)"

definition countIn :: "filing_state list \<Rightarrow> filing_row list \<Rightarrow> int" where
  "countIn sts fs = int (length (filter (\<lambda>f. f_state f \<in> set sts) fs))"

definition filingCounts :: "filing_row list \<Rightarrow> StatusCounts" where
  "filingCounts fs =
     \<lparr>Required = int (length fs), Blocked = countIn [FBlockedPreflight] fs, Ready = countIn [FReady] fs,
      Pending = countIn [FBatched] fs, Accepted = countIn [FAccepted] fs, Rejected = countIn [FRejected] fs\<rparr>"

definition headline :: "clientStatusFacts \<Rightarrow> HeadlineState" where
  "headline facts =
     (if csf_attention facts then HeadlineNeedsAttention
      else if csf_awaiting facts then HeadlineAwaitingIRS
      else if Ready (cs_Counts (csf_status facts)) = 0 \<and> Pending (cs_Counts (csf_status facts)) = 0
      then HeadlineFullyFiled
      else HeadlinePartiallyFiled)"

definition withHeadline :: "clientStatusFacts \<Rightarrow> clientStatusFacts" where
  "withHeadline facts = facts\<lparr>csf_status := (csf_status facts)\<lparr>cs_Headline := headline facts\<rparr>\<rparr>"

text \<open>A status before its headline is set (the zero value stands for it).\<close>

definition scanFacts :: "string \<Rightarrow> string \<Rightarrow> StatusCounts \<Rightarrow> bool \<Rightarrow> bool \<Rightarrow> clientStatusFacts" where
  "scanFacts firmID clientID counts attention awaiting =
     \<lparr>csf_status = \<lparr>cs_FirmID = firmID, cs_ClientID = clientID, cs_Counts = counts,
                   cs_Headline = HeadlineFullyFiled\<rparr>,
      csf_attention = attention, csf_awaiting = awaiting\<rparr>"

definition readClientStatus :: "int \<Rightarrow> string \<Rightarrow> string \<Rightarrow> db \<Rightarrow> clientStatusFacts result" where
  "readClientStatus now firmID clientID d =
     (if (firmID, clientID) \<notin> set (db_clients d) then Inl ErrNotFound
      else
        (let fs = clientFilings firmID clientID d; bs = clientBatches firmID clientID d
         in Inr (withHeadline (scanFacts firmID clientID (filingCounts fs)
              (0 < countIn [FBlockedPreflight, FRejected] fs
               \<or> list_ex (\<lambda>b. b_state b = BInvariantFailed) bs
               \<or> list_ex (ackOverdue now) bs)
              (list_ex (\<lambda>b. b_state b \<in> set awaitingStates) bs)))))"

definition ClientStatusOf :: "int \<Rightarrow> string \<Rightarrow> string \<Rightarrow> db \<Rightarrow> ClientStatus result" where
  "ClientStatusOf now firmID clientID d =
     (if clientID = '''' then Inl (ErrMsg ''invalid client status query'')
      else case beginFirm firmID of
        Inl e \<Rightarrow> Inl e
      | Inr _ \<Rightarrow> (case readClientStatus now firmID clientID d of
                    Inl e \<Rightarrow> Inl e
                  | Inr facts \<Rightarrow> Inr (csf_status facts)))"

section \<open>A firm\<close>

text \<open>The common table expressions: one group per client that has filings, or batches; a client
  without a group gets the COALESCE defaults.\<close>

definition filingGroup :: "string \<Rightarrow> string \<Rightarrow> db \<Rightarrow> (StatusCounts \<times> bool) option" where
  "filingGroup firmID clientID d =
     (let fs = filter (\<lambda>f. f_client f = clientID) (filter (\<lambda>f. f_firm f = firmID) (db_filings d))
      in if fs = [] then None
         else Some (filingCounts fs, list_ex (\<lambda>f. f_state f \<in> {FBlockedPreflight, FRejected}) fs))"

definition batchGroup :: "int \<Rightarrow> string \<Rightarrow> string \<Rightarrow> db \<Rightarrow> (bool \<times> bool) option" where
  "batchGroup now firmID clientID d =
     (let bs = filter (\<lambda>b. b_client b = clientID) (filter (\<lambda>b. b_firm b = firmID) (db_batches d))
      in if bs = [] then None
         else Some (list_ex (\<lambda>b. b_state b = BInvariantFailed \<or> ackOverdue now b) bs,
                    list_ex (\<lambda>b. b_state b \<in> set awaitingStates) bs))"

definition zeroCounts :: StatusCounts where
  "zeroCounts = \<lparr>Required = 0, Blocked = 0, Ready = 0, Pending = 0, Accepted = 0, Rejected = 0\<rparr>"

definition firmRow :: "int \<Rightarrow> string \<Rightarrow> db \<Rightarrow> string \<Rightarrow> clientStatusFacts" where
  "firmRow now firmID d clientID =
     (let f = (case filingGroup firmID clientID d of None \<Rightarrow> (zeroCounts, False) | Some x \<Rightarrow> x);
          b = (case batchGroup now firmID clientID d of None \<Rightarrow> (False, False) | Some x \<Rightarrow> x)
      in scanFacts firmID clientID (fst f) (snd f \<or> fst b) (snd b))"

text \<open>\<open>FROM clients c ... WHERE c.firm_id=$1 ORDER BY c.id\<close>, compared bytewise.\<close>

definition firmClients :: "string \<Rightarrow> db \<Rightarrow> string list" where
  "firmClients firmID d = sort (map snd (filter (\<lambda>c. fst c = firmID) (db_clients d)))"

definition addCounts :: "StatusCounts \<Rightarrow> StatusCounts \<Rightarrow> StatusCounts" where
  "addCounts a b =
     \<lparr>Required = Required a + Required b, Blocked = Blocked a + Blocked b, Ready = Ready a + Ready b,
      Pending = Pending a + Pending b, Accepted = Accepted a + Accepted b, Rejected = Rejected a + Rejected b\<rparr>"

definition raiseHeadline :: "HeadlineState \<Rightarrow> HeadlineState \<Rightarrow> HeadlineState" where
  "raiseHeadline current next =
     (if next = HeadlineNeedsAttention then HeadlineNeedsAttention
      else if current \<noteq> HeadlineNeedsAttention \<and> next = HeadlineAwaitingIRS then HeadlineAwaitingIRS
      else if current = HeadlineFullyFiled \<and> next = HeadlinePartiallyFiled then HeadlinePartiallyFiled
      else current)"

definition addClient :: "FirmStatus \<Rightarrow> clientStatusFacts \<Rightarrow> FirmStatus" where
  "addClient acc row =
     (let status = csf_status (withHeadline row)
      in acc\<lparr>fs_Clients := fs_Clients acc @ [status],
             fs_Counts := addCounts (fs_Counts acc) (cs_Counts status),
             fs_Headline := raiseHeadline (fs_Headline acc) (cs_Headline status)\<rparr>)"

definition FirmStatusOf :: "int \<Rightarrow> string \<Rightarrow> db \<Rightarrow> FirmStatus result" where
  "FirmStatusOf now firmID d =
     (case beginFirm firmID of
        Inl e \<Rightarrow> Inl e
      | Inr _ \<Rightarrow>
          (let result = foldl addClient
                 \<lparr>fs_FirmID = firmID, fs_Counts = zeroCounts, fs_Headline = HeadlineFullyFiled, fs_Clients = []\<rparr>
                 (map (firmRow now firmID d) (firmClients firmID d))
           in if fs_Clients result = [] then Inl ErrNotFound else Inr result))"

section \<open>Exceptions\<close>

definition preflightException :: "string option \<Rightarrow> string option" where
  "preflightException reason =
     (case reason of
        None \<Rightarrow> None
      | Some r \<Rightarrow>
          if r = ''TIN_MISSING'' then Some ''MISSING_TIN''
          else if r = ''TIN_MALFORMED'' then Some ''INVALID_TIN''
          else if r = ''TIN_INVALID'' then Some ''INVALID_TIN''
          else if r = ''AMOUNT_INVALID'' then Some ''INVALID_AMOUNT'' else None)"

text \<open>A result row; a NULL in a column scanned into a string is \<open>None\<close>.\<close>

record exception_row =
  xr_type :: "string option"
  xr_client :: string
  xr_filing :: int
  xr_batch :: int
  xr_vendor :: string
  xr_code :: "string option"

definition blockedExceptions :: "string \<Rightarrow> db \<Rightarrow> exception_row list" where
  "blockedExceptions firmID d =
     map (\<lambda>f. \<lparr>xr_type = preflightException (f_preflight_reason f), xr_client = f_client f,
               xr_filing = f_id f, xr_batch = 0, xr_vendor = f_vendor_display_name f,
               xr_code = f_preflight_reason f\<rparr>)
       (filter (\<lambda>f. f_firm f = firmID \<and> f_state f = FBlockedPreflight) (db_filings d))"

definition linkedBatch :: "int \<Rightarrow> db \<Rightarrow> int" where
  "linkedBatch filingID d =
     (case filter (\<lambda>x. bf_filing x = filingID) (db_batch_filings d) of [] \<Rightarrow> 0 | x # _ \<Rightarrow> bf_batch x)"

definition rejectedExceptions :: "string \<Rightarrow> db \<Rightarrow> exception_row list" where
  "rejectedExceptions firmID d =
     map (\<lambda>f. \<lparr>xr_type = map_option (\<lambda>r. ''FILING_REJECTED_'' @ r) (f_rejection_reason f),
               xr_client = f_client f, xr_filing = f_id f, xr_batch = linkedBatch (f_id f) d,
               xr_vendor = f_vendor_display_name f, xr_code = f_rejection_reason f\<rparr>)
       (filter (\<lambda>f. f_firm f = firmID \<and> f_state f = FRejected) (db_filings d))"

definition failedExceptions :: "string \<Rightarrow> db \<Rightarrow> exception_row list" where
  "failedExceptions firmID d =
     map (\<lambda>b. \<lparr>xr_type = Some (if b_retry_exhausted_at b \<noteq> None then ''RETRY_EXHAUSTED'' else ''INVARIANT_FAILURE''),
               xr_client = b_client b, xr_filing = 0, xr_batch = b_id b, xr_vendor = '''',
               xr_code = Some (case b_last_error b of None \<Rightarrow> ''INVARIANT'' | Some e \<Rightarrow> e)\<rparr>)
       (filter (\<lambda>b. b_firm b = firmID \<and> b_state b = BInvariantFailed) (db_batches d))"

definition overdueExceptions :: "int \<Rightarrow> string \<Rightarrow> db \<Rightarrow> exception_row list" where
  "overdueExceptions now firmID d =
     map (\<lambda>b. \<lparr>xr_type = Some ''SUBMISSION_UNACKNOWLEDGED'', xr_client = b_client b, xr_filing = 0,
               xr_batch = b_id b, xr_vendor = '''', xr_code = Some ''ACK_DELAY''\<rparr>)
       (filter (\<lambda>b. b_firm b = firmID \<and> ackOverdue now b) (db_batches d))"

definition exceptionRows :: "int \<Rightarrow> string \<Rightarrow> string \<Rightarrow> db \<Rightarrow> exception_row list" where
  "exceptionRows now firmID clientID d =
     sort_key (\<lambda>x. (coalesce (xr_type x), xr_client x, xr_filing x, xr_batch x))
       (filter (\<lambda>x. clientID = '''' \<or> xr_client x = clientID)
         (blockedExceptions firmID d @ rejectedExceptions firmID d
          @ failedExceptions firmID d @ overdueExceptions now firmID d))"

definition exceptionItem :: "exception_row \<Rightarrow> ExceptionItem" where
  "exceptionItem x =
     \<lparr>ei_ClientID = xr_client x, ei_FilingID = xr_filing x, ei_BatchID = xr_batch x,
      ei_VendorDisplayName = xr_vendor x, ei_FailureCode = coalesce (xr_code x)\<rparr>"

text \<open>The scan loop: \<open>grouped\<close> maps a type to its group, \<open>order\<close> lists the types as they appear.\<close>

fun groupExceptions :: "exception_row list \<Rightarrow> (string \<rightharpoonup> ExceptionGroup) \<Rightarrow> string list
    \<Rightarrow> ((string \<rightharpoonup> ExceptionGroup) \<times> string list) result" where
  "groupExceptions [] grouped order = Inr (grouped, order)"
| "groupExceptions (x # xs) grouped order =
     (case (xr_type x, xr_code x) of
        (Some t, Some _) \<Rightarrow>
          (let g = (case grouped t of None \<Rightarrow> \<lparr>eg_Type = t, eg_Count = 0, eg_Items = []\<rparr> | Some g \<Rightarrow> g);
               order' = (if grouped t = None then order @ [t] else order)
           in groupExceptions xs
                (grouped(t \<mapsto> g\<lparr>eg_Count := eg_Count g + 1, eg_Items := eg_Items g @ [exceptionItem x]\<rparr>)) order')
      | _ \<Rightarrow> Inl (mapError OtherError))"

definition ExceptionsOf :: "int \<Rightarrow> string \<Rightarrow> string \<Rightarrow> db \<Rightarrow> ExceptionGroup list result" where
  "ExceptionsOf now firmID clientID d =
     (case beginFirm firmID of
        Inl e \<Rightarrow> Inl e
      | Inr _ \<Rightarrow>
          (case groupExceptions (exceptionRows now firmID clientID d) Map.empty [] of
             Inl e \<Rightarrow> Inl e
           | Inr (grouped, order) \<Rightarrow> Inr (map (\<lambda>t. the (grouped t)) (sort order))))"

section \<open>The two status queries agree\<close>

lemma countIn_Nil [simp]: "countIn sts [] = 0"
  by (simp add: countIn_def)

lemma countIn_pos: "0 < countIn sts fs \<longleftrightarrow> list_ex (\<lambda>f. f_state f \<in> set sts) fs"
proof -
  have "0 < countIn sts fs \<longleftrightarrow> filter (\<lambda>f. f_state f \<in> set sts) fs \<noteq> []" by (simp add: countIn_def)
  then show ?thesis by (auto simp: filter_empty_conv list_ex_iff)
qed

lemma list_ex_or: "list_ex (\<lambda>x. P x \<or> Q x) xs \<longleftrightarrow> list_ex P xs \<or> list_ex Q xs"
  by (auto simp: list_ex_iff)

lemma firmRow_client:
  "withHeadline (firmRow now firmID d clientID)
     = withHeadline (scanFacts firmID clientID (filingCounts (clientFilings firmID clientID d))
         (0 < countIn [FBlockedPreflight, FRejected] (clientFilings firmID clientID d)
            \<or> list_ex (\<lambda>b. b_state b = BInvariantFailed) (clientBatches firmID clientID d)
            \<or> list_ex (ackOverdue now) (clientBatches firmID clientID d))
         (list_ex (\<lambda>b. b_state b \<in> set awaitingStates) (clientBatches firmID clientID d)))"
proof -
  have fs: "filter (\<lambda>f. f_client f = clientID) (filter (\<lambda>f. f_firm f = firmID) (db_filings d))
      = clientFilings firmID clientID d"
    by (simp add: clientFilings_def)
  have bs: "filter (\<lambda>b. b_client b = clientID) (filter (\<lambda>b. b_firm b = firmID) (db_batches d))
      = clientBatches firmID clientID d"
    by (simp add: clientBatches_def)
  have zero: "filingCounts [] = zeroCounts" by (simp add: filingCounts_def zeroCounts_def)
  show ?thesis
    unfolding firmRow_def filingGroup_def batchGroup_def Let_def fs bs countIn_pos list_ex_or
    by (simp add: zero)
qed

definition severity :: "HeadlineState \<Rightarrow> nat" where
  "severity h = (case h of HeadlineFullyFiled \<Rightarrow> 0 | HeadlinePartiallyFiled \<Rightarrow> 1
     | HeadlineAwaitingIRS \<Rightarrow> 2 | HeadlineNeedsAttention \<Rightarrow> 3)"

lemma severity_inject [simp]: "severity a = severity b \<longleftrightarrow> a = b"
  by (cases a; cases b) (simp_all add: severity_def)

lemma severity_raise: "severity (raiseHeadline current next) = max (severity current) (severity next)"
  by (cases current; cases "next") (simp_all add: raiseHeadline_def severity_def)

lemma addClient_fold:
  "fs_Clients (foldl addClient acc rows) = fs_Clients acc @ map (csf_status \<circ> withHeadline) rows
   \<and> fs_FirmID (foldl addClient acc rows) = fs_FirmID acc
   \<and> Required (fs_Counts (foldl addClient acc rows))
       = Required (fs_Counts acc) + sum_list (map (Required \<circ> cs_Counts \<circ> csf_status \<circ> withHeadline) rows)
   \<and> Accepted (fs_Counts (foldl addClient acc rows))
       = Accepted (fs_Counts acc) + sum_list (map (Accepted \<circ> cs_Counts \<circ> csf_status \<circ> withHeadline) rows)
   \<and> severity (fs_Headline (foldl addClient acc rows))
       = fold max (map (severity \<circ> cs_Headline \<circ> csf_status \<circ> withHeadline) rows) (severity (fs_Headline acc))"
proof (induction rows arbitrary: acc)
  case (Cons row rows)
  show ?case using Cons.IH [of "addClient acc row"]
    by (simp add: addClient_def Let_def addCounts_def severity_raise max.commute)
qed simp


section \<open>What the counts and headlines mean\<close>

lemma counts_partition:
  "Required (filingCounts fs) = Blocked (filingCounts fs) + Ready (filingCounts fs)
     + Pending (filingCounts fs) + Accepted (filingCounts fs) + Rejected (filingCounts fs)"
proof -
  have "int (length fs) = countIn [FBlockedPreflight] fs + countIn [FReady] fs + countIn [FBatched] fs
      + countIn [FAccepted] fs + countIn [FRejected] fs"
  proof (induction fs)
    case (Cons f fs)
    then show ?case by (cases "f_state f") (simp_all add: countIn_def)
  qed simp
  then show ?thesis by (simp add: filingCounts_def)
qed

lemma headline_means:
  assumes "ClientStatusOf now firmID clientID d = Inr s"
  shows "Required (cs_Counts s) = Blocked (cs_Counts s) + Ready (cs_Counts s) + Pending (cs_Counts s)
      + Accepted (cs_Counts s) + Rejected (cs_Counts s)
    \<and> (cs_Headline s = HeadlineFullyFiled \<longrightarrow>
        (\<forall>f \<in> set (clientFilings firmID clientID d). f_state f = FAccepted)
        \<and> (\<forall>b \<in> set (clientBatches firmID clientID d). b_state b \<in> {BPlanned, BAcknowledged}))"
proof -
  let ?fs = "clientFilings firmID clientID d" and ?bs = "clientBatches firmID clientID d"
  let ?att = "0 < countIn [FBlockedPreflight, FRejected] ?fs
      \<or> list_ex (\<lambda>b. b_state b = BInvariantFailed) ?bs \<or> list_ex (ackOverdue now) ?bs"
  let ?wait = "list_ex (\<lambda>b. b_state b \<in> set awaitingStates) ?bs"
  from assms have s: "s = csf_status (withHeadline (scanFacts firmID clientID (filingCounts ?fs) ?att ?wait))"
    by (auto simp: ClientStatusOf_def readClientStatus_def Let_def split: if_splits sum.splits)
  then have counts: "cs_Counts s = filingCounts ?fs" by (simp add: withHeadline_def scanFacts_def)
  have "(\<forall>f \<in> set ?fs. f_state f = FAccepted) \<and> (\<forall>b \<in> set ?bs. b_state b \<in> {BPlanned, BAcknowledged})"
    if full: "cs_Headline s = HeadlineFullyFiled"
  proof -
    from full s have none: "\<not> ?att" "\<not> ?wait" and zero: "Ready (cs_Counts s) = 0" "Pending (cs_Counts s) = 0"
      unfolding counts
      by (auto simp: withHeadline_def scanFacts_def headline_def split: if_splits)
    have "\<not> 0 < countIn [FReady] ?fs" "\<not> 0 < countIn [FBatched] ?fs"
      using zero by (simp_all add: counts filingCounts_def)
    with none(1) have no: "\<forall>f \<in> set ?fs. f_state f \<notin> {FReady, FBatched, FBlockedPreflight, FRejected}"
      by (auto simp: countIn_pos list_ex_iff)
    have "f_state f = FAccepted" if "f \<in> set ?fs" for f
      using no that by (cases "f_state f") auto
    moreover have "b_state b \<in> {BPlanned, BAcknowledged}" if "b \<in> set ?bs" for b
      using none that by (cases "b_state b") (auto simp: list_ex_iff awaitingStates_def)
    ultimately show ?thesis by blast
  qed
  with counts show ?thesis by (simp add: counts_partition)
qed

text \<open>The counts partition the client's filings, and \<open>fully filed\<close> means what it says: every
  filing of the client is accepted, and no batch of the client is in flight or failed.\<close>

theorem headline_fully_filed:
  assumes "ClientStatusOf now firmID clientID d = Inr s"
  shows "Required (cs_Counts s) = Blocked (cs_Counts s) + Ready (cs_Counts s) + Pending (cs_Counts s)
      + Accepted (cs_Counts s) + Rejected (cs_Counts s)
    \<and> (cs_Headline s = HeadlineFullyFiled \<longrightarrow>
        (\<forall>f \<in> set (clientFilings firmID clientID d). f_state f = FAccepted)
        \<and> (\<forall>b \<in> set (clientBatches firmID clientID d). b_state b \<in> {BPlanned, BAcknowledged}))"
  by (rule headline_means [OF assms])

section \<open>Attention and exceptions\<close>

definition scannable :: "exception_row \<Rightarrow> bool" where
  "scannable x \<longleftrightarrow> xr_type x \<noteq> None \<and> xr_code x \<noteq> None"

lemma groupExceptions_total:
  "list_all scannable xs \<Longrightarrow> set order = dom grouped \<Longrightarrow>
     \<exists>g o'. groupExceptions xs grouped order = Inr (g, o') \<and> set o' = dom g
       \<and> dom g = dom grouped \<union> (\<lambda>x. the (xr_type x)) ` set xs"
proof (induction xs arbitrary: grouped order)
  case (Cons x xs)
  then obtain t c where tc: "xr_type x = Some t" "xr_code x = Some c"
    by (auto simp: scannable_def)
  let ?g = "case grouped t of None \<Rightarrow> \<lparr>eg_Type = t, eg_Count = 0, eg_Items = []\<rparr> | Some g \<Rightarrow> g"
  let ?o = "if grouped t = None then order @ [t] else order"
  let ?m = "grouped(t \<mapsto> ?g\<lparr>eg_Count := eg_Count ?g + 1, eg_Items := eg_Items ?g @ [exceptionItem x]\<rparr>)"
  have o: "set ?o = dom ?m" using Cons.prems(2) by auto
  from Cons.prems(1) have "list_all scannable xs" by simp
  from Cons.IH [OF this o] obtain g o' where g: "groupExceptions xs ?m ?o = Inr (g, o')" "set o' = dom g"
    "dom g = dom ?m \<union> (\<lambda>x. the (xr_type x)) ` set xs"
    by blast
  have "groupExceptions (x # xs) grouped order = groupExceptions xs ?m ?o"
    using tc by (simp add: Let_def)
  with g tc(1) show ?case by simp
qed simp

lemma preflight_scannable:
  assumes "filing_row_ok f" and "f_state f = FBlockedPreflight"
  shows "preflightException (f_preflight_reason f) \<noteq> None" and "f_preflight_reason f \<noteq> None"
  using assms by (auto simp: filing_row_ok_def optIn_def preflightReasons_def preflightException_def
      split: option.splits)

lemma exceptionRows_scannable:
  assumes "schema_ok d"
  shows "list_all scannable (exceptionRows now firmID clientID d)"
proof -
  have ok: "filing_row_ok f" if "f \<in> set (db_filings d)" for f
    using assms that by (simp add: schema_ok_def)
  have rej: "f_rejection_reason f \<noteq> None" if "f \<in> set (db_filings d)" "f_state f = FRejected" for f
    using ok [OF that(1)] that(2) by (simp add: filing_row_ok_def)
  show ?thesis
    unfolding list_all_iff exceptionRows_def set_sort
    using preflight_scannable ok rej
    by (auto simp: scannable_def blockedExceptions_def rejectedExceptions_def failedExceptions_def
        overdueExceptions_def)
qed

text \<open>C27. A client needs attention exactly when there is something to show for it: in a database
  that meets its schema the exception query for the client always answers, and its answer is
  empty exactly when the status raises no attention.\<close>

theorem attention_has_exceptions:
  assumes "schema_ok d" and "beginFirm firmID = Inr ()" and "clientID \<noteq> ''''"
    and "readClientStatus now firmID clientID d = Inr facts"
  shows "\<exists>gs. ExceptionsOf now firmID clientID d = Inr gs \<and> (csf_attention facts \<longleftrightarrow> gs \<noteq> [])"
proof -
  let ?rows = "exceptionRows now firmID clientID d"
  from groupExceptions_total [OF exceptionRows_scannable [OF assms(1)], of "[]" Map.empty now firmID clientID]
  obtain g o' where g: "groupExceptions ?rows Map.empty [] = Inr (g, o')" "set o' = dom g"
    "dom g = (\<lambda>x. the (xr_type x)) ` set ?rows" by auto
  then have "ExceptionsOf now firmID clientID d = Inr (map (\<lambda>t. the (g t)) (sort o'))"
    using assms(2) by (simp add: ExceptionsOf_def)
  moreover have "sort o' \<noteq> [] \<longleftrightarrow> set ?rows \<noteq> {}"
    using g(2,3) by (metis image_is_empty set_empty set_sort)
  moreover have "set ?rows \<noteq> {} \<longleftrightarrow> csf_attention facts"
  proof -
    have rows: "set ?rows = {x \<in> set (blockedExceptions firmID d) \<union> set (rejectedExceptions firmID d)
        \<union> set (failedExceptions firmID d) \<union> set (overdueExceptions now firmID d). xr_client x = clientID}"
      unfolding exceptionRows_def set_sort using assms(3) by auto
    have att: "csf_attention facts \<longleftrightarrow>
        (\<exists>f \<in> set (clientFilings firmID clientID d). f_state f \<in> {FBlockedPreflight, FRejected})
        \<or> (\<exists>b \<in> set (clientBatches firmID clientID d). b_state b = BInvariantFailed \<or> ackOverdue now b)"
      using assms(4) unfolding readClientStatus_def Let_def countIn_pos
      by (auto simp: withHeadline_def scanFacts_def list_ex_iff split: if_splits)
    show ?thesis
      unfolding rows att
      by (auto simp: blockedExceptions_def rejectedExceptions_def failedExceptions_def
          overdueExceptions_def clientFilings_def clientBatches_def)
  qed
  ultimately show ?thesis by auto
qed

section \<open>Witnesses\<close>


theorem headline_fully_filed_witness:
  "\<exists>s. ClientStatusOf 0 ''acme'' ''c1'' sampleDb = Inr s \<and> Required (cs_Counts s) = Ready (cs_Counts s)
     \<and> Blocked (cs_Counts s) = 0"
proof -
  have "\<exists>s. ClientStatusOf 0 ''acme'' ''c1'' sampleDb = Inr s \<and> Required (cs_Counts s) = 1 \<and> Ready (cs_Counts s) = 1
      \<and> Blocked (cs_Counts s) = 0 \<and> Pending (cs_Counts s) = 0 \<and> Accepted (cs_Counts s) = 0 \<and> Rejected (cs_Counts s) = 0"
    by (simp add: ClientStatusOf_def readClientStatus_def Let_def sampleDb_def withHeadline_def scanFacts_def
        filingCounts_def clientFilings_def sampleFiling_def countIn_def)
  then obtain s where s: "ClientStatusOf 0 ''acme'' ''c1'' sampleDb = Inr s" "Blocked (cs_Counts s) = 0"
    "Pending (cs_Counts s) = 0" "Accepted (cs_Counts s) = 0" "Rejected (cs_Counts s) = 0" by blast
  from headline_fully_filed [OF s(1)] s show ?thesis by auto
qed

theorem attention_has_exceptions_witness:
  "\<exists>gs. ExceptionsOf 0 ''acme'' ''c1'' sampleDb = Inr gs \<and> gs = []"
proof -
  obtain facts where f: "readClientStatus 0 ''acme'' ''c1'' sampleDb = Inr facts" "\<not> csf_attention facts"
    by (simp add: readClientStatus_def Let_def sampleDb_def withHeadline_def scanFacts_def
        clientFilings_def sampleFiling_def countIn_def clientBatches_def)
  from attention_has_exceptions [OF sampleDb_ok acme_begin _ f(1)] f(2) show ?thesis by auto
qed

end
