(* ===== verification/Service.thy ===== *)
theory Service
  imports Payment_Source Status Planning_Facts Determination_Facts
begin

text \<open>
  The application service, \<open>service/internal/app/app.go\<close>: importing a file, determining and
  planning, and the queries, each over the store. \<open>fmt.Errorf("...: %w", err)\<close> keeps the
  error callers match on, so wrapping is left out; closing the source after an import only
  releases the file. What an import takes from a file, and how determination and planning
  resume after an interruption, are proved here.
\<close>

section \<open>Operations\<close>

definition Import ::
  "file_system \<Rightarrow> (int \<Rightarrow> bool) \<Rightarrow> string \<Rightarrow> int \<Rightarrow> string \<Rightarrow> db \<Rightarrow> db \<times> DatasetResult result" where
  "Import fs halted firmID taxYear inputPath d =
     (case Discover fs inputPath firmID of
        Inl e \<Rightarrow> (d, Inl e)
      | Inr filePath \<Rightarrow>
          (case Open fs filePath of
             Inl e \<Rightarrow> (d, Inl e)
           | Inr source \<Rightarrow>
               ImportDataset \<lparr>imp_FirmID = firmID, imp_TaxYear = taxYear\<rparr> (Some (rowsOf halted source)) d))"

definition Determine :: "string \<Rightarrow> int \<Rightarrow> db \<Rightarrow> db \<times> DeterminationResult result" where
  "Determine firmID datasetID d =
     DetermineDataset \<lparr>det_FirmID = firmID, det_DatasetID = datasetID, det_RulesetVersion = RulesetNEC2025V1\<rparr> d"

definition Plan :: "int \<Rightarrow> string \<Rightarrow> int \<Rightarrow> db \<Rightarrow> db \<times> BatchPlanResult result" where
  "Plan now firmID determinationID d =
     PlanBatches now \<lparr>plan_FirmID = firmID, plan_DeterminationID = determinationID\<rparr> d"

definition DetermineAndPlan ::
  "int \<Rightarrow> string \<Rightarrow> int \<Rightarrow> db \<Rightarrow> db \<times> (DeterminationResult \<times> BatchPlanResult) result" where
  "DetermineAndPlan now firmID datasetID d =
     (case Determine firmID datasetID d of
        (d1, Inl e) \<Rightarrow> (d1, Inl e)
      | (d1, Inr determination) \<Rightarrow>
          (case Plan now firmID (dr_DeterminationID determination) d1 of
             (d2, Inl e) \<Rightarrow> (d2, Inl e)
           | (d2, Inr plan) \<Rightarrow> (d2, Inr (determination, plan))))"

definition serviceFirmStatus :: "int \<Rightarrow> string \<Rightarrow> db \<Rightarrow> FirmStatus result" where
  "serviceFirmStatus now firmID d = FirmStatusOf now firmID d"

definition serviceClientStatus :: "int \<Rightarrow> string \<Rightarrow> string \<Rightarrow> db \<Rightarrow> ClientStatus result" where
  "serviceClientStatus now firmID clientID d = ClientStatusOf now firmID clientID d"

definition serviceExceptions :: "int \<Rightarrow> string \<Rightarrow> string \<Rightarrow> db \<Rightarrow> ExceptionGroup list result" where
  "serviceExceptions now firmID clientID d = ExceptionsOf now firmID clientID d"

definition servicePaymentExplanation :: "PaymentExplanationQuery \<Rightarrow> db \<Rightarrow> PaymentExplanation result" where
  "servicePaymentExplanation query d = PaymentExplanationOf query d"

section \<open>What an import takes from a file\<close>

definition numberedRows :: "(bool \<times> string) list list \<Rightarrow> PaymentRow list" where
  "numberedRows records = map (\<lambda>(i, r). paymentRow (int i) (map snd r)) (enumerate 1 records)"

lemma Open_export:
  assumes "fs_open fs file = Some (Some \<lparr>gz_content = exportText (header # records), gz_broken = False\<rparr>)"
    and "carriedRecord header" and "map snd header = requiredHeader" and "list_all carriedRecord records"
  obtains source where "Open fs file = Inr source"
    "rowsOf (\<lambda>_. False) source = \<lparr>src_rows = numberedRows records, src_error = None,
        src_hash = Inr (sha256 (exportText (header # records)))\<rparr>"
proof -
  let ?text = "exportText (header # records)"
  let ?s = "\<lparr>so_unread = exportText records, so_content = ?text, so_broken = False, so_rowNumber = 0,
      so_exhausted = False, so_closed = False\<rparr>"
  have opened: "Open fs file = Inr ?s"
    using csvRead_carried [OF assms(2), of False "exportText records"] assms(1-3)
    by (simp add: Open_def carriedRecord_def)
  from assms(4) obtain s' where "drain (\<lambda>_. False) ?s = (numberedRows records, None, s')"
    "so_exhausted s'" "so_content s' = ?text"
    using drain_export [of records ?s] by (auto simp: numberedRows_def)
  with opened show thesis by (intro that [of ?s]) (simp_all add: rowsOf_def SHA256_def)
qed

lemma ImportDataset_stored:
  assumes "ImportDataset cmd (Some src) d = (d', Inr r)"
  shows "src_hash src = Inr (ds_ContentSHA256 r) \<and> ds_RowCount r = int (length (src_rows src))
    \<and> (if ds_Existing r then d' = d
       else db_payments d' = db_payments d @ map (paymentRowOf (ds_DatasetID r) (imp_FirmID cmd)) (src_rows src))"
proof -
  from assms obtain staged hash where imp: "importable src staged hash" and
    "(storeDataset (imp_FirmID cmd) 2025 hash staged d = Inr (d', ds_DatasetID r)
        \<and> \<not> ds_Existing r \<and> ds_ContentSHA256 r = hash \<and> ds_RowCount r = int (length staged))
     \<or> (d' = d \<and> ds_Existing r \<and> ds_ContentSHA256 r = hash \<and> ds_RowCount r = int (length staged))"
    by (rule ImportDataset_Inr) auto
  moreover from imp have "staged = src_rows src" "src_hash src = Inr hash"
    by (auto simp: importable_def copyFrom_def split: option.splits if_splits)
  ultimately show ?thesis by (auto elim!: storeDataset_Inr)
qed

text \<open>C13. An import stores exactly the export: when the file holds the required header and records
  written as CSV (each field quoted or bare), a successful import answers with the SHA-256 of the
  content and the number of records, and a new dataset has one payment per record, numbered from 1,
  with the fields of that record.\<close>

theorem import_stores_export:
  assumes "Discover fs inputPath firmID = Inr file"
    and "fs_open fs file = Some (Some \<lparr>gz_content = exportText (header # records), gz_broken = False\<rparr>)"
    and "carriedRecord header" and "map snd header = requiredHeader" and "list_all carriedRecord records"
    and "Import fs (\<lambda>_. False) firmID taxYear inputPath d = (d', Inr r)"
  shows "ds_ContentSHA256 r = sha256 (exportText (header # records)) \<and> ds_RowCount r = int (length records)
    \<and> (if ds_Existing r then d' = d
       else db_payments d' = db_payments d @ map (paymentRowOf (ds_DatasetID r) firmID) (numberedRows records))"
proof -
  obtain source where "Open fs file = Inr source"
    "rowsOf (\<lambda>_. False) source = \<lparr>src_rows = numberedRows records, src_error = None,
        src_hash = Inr (sha256 (exportText (header # records)))\<rparr>"
    by (rule Open_export [OF assms(2-5)])
  with assms(1,6) ImportDataset_stored show ?thesis
    by (fastforce simp: Import_def numberedRows_def)
qed

text \<open>A damaged stream never ends: every way of reading it meets the damage first.\<close>

lemma csvRead_broken: "fst (csvRead n True s) \<noteq> CsvEOF"
proof (induction n True s rule: csvRead.induct)
  case (1 n s)
  have "readLine True s \<noteq> NoMoreLines" by (simp add: readLine_def split: list.splits)
  with 1 show ?case
    by (subst csvRead.simps) (auto split: line_result.splits prod.splits option.splits)
qed

lemma drain_broken:
  assumes "drain halted source = (rows, e, source')" and "so_broken source" and "\<not> so_exhausted source"
  shows "e \<noteq> None"
  using assms
proof (induction halted source arbitrary: rows e source' rule: drain.induct)
  case (1 halted source)
  obtain s1 r where n: "Next (halted (so_rowNumber source)) source = (s1, r)"
    by (cases "Next (halted (so_rowNumber source)) source")
  have "r \<noteq> Inr None"
    using n "1.prems" csvRead_broken [of 8 "so_unread source"]
    by (auto simp: Next_def Let_def split: if_splits prod.splits csv_result.splits)
  then consider (failed) x where "r = Inl x" | (row) row where "r = Inr (Some row)"
    by (metis sum.exhaust option.exhaust)
  then show ?case
  proof cases
    case failed
    with "1.prems" n show ?thesis by (subst (asm) drain.simps) auto
  next
    case row
    note step = Next_row [OF n [unfolded row]]
    from "1.prems" n row obtain rows1 where d: "drain halted s1 = (rows1, e, source')"
      by (subst (asm) drain.simps) (auto split: prod.splits)
    show ?thesis by (rule "1.IH" [OF _ _ _ d]) (use n row step "1.prems" in auto)
  qed
qed

text \<open>C20. A damaged export is refused whole: when the gzip stream breaks off or fails its checksum,
  whatever rows could be read before, the import fails and the database is as it was.\<close>

theorem damaged_export_refused:
  assumes "Discover fs inputPath firmID = Inr file"
    and "fs_open fs file = Some (Some \<lparr>gz_content = content, gz_broken = True\<rparr>)"
  shows "\<exists>e. Import fs halted firmID taxYear inputPath d = (d, Inl e)"
proof (cases "Open fs file")
  case (Inl e)
  with assms(1) show ?thesis by (simp add: Import_def)
next
  case (Inr source)
  then have "so_broken source" "\<not> so_exhausted source"
    using assms(2) by (auto simp: Open_def split: if_splits prod.splits csv_result.splits)
  then have "\<exists>e. copyFrom (rowsOf halted source) = Inl e"
    using drain_broken by (fastforce simp: copyFrom_def rowsOf_def split: prod.splits)
  then obtain e where "copyFrom (rowsOf halted source) = Inl e" ..
  then have "\<not> importable (rowsOf halted source) staged hash" for staged hash by (simp add: importable_def)
  then have "ImportDataset cmd (Some (rowsOf halted source)) d \<noteq> (d', Inr r)" for cmd d' r
    by (metis ImportDataset_Inr)
  with Inr assms(1) show ?thesis
    by (cases "Import fs halted firmID taxYear inputPath d"; cases "snd (Import fs halted firmID taxYear inputPath d)")
      (auto simp: Import_def dest: ImportDataset_Inl)
qed

section \<open>Determining and planning resume\<close>

text \<open>Whatever happened to the filings since, a dataset once determined is answered with its
  determination.\<close>

lemma determined_stays:
  assumes "DetermineDataset cmd d = (d1, Inr r)" and "db_determinations d2 = db_determinations d1"
  shows "\<exists>r'. DetermineDataset cmd d2 = (d2, Inr r') \<and> dr_DeterminationID r' = dr_DeterminationID r \<and> dr_Existing r'"
proof -
  have guards: "beginFirm (det_FirmID cmd) = Inr ()" "0 < det_DatasetID cmd" "det_RulesetVersion cmd = RulesetNEC2025V1"
    using assms(1) by (auto simp: DetermineDataset_def Let_def split: if_splits sum.splits)
  let ?mine = "\<lambda>x. dt_firm x = det_FirmID cmd \<and> dt_dataset x = det_DatasetID cmd \<and> dt_ruleset x = det_RulesetVersion cmd"
  have "\<exists>x rest. filter ?mine (db_determinations d1) = x # rest \<and> dt_id x = dr_DeterminationID r"
  proof (cases "dr_Existing r")
    case True
    with assms(1) show ?thesis
      by (auto simp: DetermineDataset_def Let_def split: if_splits sum.splits list.splits)
  next
    case False
    with assms(1) obtain ds :: dataset_row and row new where
      "row = \<lparr>dt_id = dr_DeterminationID r, dt_dataset = det_DatasetID cmd,
            dt_firm = det_FirmID cmd, dt_ruleset = det_RulesetVersion cmd\<rparr>"
      "d1 = d\<lparr>db_determinations := db_determinations d @ [row],
            db_filings := db_filings d @ numberFilings (nextId (map f_id (db_filings d))) new\<rparr>"
      "filter ?mine (db_determinations d) = []"
      by (rule DetermineDataset_fresh)
    then show ?thesis by simp
  qed
  with guards assms(2) show ?thesis by (auto simp: DetermineDataset_def Let_def)
qed

lemma determine_steady:
  assumes "schema_ok d" and "DetermineDataset cmd d = (d1, Inr r)"
  shows "DetermineDataset cmd d1 = (d1, Inr (r\<lparr>dr_Existing := True\<rparr>))"
proof (cases "dr_Existing r")
  case True
  with DetermineDataset_unchanged [OF assms(2)] assms(2) show ?thesis by (cases r) simp
qed (rule determine_again [OF assms])

lemma PlanBatches_determinations: "PlanBatches now cmd d = (d', Inr r) \<Longrightarrow> db_determinations d' = db_determinations d"
  by (erule PlanBatches_Inr) simp_all

text \<open>C12. Determining and planning can be cut short and repeated: after success nothing is left to plan;
  had the service stopped between the two transactions, running the action again would have ended in
  the same database with the same answer; and running it once more after success changes nothing.\<close>

theorem pipeline_resumes:
  assumes "schema_ok d" and "DetermineAndPlan now firmID datasetID d = (d', Inr (r, p))"
  shows "readyFilings firmID (dr_DeterminationID r) d' = []
    \<and> DetermineAndPlan now firmID datasetID (fst (Determine firmID datasetID d)) = (d', Inr (r\<lparr>dr_Existing := True\<rparr>, p))
    \<and> (\<exists>r'. DetermineAndPlan now' firmID datasetID d'
          = (d', Inr (r', \<lparr>ExistingBatchCount = ExistingBatchCount p + CreatedBatchCount p, CreatedBatchCount = 0\<rparr>))
        \<and> dr_DeterminationID r' = dr_DeterminationID r)"
proof -
  let ?det = "\<lparr>det_FirmID = firmID, det_DatasetID = datasetID, det_RulesetVersion = RulesetNEC2025V1\<rparr>"
  let ?plan = "\<lparr>plan_FirmID = firmID, plan_DeterminationID = dr_DeterminationID r\<rparr>"
  obtain d1 where d1: "DetermineDataset ?det d = (d1, Inr r)" and p: "PlanBatches now ?plan d1 = (d', Inr p)"
    using assms(2) by (auto simp: DetermineAndPlan_def Determine_def Plan_def split: prod.splits sum.splits)
  have ok: "schema_ok d1" by (rule DetermineDataset_schema [OF assms(1) d1])
  obtain r' where "DetermineDataset ?det d' = (d', Inr r')" "dr_DeterminationID r' = dr_DeterminationID r"
    using determined_stays [OF d1 PlanBatches_determinations [OF p]] by blast
  with plan_again [OF ok p] plan_leaves_nothing [OF p] determine_steady [OF assms(1) d1] d1 p show ?thesis
    by (simp add: DetermineAndPlan_def Determine_def Plan_def)
qed

section \<open>Witnesses\<close>

definition bare :: "string \<Rightarrow> bool \<times> string" where
  "bare s = (False, s)"

definition sampleRecord :: "(bool \<times> string) list" where
  "sampleRecord = [bare ''c1'', (True, ''Vendor''), bare ''123-45-6789'', bare ''2025-03-31'', bare ''600.00'',
     bare ''ach'', bare ''0'', bare '''']"

definition sampleStream :: "bool \<Rightarrow> gzip_stream" where
  "sampleStream broken = \<lparr>gz_content = exportText [map bare requiredHeader, sampleRecord], gz_broken = broken\<rparr>"

definition sampleFiles :: "bool \<Rightarrow> file_system" where
  "sampleFiles broken =
     \<lparr>fs_lstat = (\<lambda>p. if p = ''data'' then Some \<lparr>fi_name = ''data'', fi_kind = Folder\<rparr> else None),
      fs_readDir = (\<lambda>p. if p = ''data'' then Some [\<lparr>de_name = ''firm_acme_export.csv.gz'', de_kind = RegularFile,
          de_info = Some RegularFile\<rparr>] else None),
      fs_open = (\<lambda>p. if p = ''data/firm_acme_export.csv.gz'' then Some (Some (sampleStream broken)) else None)\<rparr>"

lemma sample_discover: "Discover (sampleFiles broken) ''data'' ''acme'' = Inr ''data/firm_acme_export.csv.gz''"
proof -
  have "trimSpace ''acme'' \<noteq> ''''" by code_simp
  moreover have "joinPath ''data'' ''firm_acme_export.csv.gz'' = ''data/firm_acme_export.csv.gz''" by code_simp
  ultimately show ?thesis by (simp add: Discover_def sampleFiles_def expectedName_def)
qed

lemma sample_carried: "carriedRecord (map bare requiredHeader)" "carriedRecord sampleRecord"
proof -
  have "list_all writableField (map bare requiredHeader)" "list_all writableField sampleRecord" by code_simp+
  then show "carriedRecord (map bare requiredHeader)" "carriedRecord sampleRecord"
    by (simp_all add: carriedRecord_def requiredHeader_def sampleRecord_def bare_def validUTF8_def
        MaxRecordBytes_def validString_ascii)
qed

lemma sample_numbered: "numberedRows [sampleRecord] = src_rows (sampleSource hash)"
  by (simp add: numberedRows_def sampleRecord_def paymentRow_def sampleSource_def bare_def)

theorem import_stores_export_witness:
  "\<exists>d' r. Import (sampleFiles False) (\<lambda>_. False) ''acme'' 2025 ''data'' emptyDb = (d', Inr r)
     \<and> map p_amount_cents (db_payments d') = [60000] \<and> ds_RowCount r = 1"
proof -
  let ?text = "exportText [map bare requiredHeader, sampleRecord]"
  have opened: "fs_open (sampleFiles False) ''data/firm_acme_export.csv.gz''
      = Some (Some \<lparr>gz_content = ?text, gz_broken = False\<rparr>)"
    by (simp add: sampleFiles_def sampleStream_def)
  have header: "map snd (map bare requiredHeader) = requiredHeader" by (simp add: bare_def comp_def)
  have records: "list_all carriedRecord [sampleRecord]" by (simp add: sample_carried)
  obtain source where source: "Open (sampleFiles False) ''data/firm_acme_export.csv.gz'' = Inr source"
    "rowsOf (\<lambda>_. False) source = \<lparr>src_rows = numberedRows [sampleRecord], src_error = None, src_hash = Inr (sha256 ?text)\<rparr>"
    by (rule Open_export [OF opened sample_carried(1) header records])
  have "rowsOf (\<lambda>_. False) source = sampleSource (sha256 ?text)"
    unfolding source(2) by (simp add: sample_numbered [of "sha256 ?text"]) (simp add: sampleSource_def)
  with sample_import [of "sha256 ?text"] obtain d' where
    imp: "Import (sampleFiles False) (\<lambda>_. False) ''acme'' 2025 ''data'' emptyDb
      = (d', Inr \<lparr>ds_DatasetID = 1, ds_ContentSHA256 = sha256 ?text, ds_RowCount = 1, ds_Existing = False\<rparr>)"
    by (auto simp: Import_def sample_discover source(1) sampleImport_def)
  have "amountCents ''600.00'' = 60000" by code_simp
  with import_stores_export [OF sample_discover opened sample_carried(1) header records imp] imp show ?thesis
    by (simp add: sample_numbered [of "[]"]) (simp add: sampleSource_def paymentRowOf_def emptyDb_def)
qed

theorem damaged_export_refused_witness:
  "\<exists>e. Import (sampleFiles True) (\<lambda>_. False) ''acme'' 2025 ''data'' emptyDb = (emptyDb, Inl e)"
  by (rule damaged_export_refused [OF sample_discover]) (simp add: sampleFiles_def sampleStream_def)

theorem pipeline_resumes_witness:
  "\<exists>d' r. DetermineAndPlan 0 ''acme'' 1 sampleDb = (d', Inr (r, \<lparr>ExistingBatchCount = 0, CreatedBatchCount = 1\<rparr>))
     \<and> (\<exists>r'. DetermineAndPlan 5 ''acme'' 1 d' = (d', Inr (r', \<lparr>ExistingBatchCount = 1, CreatedBatchCount = 0\<rparr>)))"
proof -
  obtain d' where d': "PlanBatches 0 samplePlan sampleDb = (d', Inr \<lparr>ExistingBatchCount = 0, CreatedBatchCount = 1\<rparr>)"
    using sample_plan_ok by blast
  have "beginFirm ''acme'' = Inr ()" by code_simp
  then obtain r where r: "Determine ''acme'' 1 sampleDb = (sampleDb, Inr r)" "dr_DeterminationID r = 1"
    by (auto simp: Determine_def DetermineDataset_def Let_def sampleDb_def RulesetNEC2025V1_def)
  with d' have run: "DetermineAndPlan 0 ''acme'' 1 sampleDb
      = (d', Inr (r, \<lparr>ExistingBatchCount = 0, CreatedBatchCount = 1\<rparr>))"
    by (simp add: DetermineAndPlan_def Plan_def samplePlan_def)
  with pipeline_resumes [OF sampleDb_ok run, of 5] show ?thesis by auto
qed

end
