(* ===== verification/Filed.thy ===== *)
theory Filed
  imports Ledger_Sample Service
begin

text \<open>
  What the status page's headline is worth: a client shown as fully filed has every filing of the
  database accepted at the IRS; but the headline looks at determined filings only, so a client whose
  payments were imported and not yet determined is shown as fully filed as well.
\<close>

text \<open>C2. Fully filed means filed: in every state the system reaches, however its workers crashed, repeated
  themselves or lost messages, each filing of a client the status shows as fully filed has exactly one
  result in a transmission of its firm the IRS has recorded, and that result is an acceptance under
  the IRS record ID the database holds.\<close>

theorem fully_filed_is_filed:
  assumes "sys_reachable config cl bo describe s" and "cl_token cl = ic_BearerToken config"
    and "ClientStatusOf now firmID clientID (sy_db s) = Inr st" and "cs_Headline st = HeadlineFullyFiled"
    and "f \<in> set (clientFilings firmID clientID (sy_db s))"
  shows "\<exists>u x r. findByUTID firmID u (sy_irs s) = Some x
      \<and> filter (\<lambda>q. rr_recordID q = filingKeyString (f_key f)) (sub_results x) = [r]
      \<and> rr_status r = ''Accepted'' \<and> f_irs_record_id f = Some (rr_irsRecordID r)"
proof -
  from headline_means [OF assms(3)] assms(4,5) have "f_state f = FAccepted" by blast
  moreover have "f \<in> set (db_filings (sy_db s))" "f_firm f = firmID"
    using assms(5) by (simp_all add: clientFilings_def)
  ultimately show ?thesis using ledger_verdict [OF assms(1,2), of f] by auto
qed

lemma fold_insertNew: "set (fold insertNew xs ys) = set xs \<union> set ys"
  by (induction xs arbitrary: ys) (auto simp: insertNew_def)

text \<open>C25. Imported is shown as fully filed: right after an import stores the payments of a client that has
  no filings or batches yet, before anything is determined, the client's headline is \<open>fully_filed\<close>
  with nothing required, although its payments are there.\<close>

theorem imported_shows_fully_filed:
  assumes "ImportDataset cmd (Some src) d = (d', Inr r)" and "\<not> ds_Existing r"
    and "row \<in> set (src_rows src)" and "pr_ClientID row = clientID" and "clientID \<noteq> ''''"
    and "clientFilings (imp_FirmID cmd) clientID d = []" and "clientBatches (imp_FirmID cmd) clientID d = []"
  shows "(\<exists>p \<in> set (db_payments d'). p_firm p = imp_FirmID cmd \<and> p_client p = clientID)
    \<and> (\<exists>st. ClientStatusOf now (imp_FirmID cmd) clientID d' = Inr st
        \<and> cs_Headline st = HeadlineFullyFiled \<and> Required (cs_Counts st) = 0)"
proof -
  from assms(1) obtain staged hash where imp: "importable src staged hash"
    and begun: "beginFirm (imp_FirmID cmd) = Inr ()"
    and "storeDataset (imp_FirmID cmd) 2025 hash staged d = Inr (d', ds_DatasetID r) \<or> ds_Existing r"
    by (rule ImportDataset_Inr) auto
  with assms(2) have stored: "storeDataset (imp_FirmID cmd) 2025 hash staged d = Inr (d', ds_DatasetID r)" by blast
  from imp have rows: "staged = src_rows src"
    by (auto simp: importable_def copyFrom_def split: option.splits if_splits)
  from stored obtain ds :: dataset_row where d': "d' = d\<lparr>db_firms := insertNew (imp_FirmID cmd) (db_firms d),
      db_datasets := db_datasets d @ [ds],
      db_clients := fold insertNew (map (\<lambda>r. (imp_FirmID cmd, pr_ClientID r)) staged) (db_clients d),
      db_payments := db_payments d @ map (paymentRowOf (ds_DatasetID r) (imp_FirmID cmd)) staged\<rparr>"
    by (rule storeDataset_Inr)
  have "(imp_FirmID cmd, clientID) \<in> set (db_clients d')"
    using assms(3,4) rows by (auto simp: d' fold_insertNew)
  moreover have "clientFilings (imp_FirmID cmd) clientID d' = []" "clientBatches (imp_FirmID cmd) clientID d' = []"
    using assms(6,7) by (simp_all add: d' clientFilings_def clientBatches_def)
  ultimately have "\<exists>st. ClientStatusOf now (imp_FirmID cmd) clientID d' = Inr st
        \<and> cs_Headline st = HeadlineFullyFiled \<and> Required (cs_Counts st) = 0"
    using begun assms(5) by (simp add: ClientStatusOf_def readClientStatus_def withHeadline_def scanFacts_def
        headline_def filingCounts_def countIn_def)
  moreover have "paymentRowOf (ds_DatasetID r) (imp_FirmID cmd) row \<in> set (db_payments d')"
    using assms(3) rows by (simp add: d')
  moreover have "p_firm (paymentRowOf (ds_DatasetID r) (imp_FirmID cmd) row) = imp_FirmID cmd"
    "p_client (paymentRowOf (ds_DatasetID r) (imp_FirmID cmd) row) = clientID"
    by (simp_all add: paymentRowOf_def assms(4))
  ultimately show ?thesis by blast
qed

section \<open>Witnesses\<close>

theorem fully_filed_is_filed_witness:
  "\<exists>(s :: sys) st u x. sys_reachable sampleConfig sampleCl sampleBackoff (\<lambda>e. ''bad'') s
     \<and> ClientStatusOf 0 ''acme'' ''c1'' (sy_db s) = Inr st \<and> cs_Headline st = HeadlineFullyFiled
     \<and> acceptedFiling \<in> set (clientFilings ''acme'' ''c1'' (sy_db s)) \<and> findByUTID ''acme'' u (sy_irs s) = Some x"
proof -
  let ?d = "runDb (acknowledgedRow 2000001 claimed2) acceptedFiling"
  obtain W P t where run: "runs_here {} {} (sampleDb, newStore sampleConfig) W P (?d, runIrs t)"
    using whole_run by blast
  let ?s = "\<lparr>sy_db = ?d, sy_irs = runIrs t, sy_work = W, sy_plans = P\<rparr>"
  have "unfiled sampleDb" using sampleDb_ok by (simp add: unfiled_def) (simp add: sampleDb_def sampleFiling_def)
  with run have reach: "sys_reachable sampleConfig sampleCl sampleBackoff (\<lambda>e. ''bad'') ?s"
    by (auto simp: sys_reachable_def sys_start_def runs_def)
  have token: "cl_token sampleCl = ic_BearerToken sampleConfig" by (simp add: sampleCl_def sampleConfig_def)
  have f: "acceptedFiling \<in> set (clientFilings ''acme'' ''c1'' (sy_db ?s))"
    by (simp add: clientFilings_def runDb_def acceptedFiling_def batchedFiling_def sampleFiling_def)
  obtain st where st: "ClientStatusOf 0 ''acme'' ''c1'' (sy_db ?s) = Inr st" "cs_Headline st = HeadlineFullyFiled"
    using acme_begin
    by (simp add: ClientStatusOf_def readClientStatus_def withHeadline_def scanFacts_def headline_def filingCounts_def
        clientFilings_def clientBatches_def countIn_def runDb_def acceptedFiling_def batchedFiling_def sampleFiling_def
        acknowledgedRow_def claimRow_def claimState_def eventRow_def run_defs sampleDb_def awaitingStates_def ackOverdue_def Let_def)
  from fully_filed_is_filed [OF reach token st f] obtain u x where "findByUTID ''acme'' u (sy_irs ?s) = Some x" by blast
  with reach st f show ?thesis by blast
qed

theorem imported_shows_fully_filed_witness:
  "\<exists>d' st. ImportDataset sampleImport (Some (sampleSource (replicate 32 CHR ''a''))) emptyDb
       = (d', Inr \<lparr>ds_DatasetID = 1, ds_ContentSHA256 = replicate 32 CHR ''a'', ds_RowCount = 1, ds_Existing = False\<rparr>)
     \<and> ClientStatusOf 0 ''acme'' ''c1'' d' = Inr st \<and> cs_Headline st = HeadlineFullyFiled"
proof -
  obtain d' where d': "ImportDataset sampleImport (Some (sampleSource (replicate 32 CHR ''a''))) emptyDb
    = (d', Inr \<lparr>ds_DatasetID = 1, ds_ContentSHA256 = replicate 32 CHR ''a'', ds_RowCount = 1, ds_Existing = False\<rparr>)"
    using sample_import [of "replicate 32 CHR ''a''"] by auto
  let ?row = "hd (src_rows (sampleSource (replicate 32 CHR ''a'')))"
  have row: "?row \<in> set (src_rows (sampleSource (replicate 32 CHR ''a'')))" "pr_ClientID ?row = ''c1''"
    by (simp_all add: sampleSource_def)
  have none: "clientFilings (imp_FirmID sampleImport) ''c1'' emptyDb = []"
    "clientBatches (imp_FirmID sampleImport) ''c1'' emptyDb = []"
    by (simp_all add: clientFilings_def clientBatches_def emptyDb_def)
  from imported_shows_fully_filed [OF d' _ row _ none, of 0] d' show ?thesis
    by (auto simp: sampleImport_def)
qed

end
