(* ===== verification/Web.thy ===== *)
theory Web
  imports Service Configuration
begin

text \<open>
  The web front end, \<open>service/internal/web/server.go\<close>: the controller that starts and stops
  the workers, as a step relation over the runs it has started, and the request handlers, as
  functions from the form or path values and the database to a reply. The HTML template
  is outside, a page is the data it is given; the routes are in \<open>Web_Routes\<close>.
\<close>

section \<open>The worker controller\<close>

text \<open>A run is a goroutine in \<open>runner.Run\<close>, known by a number; the map says whether its context is
  cancelled. \<open>cancel\<close> holds the number of the run it cancels.\<close>

record controller =
  ct_hasRunner :: bool
  ct_firms :: "string list"
  ct_cancel :: "nat option"
  ct_running :: bool
  ct_runs :: "nat \<rightharpoonup> bool"
  ct_next :: nat

definition NewWorkerController :: "bool \<Rightarrow> string list \<Rightarrow> controller" where
  "NewWorkerController hasRunner firms =
     \<lparr>ct_hasRunner = hasRunner, ct_firms = firms, ct_cancel = None, ct_running = False,
      ct_runs = Map.empty, ct_next = 0\<rparr>"

definition Start :: "controller \<Rightarrow> controller \<times> bool" where
  "Start c =
     (if ct_running c \<or> \<not> ct_hasRunner c \<or> ct_firms c = [] then (c, False)
      else (c\<lparr>ct_cancel := Some (ct_next c), ct_running := True,
              ct_runs := (ct_runs c)(ct_next c \<mapsto> False), ct_next := ct_next c + 1\<rparr>, True))"

definition Stop :: "controller \<Rightarrow> controller \<times> bool" where
  "Stop c =
     (if \<not> ct_running c then (c, False)
      else case ct_cancel c of
        None \<Rightarrow> (c, False)
      | Some n \<Rightarrow> (c\<lparr>ct_runs := (\<lambda>m. if m = n \<and> ct_runs c m \<noteq> None then Some True else ct_runs c m)\<rparr>, True))"

definition Running :: "controller \<Rightarrow> bool" where
  "Running c = ct_running c"

text \<open>The rest of the goroutine once \<open>Run\<close> has returned, for whatever reason.\<close>

definition runEnds :: "nat \<Rightarrow> controller \<Rightarrow> controller" where
  "runEnds n c = c\<lparr>ct_running := False, ct_cancel := None, ct_runs := (ct_runs c)(n := None)\<rparr>"

inductive controller_step :: "controller \<Rightarrow> controller \<Rightarrow> bool" where
  start: "controller_step c (fst (Start c))"
| stop: "controller_step c (fst (Stop c))"
| ends: "ct_runs c n \<noteq> None \<Longrightarrow> controller_step c (runEnds n c)"

inductive controller_reachable :: "bool \<Rightarrow> string list \<Rightarrow> controller \<Rightarrow> bool"
  for hasRunner :: bool and firms :: "string list" where
  init: "controller_reachable hasRunner firms (NewWorkerController hasRunner firms)"
| step: "controller_reachable hasRunner firms c \<Longrightarrow> controller_step c c' \<Longrightarrow> controller_reachable hasRunner firms c'"

text \<open>The live run, if any, is the one the controller remembers.\<close>

definition controller_inv :: "bool \<Rightarrow> string list \<Rightarrow> controller \<Rightarrow> bool" where
  "controller_inv hasRunner firms c \<longleftrightarrow>
     ct_hasRunner c = hasRunner \<and> ct_firms c = firms \<and> dom (ct_runs c) = set_option (ct_cancel c)
     \<and> (ct_running c \<longleftrightarrow> ct_cancel c \<noteq> None)"

lemma controller_invariant: "controller_reachable hasRunner firms c \<Longrightarrow> controller_inv hasRunner firms c"
proof (induction rule: controller_reachable.induct)
  case init
  then show ?case by (simp add: controller_inv_def NewWorkerController_def)
next
  case (step c c')
  from step.hyps(2) step.IH show ?case
  proof cases
    case start
    with step.IH show ?thesis by (auto simp: controller_inv_def Start_def)
  next
    case stop
    have "dom (\<lambda>m. if m = n \<and> ct_runs c m \<noteq> None then Some True else ct_runs c m) = dom (ct_runs c)" for n
      by (auto simp: dom_def)
    with stop step.IH show ?thesis
      by (auto simp: controller_inv_def Stop_def split: option.splits)
  next
    case (ends n)
    then have "n \<in> dom (ct_runs c)" by blast
    with ends step.IH show ?thesis
      by (cases "ct_cancel c") (auto simp: controller_inv_def runEnds_def)
  qed
qed

text \<open>C22. The workers run once at a time: whatever order starts, stops and ends of runs come in, at most
  one run is alive and the page's \<open>Running\<close> says whether one is; a start succeeds exactly when none is
  alive (given a runner and firms) and then one fresh run is; a stop succeeds exactly when one is alive
  and cancels that one.\<close>

theorem workers_run_once:
  assumes "controller_reachable hasRunner firms c"
  shows "(Running c \<longleftrightarrow> dom (ct_runs c) \<noteq> {})
    \<and> (\<forall>m \<in> dom (ct_runs c). dom (ct_runs c) = {m})
    \<and> (snd (Start c) \<longleftrightarrow> dom (ct_runs c) = {} \<and> hasRunner \<and> firms \<noteq> [])
    \<and> (snd (Start c) \<longrightarrow> ct_runs (fst (Start c)) = [ct_next c \<mapsto> False])
    \<and> (snd (Stop c) \<longleftrightarrow> dom (ct_runs c) \<noteq> {})
    \<and> ran (ct_runs (fst (Stop c))) \<subseteq> {True}"
proof -
  from controller_invariant [OF assms] have inv: "ct_hasRunner c = hasRunner" "ct_firms c = firms"
    "dom (ct_runs c) = set_option (ct_cancel c)" "ct_running c \<longleftrightarrow> ct_cancel c \<noteq> None"
    by (simp_all add: controller_inv_def)
  show ?thesis
  proof (cases "ct_cancel c")
    case None
    then have "ct_runs c = Map.empty" using inv(3) by simp
    with None inv show ?thesis by (auto simp: Running_def Start_def Stop_def)
  next
    case (Some n)
    with inv(3) obtain v where "ct_runs c n = Some v" "\<forall>m. m \<noteq> n \<longrightarrow> ct_runs c m = None"
      by (metis domIff insertE elem_set insertI1 option.set(2) empty_iff not_None_eq)
    with Some inv show ?thesis by (auto simp: Running_def Start_def Stop_def ran_def)
  qed
qed

theorem workers_run_once_witness:
  "\<exists>c. controller_reachable True [''acme''] c \<and> Running c \<and> \<not> snd (Start c) \<and> snd (Stop c)
     \<and> snd (Start (runEnds 0 c))"
proof -
  let ?c = "fst (Start (NewWorkerController True [''acme'']))"
  have r: "controller_reachable True [''acme''] ?c"
    by (rule controller_reachable.step [OF controller_reachable.init controller_step.start])
  have live: "ct_runs ?c = [0 \<mapsto> False]" by (simp add: Start_def NewWorkerController_def)
  then have e: "controller_reachable True [''acme''] (runEnds 0 ?c)"
    by (intro controller_reachable.step [OF r] controller_step.ends) simp
  from workers_run_once [OF r] workers_run_once [OF e] live r show ?thesis
    by (intro exI [of _ ?c]) (simp add: runEnds_def)
qed

section \<open>Query strings\<close>

text \<open>\<open>url.QueryEscape\<close>, and \<open>Query().Get\<close> on a raw query.\<close>

definition upperHex :: "nat \<Rightarrow> char" where
  "upperHex n = (if n < 10 then char_of (48 + n) else char_of (55 + n))"

definition unreserved :: "char \<Rightarrow> bool" where
  "unreserved c \<longleftrightarrow> is_digit c \<or> (65 \<le> byte_val c \<and> byte_val c \<le> 90) \<or> (97 \<le> byte_val c \<and> byte_val c \<le> 122)
     \<or> c \<in> {CHR ''-'', CHR ''_'', CHR ''.'', CHR ''~''}"

definition queryEscape :: "string \<Rightarrow> string" where
  "queryEscape s = concat (map (\<lambda>c. if unreserved c then [c] else if c = CHR '' '' then ''+''
     else [CHR ''%'', upperHex (byte_val c div 16), upperHex (byte_val c mod 16)]) s)"

definition unhex :: "char \<Rightarrow> nat option" where
  "unhex c = (if is_digit c then Some (byte_val c - 48)
     else if 65 \<le> byte_val c \<and> byte_val c \<le> 70 then Some (byte_val c - 55)
     else if 97 \<le> byte_val c \<and> byte_val c \<le> 102 then Some (byte_val c - 87) else None)"

fun queryUnescape :: "string \<Rightarrow> string option" where
  "queryUnescape [] = Some []"
| "queryUnescape (c # s) =
     (if c = CHR ''%'' then
        (case s of
           a # b # s' \<Rightarrow>
             (case (unhex a, unhex b) of
                (Some h, Some l) \<Rightarrow> map_option (Cons (char_of (16 * h + l))) (queryUnescape s')
              | _ \<Rightarrow> None)
         | _ \<Rightarrow> None)
      else map_option (Cons (if c = CHR ''+'' then CHR '' '' else c)) (queryUnescape s))"

text \<open>The pairs of a query: parts with a semicolon or a bad escape are dropped.\<close>

function queryPairs :: "string \<Rightarrow> (string \<times> string) list" where
  "queryPairs query =
     (if query = [] then []
      else
        (let part = takeWhile (\<lambda>c. c \<noteq> CHR ''&'') query; rest = tl (dropWhile (\<lambda>c. c \<noteq> CHR ''&'') query);
             key = takeWhile (\<lambda>c. c \<noteq> CHR ''='') part; value = tl (dropWhile (\<lambda>c. c \<noteq> CHR ''='') part)
         in (if part = [] \<or> CHR '';'' \<in> set part then []
             else case (queryUnescape key, queryUnescape value) of (Some k, Some v) \<Rightarrow> [(k, v)] | _ \<Rightarrow> [])
            @ queryPairs rest))"
  by pat_completeness auto

termination queryPairs
proof (relation "measure length"; simp)
  fix query :: string
  assume "query \<noteq> []"
  then show "length (dropWhile (\<lambda>c. c \<noteq> CHR ''&'') query) - Suc 0 < length query"
    using length_dropWhile_le [of "\<lambda>c. c \<noteq> CHR ''&''" query] by (cases query) auto
qed

declare queryPairs.simps [simp del]

definition queryGet :: "string \<Rightarrow> string \<Rightarrow> string" where
  "queryGet name query = (case map_of (queryPairs query) name of Some v \<Rightarrow> v | None \<Rightarrow> '''')"

lemma unhex_upperHex [simp]: "n < 16 \<Longrightarrow> unhex (upperHex n) = Some n"
  by (auto simp: unhex_def upperHex_def is_digit_def)

lemma upperHex_plain: "n < 16 \<Longrightarrow> upperHex n \<notin> {CHR ''&'', CHR '';'', CHR ''=''}"
proof -
  assume "n < 16"
  then have "unhex (upperHex n) \<noteq> None" by simp
  moreover have "unhex (CHR ''&'') = None" "unhex (CHR '';'') = None" "unhex (CHR ''='') = None" by code_simp+
  ultimately show ?thesis by auto
qed

lemma queryEscape_Cons:
  "queryEscape (c # s) = (if unreserved c then [c] else if c = CHR '' '' then ''+''
     else [CHR ''%'', upperHex (byte_val c div 16), upperHex (byte_val c mod 16)]) @ queryEscape s"
  by (simp add: queryEscape_def)

lemma queryUnescape_escape: "queryUnescape (queryEscape s) = Some s"
proof (induction s)
  case Nil
  show ?case by (simp add: queryEscape_def)
next
  case (Cons c s)
  have plain: "\<not> unreserved (CHR ''%'')" "\<not> unreserved (CHR ''+'')" by code_simp+
  have "queryUnescape (CHR ''%'' # upperHex h # upperHex l # t) = map_option (Cons (char_of (16 * h + l))) (queryUnescape t)"
    if "h < 16" and "l < 16" for h l t
    using that by simp
  note hex = this [of "byte_val c div 16" "byte_val c mod 16" "queryEscape s"]
  have whole: "char_of (16 * (byte_val c div 16) + byte_val c mod 16) = c" by simp
  consider "unreserved c" | "\<not> unreserved c" "c = CHR '' ''" | "\<not> unreserved c" "c \<noteq> CHR '' ''" by blast
  then show ?case
  proof cases
    case 1
    with plain Cons.IH show ?thesis by (auto simp: queryEscape_Cons)
  next
    case 2
    with Cons.IH show ?thesis by (simp add: queryEscape_Cons)
  next
    case 3
    then have "queryEscape (c # s) = CHR ''%'' # upperHex (byte_val c div 16) # upperHex (byte_val c mod 16) # queryEscape s"
      by (simp only: queryEscape_Cons if_False append.simps)
    with hex whole Cons.IH show ?thesis by (simp only: byte_div_bound) simp
  qed
qed

lemma queryEscape_plain: "c \<in> set (queryEscape s) \<Longrightarrow> c \<notin> {CHR ''&'', CHR '';'', CHR ''=''}"
proof (induction s)
  case (Cons d s)
  have "\<not> unreserved (CHR ''&'')" "\<not> unreserved (CHR '';'')" "\<not> unreserved (CHR ''='')" by code_simp+
  with Cons upperHex_plain [of "byte_val d div 16"] upperHex_plain [of "byte_val d mod 16"] show ?case
    by (auto simp: queryEscape_Cons split: if_splits)
qed (simp add: queryEscape_def)

lemma queryGet_escaped: "queryGet ''message'' (''message='' @ queryEscape m) = m"
proof -
  let ?v = "queryEscape m"
  have amp: "CHR ''&'' \<notin> set (''message='' @ ?v)" and semi: "CHR '';'' \<notin> set (''message='' @ ?v)"
    using queryEscape_plain by auto
  have part: "takeWhile (\<lambda>c. c \<noteq> CHR ''&'') (''message='' @ ?v) = ''message='' @ ?v"
    "dropWhile (\<lambda>c. c \<noteq> CHR ''&'') (''message='' @ ?v) = []"
    using amp by (auto simp: takeWhile_eq_all_conv)
  have key: "takeWhile (\<lambda>c. c \<noteq> CHR ''='') (''message='' @ ?v) = ''message''"
    "tl (dropWhile (\<lambda>c. c \<noteq> CHR ''='') (''message='' @ ?v)) = ?v" by simp_all
  have "queryUnescape ''message'' = Some ''message''" by code_simp
  then have "queryPairs (''message='' @ ?v) = [(''message'', m)]"
    by (subst queryPairs.simps, unfold part key Let_def)
      (use semi in \<open>simp add: queryUnescape_escape queryPairs.simps [of "[]"]\<close>)
  then show ?thesis by (simp add: queryGet_def)
qed

section \<open>Replies\<close>

record pageData =
  pg_Title :: string
  pg_Message :: string
  pg_Error :: string
  pg_WorkerRuns :: bool
  pg_Firms :: "FirmStatus list"
  pg_Client :: "ClientStatus option"
  pg_Exceptions :: "ExceptionGroup list"

datatype web_reply = PlainText string | Page pageData | SeeOther string | HttpError int string

record web_server =
  ws_firms :: "string list"
  ws_workers :: "controller option"

definition NewWeb :: "bool \<Rightarrow> string list \<Rightarrow> controller option \<Rightarrow> web_server result" where
  "NewWeb hasApplication firms workers =
     (if \<not> hasApplication \<or> firms = [] then Inl (ErrMsg ''web server requires application and firms'')
      else Inr \<lparr>ws_firms = firms, ws_workers = workers\<rparr>)"

definition health :: web_reply where
  "health = PlainText (''ok'' @ [char_of (10::nat)])"

definition redirect :: "string \<Rightarrow> web_reply" where
  "redirect message = SeeOther (''/?message='' @ queryEscape message)"

section \<open>Pages\<close>

text \<open>The loop over the firms of the home page: the statuses, and whether loading broke off.\<close>

fun loadFirms :: "(string \<Rightarrow> FirmStatus result) \<Rightarrow> string list \<Rightarrow> FirmStatus list \<times> bool" where
  "loadFirms query [] = ([], False)"
| "loadFirms query (firmID # firms) =
     (case query firmID of
        Inl e \<Rightarrow> if e = ErrNotFound then loadFirms query firms else ([], True)
      | Inr s \<Rightarrow> (case loadFirms query firms of (ss, bad) \<Rightarrow> (s # ss, bad)))"

definition home :: "int \<Rightarrow> web_server \<Rightarrow> string \<Rightarrow> db \<Rightarrow> web_reply" where
  "home now server query d =
     (case loadFirms (\<lambda>firmID. serviceFirmStatus now firmID d) (ws_firms server) of
        (firms, bad) \<Rightarrow>
          Page \<lparr>pg_Title = ''Filing operations'', pg_Message = queryGet ''message'' query,
                pg_Error = (if bad then ''Unable to load committed filing status.'' else ''''),
                pg_WorkerRuns = (case ws_workers server of Some c \<Rightarrow> Running c | None \<Rightarrow> False),
                pg_Firms = firms, pg_Client = None, pg_Exceptions = []\<rparr>)"

definition clientPage :: "int \<Rightarrow> string \<Rightarrow> string \<Rightarrow> db \<Rightarrow> web_reply" where
  "clientPage now firmID clientID d =
     (case serviceClientStatus now firmID clientID d of
        Inl e \<Rightarrow> HttpError 404 ''client status unavailable''
      | Inr known \<Rightarrow>
          (case serviceExceptions now firmID clientID d of
             Inl e \<Rightarrow> HttpError 500 ''exceptions unavailable''
           | Inr exceptions \<Rightarrow>
               Page \<lparr>pg_Title = firmID @ '' / '' @ clientID, pg_Message = '''', pg_Error = '''', pg_WorkerRuns = False,
                     pg_Firms = [], pg_Client = Some known, pg_Exceptions = exceptions\<rparr>))"

section \<open>Actions\<close>

text \<open>The form is \<open>None\<close> when it cannot be parsed; a missing value is empty.\<close>

type_synonym form = "(string \<Rightarrow> string) option"

definition importAction :: "file_system \<Rightarrow> (int \<Rightarrow> bool) \<Rightarrow> form \<Rightarrow> db \<Rightarrow> db \<times> web_reply" where
  "importAction fs halted form d =
     (case form of
        None \<Rightarrow> (d, HttpError 400 ''invalid form'')
      | Some value \<Rightarrow>
          (case parseInt64 (value ''tax_year'') of
             None \<Rightarrow> (d, HttpError 400 ''invalid tax year'')
           | Some taxYear \<Rightarrow>
               (case Import fs halted (value ''firm_id'') taxYear (value ''input'') d of
                  (d', Inl e) \<Rightarrow> (d', HttpError 422 ''import failed'')
                | (d', Inr result) \<Rightarrow>
                    (d', redirect (''dataset '' @ dec_of_int (ds_DatasetID result) @ '' imported (''
                                   @ dec_of_int (ds_RowCount result) @ '' rows)'')))))"

definition determineAction :: "int \<Rightarrow> form \<Rightarrow> db \<Rightarrow> db \<times> web_reply" where
  "determineAction now form d =
     (case form of
        None \<Rightarrow> (d, HttpError 400 ''invalid form'')
      | Some value \<Rightarrow>
          (case parseInt64 (value ''dataset_id'') of
             None \<Rightarrow> (d, HttpError 400 ''invalid dataset'')
           | Some datasetID \<Rightarrow>
               if datasetID \<le> 0 then (d, HttpError 400 ''invalid dataset'')
               else (case DetermineAndPlan now (value ''firm_id'') datasetID d of
                  (d', Inl e) \<Rightarrow> (d', HttpError 422 ''determination failed'')
                | (d', Inr (determination, plan)) \<Rightarrow>
                    (d', redirect (''determination '' @ dec_of_int (dr_DeterminationID determination) @ '' ready; ''
                                   @ dec_of_int (CreatedBatchCount plan) @ '' batches created'')))))"

definition startWorkers :: "web_server \<Rightarrow> web_server \<times> web_reply" where
  "startWorkers server =
     (case ws_workers server of
        None \<Rightarrow> (server, redirect ''workers already running'')
      | Some c \<Rightarrow>
          (case Start c of (c', started) \<Rightarrow>
             (server\<lparr>ws_workers := Some c'\<rparr>, redirect (if started then ''workers started'' else ''workers already running''))))"

definition stopWorkers :: "web_server \<Rightarrow> web_server \<times> web_reply" where
  "stopWorkers server =
     (case ws_workers server of
        None \<Rightarrow> (server, redirect ''workers already stopped'')
      | Some c \<Rightarrow>
          (case Stop c of (c', stopped) \<Rightarrow>
             (server\<lparr>ws_workers := Some c'\<rparr>, redirect (if stopped then ''workers stopping'' else ''workers already stopped''))))"

section \<open>What the pages and actions promise\<close>

lemma loadFirms_all:
  "loadFirms query firms = (ss, False) \<Longrightarrow> map Inr ss = filter (\<lambda>r. r \<noteq> Inl ErrNotFound) (map query firms)"
  by (induction firms arbitrary: ss) (auto split: sum.splits if_splits prod.splits)

text \<open>The home page tells the truth: what an action left to be shown after its redirect is shown as it
  was, and without an error on the page the firms are exactly those of the server that the store knows,
  in order, each with the status the store gives now.\<close>

theorem home_shows_status:
  assumes "redirect m = SeeOther (''/?'' @ query)" and "home now server query d = Page p"
  shows "pg_Message p = m
    \<and> (pg_Error p = '''' \<longrightarrow>
        map Inr (pg_Firms p) = filter (\<lambda>r. r \<noteq> Inl ErrNotFound) (map (\<lambda>f. FirmStatusOf now f d) (ws_firms server)))"
proof -
  from assms(1) have "query = ''message='' @ queryEscape m" by (simp add: redirect_def)
  then have "queryGet ''message'' query = m" by (simp only: queryGet_escaped)
  moreover obtain ss bad where "loadFirms (\<lambda>firmID. serviceFirmStatus now firmID d) (ws_firms server) = (ss, bad)"
    by (cases "loadFirms (\<lambda>firmID. serviceFirmStatus now firmID d) (ws_firms server)")
  ultimately show ?thesis
    using assms(2) loadFirms_all by (auto simp: home_def serviceFirmStatus_def split: if_splits)
qed

lemma Import_failed: "Import fs halted firmID taxYear path d = (d', Inl e) \<Longrightarrow> d' = d"
  by (auto simp: Import_def dest: ImportDataset_Inl split: sum.splits)

lemma DetermineAndPlan_failed:
  "DetermineAndPlan now firmID datasetID d = (d', Inl e) \<Longrightarrow> d' = fst (Determine firmID datasetID d)"
  by (auto simp: DetermineAndPlan_def Plan_def dest: PlanBatches_Inl split: prod.splits sum.splits)

text \<open>A refused action is as if it had not been asked, but for a determination: a failed import changes
  nothing, and a failed determine-and-plan leaves the database as it was or just determined, so that the
  same action can be repeated; with a bad form or number nothing is done at all.\<close>

theorem refused_action_effects:
  assumes "importAction fs halted form d = (d1, HttpError s1 m1)"
    and "determineAction now form' d = (d2, HttpError s2 m2)"
  shows "d1 = d \<and> s1 \<in> {400, 422}
    \<and> (s2 = 400 \<and> d2 = d
       \<or> s2 = 422 \<and> (\<exists>value. form' = Some value
           \<and> (\<exists>i. parseInt64 (value ''dataset_id'') = Some i \<and> d2 = fst (Determine (value ''firm_id'') i d))))"
proof -
  from assms(1) have "d1 = d \<and> s1 \<in> {400, 422}"
    by (auto simp: importAction_def redirect_def dest: Import_failed split: option.splits prod.splits sum.splits)
  moreover from assms(2) have "s2 = 400 \<and> d2 = d
       \<or> s2 = 422 \<and> (\<exists>value. form' = Some value
           \<and> (\<exists>i. parseInt64 (value ''dataset_id'') = Some i \<and> d2 = fst (Determine (value ''firm_id'') i d)))"
    by (auto simp: determineAction_def redirect_def dest: DetermineAndPlan_failed
        split: option.splits prod.splits sum.splits if_splits)
  ultimately show ?thesis by blast
qed

theorem home_shows_status_witness:
  "\<exists>p. home 0 \<lparr>ws_firms = [], ws_workers = None\<rparr> (''message='' @ queryEscape ''50% & more'') emptyDb = Page p
     \<and> pg_Message p = ''50% & more''"
proof -
  obtain p where p: "home 0 \<lparr>ws_firms = [], ws_workers = None\<rparr> (''message='' @ queryEscape ''50% & more'') emptyDb = Page p"
    by (simp add: home_def)
  have "redirect ''50% & more'' = SeeOther (''/?'' @ ''message='' @ queryEscape ''50% & more'')"
    by (simp add: redirect_def)
  from home_shows_status [OF this p] p show ?thesis by blast
qed

theorem refused_action_effects_witness:
  "\<exists>d1 d2. importAction (sampleFiles True) (\<lambda>_. False) None emptyDb = (d1, HttpError 400 ''invalid form'')
     \<and> determineAction 0 (Some (\<lambda>_. ''7'')) emptyDb = (d2, HttpError 422 ''determination failed'')
     \<and> d1 = emptyDb \<and> d2 = fst (Determine ''7'' 7 emptyDb)"
proof -
  have i: "importAction (sampleFiles True) (\<lambda>_. False) None emptyDb = (emptyDb, HttpError 400 ''invalid form'')"
    by (simp add: importAction_def)
  have seven: "parseInt64 ''7'' = Some 7" by code_simp
  have "beginFirm ''7'' = Inr ()" by code_simp
  then have "Determine ''7'' 7 emptyDb = (emptyDb, Inl ErrNotFound)"
    by (simp add: Determine_def DetermineDataset_def Let_def emptyDb_def)
  with seven have d: "determineAction 0 (Some (\<lambda>_. ''7'')) emptyDb = (emptyDb, HttpError 422 ''determination failed'')"
    by (simp add: determineAction_def DetermineAndPlan_def)
  from refused_action_effects [OF i d] seven i d show ?thesis by auto
qed

end
