(* ===== verification/Commands.thy ===== *)
theory Commands
  imports Web
begin

text \<open>
  The command line, \<open>service/cmd/readiness/main.go\<close>, and opening the store
  (\<open>postgres/internal/store/store.go\<close>). An invocation is what the \<open>flag\<close> package makes of the
  arguments: the command with its flag values, defaults filled in. Printing the result as
  JSON and signals are outside; what a command starts is its output.
\<close>

section \<open>Opening the store\<close>

text \<open>Whether the URL parses, a pool can be made and the database answers, and the migrations recorded in
  \<open>schema_migrations\<close> (\<open>None\<close> when they cannot be read).\<close>

record database =
  dbs_urlOK :: bool
  dbs_poolOK :: bool
  dbs_pingOK :: bool
  dbs_versions :: "int list option"

definition openStore :: "database \<Rightarrow> unit result" where
  "openStore database =
     (if \<not> dbs_urlOK database then Inl (ErrMsg ''invalid database configuration'')
      else if \<not> dbs_poolOK database then Inl (ErrMsg ''open database'')
      else if \<not> dbs_pingOK database then Inl (ErrMsg ''connect database'')
      else case dbs_versions database of
        None \<Rightarrow> Inl ErrSchemaVersion
      | Some versions \<Rightarrow> checkSchemaVersion versions)"

section \<open>The list of firms\<close>

text \<open>\<open>firmList.Set\<close>, called for each \<open>--firm\<close>; the first error ends parsing.\<close>

definition firmListSet :: "string \<Rightarrow> string list \<Rightarrow> string list result" where
  "firmListSet raw firms =
     (let value = trimSpace raw in
      if value = '''' then Inl (ErrMsg ''firm must not be blank'')
      else if value \<in> set firms then Inl (ErrMsg (''duplicate firm '' @ value))
      else Inr (firms @ [value]))"

fun parseFirms :: "string list \<Rightarrow> string list \<Rightarrow> string list result" where
  "parseFirms [] firms = Inr firms"
| "parseFirms (raw # raws) firms =
     (case firmListSet raw firms of Inl e \<Rightarrow> Inl e | Inr firms' \<Rightarrow> parseFirms raws firms')"

section \<open>Commands\<close>

datatype invocation =
    NoArguments
  | BadFlags
  | ImportCommand string int string
  | DetermineCommand string int
  | PlanCommand string int
  | WorkerCommand "string list"
  | ServeCommand "string list"
  | UnknownCommand string

datatype command_output =
    PrintDataset DatasetResult
  | PrintDetermination DeterminationResult
  | PrintPlan BatchPlanResult
  | RunWorkers client worker "string list"
  | Serve client worker web_server

record process =
  pr_pid :: int
  pr_now :: int
  pr_halted :: "int \<Rightarrow> bool"
  pr_files :: file_system

definition outputOf :: "('a \<Rightarrow> command_output) \<Rightarrow> db \<times> 'a result \<Rightarrow> db \<times> command_output result" where
  "outputOf f r = (fst r, map_sum id f (snd r))"

definition workersFor :: "process \<Rightarrow> service_config \<Rightarrow> string list \<Rightarrow> (client \<times> worker \<times> string list) result" where
  "workersFor proc loaded raws =
     (case parseFirms raws [] of
        Inl e \<Rightarrow> Inl e
      | Inr firms \<Rightarrow>
          if firms = [] then Inl (ErrMsg ''requires at least one --firm'')
          else (case makeWorker (pr_pid proc) loaded of
                  Inl e \<Rightarrow> Inl e
                | Inr (cl, wk) \<Rightarrow> Inr (cl, wk, firms)))"

definition runCommand ::
  "process \<Rightarrow> service_config result \<Rightarrow> database \<Rightarrow> invocation \<Rightarrow> db \<Rightarrow> db \<times> command_output result" where
  "runCommand proc config database invocation d =
     (if invocation = NoArguments then (d, Inl (ErrMsg ''usage: readiness <import|determine|plan|worker|serve>''))
      else case config of
        Inl e \<Rightarrow> (d, Inl e)
      | Inr loaded \<Rightarrow>
          (case openStore database of
             Inl e \<Rightarrow> (d, Inl e)
           | Inr _ \<Rightarrow>
               (case invocation of
                  ImportCommand firmID taxYear input \<Rightarrow>
                    if firmID = '''' \<or> input = '''' \<or> taxYear \<noteq> 2025
                    then (d, Inl (ErrMsg ''import requires --firm, --tax-year 2025, and --input''))
                    else outputOf PrintDataset (Import (pr_files proc) (pr_halted proc) firmID taxYear input d)
                | DetermineCommand firmID datasetID \<Rightarrow>
                    if firmID = '''' \<or> datasetID \<le> 0
                    then (d, Inl (ErrMsg ''determine requires --firm and --dataset''))
                    else outputOf PrintDetermination (Determine firmID datasetID d)
                | PlanCommand firmID determinationID \<Rightarrow>
                    if firmID = '''' \<or> determinationID \<le> 0
                    then (d, Inl (ErrMsg ''plan requires --firm and --determination''))
                    else outputOf PrintPlan (Plan (pr_now proc) firmID determinationID d)
                | WorkerCommand raws \<Rightarrow>
                    (case workersFor proc loaded raws of
                       Inl e \<Rightarrow> (d, Inl e)
                     | Inr (cl, wk, firms) \<Rightarrow> (d, Inr (RunWorkers cl wk firms)))
                | ServeCommand raws \<Rightarrow>
                    (case workersFor proc loaded raws of
                       Inl e \<Rightarrow> (d, Inl e)
                     | Inr (cl, wk, firms) \<Rightarrow>
                         (case NewWeb True firms (Some (NewWorkerController True firms)) of
                            Inl e \<Rightarrow> (d, Inl e)
                          | Inr server \<Rightarrow> (d, Inr (Serve cl wk server))))
                | UnknownCommand name \<Rightarrow> (d, Inl (ErrMsg (''unknown command '' @ name)))
                | _ \<Rightarrow> (d, Inl (ErrMsg ''flags'')))))"

section \<open>What the commands promise\<close>

lemma parseFirms_ok:
  assumes "parseFirms raws firms = Inr firms'" and "distinct firms" and "[] \<notin> set firms"
  shows "firms' = firms @ map trimSpace raws \<and> distinct firms' \<and> [] \<notin> set firms'"
  using assms
proof (induction raws arbitrary: firms)
  case (Cons raw raws)
  let ?v = "trimSpace raw"
  from Cons.prems have fresh: "?v \<noteq> []" "?v \<notin> set firms" and rest: "parseFirms raws (firms @ [?v]) = Inr firms'"
    by (auto simp: firmListSet_def Let_def split: if_splits)
  from fresh Cons.prems(2,3) have "distinct (firms @ [?v])" "[] \<notin> set (firms @ [?v])" by auto
  from Cons.IH [OF rest this] show ?case by (metis append.assoc append_Cons append_Nil list.map(2))
qed simp

lemma workersFor_ok:
  assumes "workersFor proc loaded raws = Inr (cl, wk, firms)"
  shows "makeWorker (pr_pid proc) loaded = Inr (cl, wk) \<and> firms = map trimSpace raws \<and> firms \<noteq> []
    \<and> distinct firms \<and> [] \<notin> set firms"
proof -
  from assms have "parseFirms raws [] = Inr firms" "firms \<noteq> []" "makeWorker (pr_pid proc) loaded = Inr (cl, wk)"
    by (auto simp: workersFor_def split: sum.splits if_splits)
  with parseFirms_ok [of raws "[]" firms] show ?thesis by (metis append_Nil distinct.simps(1) empty_iff list.set(1))
qed

text \<open>What the command line starts: a worker or server runs only on a store of the schema version the
  program needs, for one or more distinct firms, the trimmed names given, with the worker of the loaded
  configuration, and changes no data by starting; the server's controller has these firms and no run.\<close>

theorem started_workers:
  assumes "runCommand proc config database invocation d = (d', Inr out)"
    and "invocation \<in> {WorkerCommand raws, ServeCommand raws}"
  shows "d' = d \<and> (let firms = map trimSpace raws in
      firms \<noteq> [] \<and> distinct firms \<and> [] \<notin> set firms
      \<and> (\<exists>versions. dbs_versions database = Some versions \<and> foldr max versions 0 = RequiredSchemaVersion)
      \<and> (\<exists>loaded cl wk. config = Inr loaded \<and> makeWorker (pr_pid proc) loaded = Inr (cl, wk)
          \<and> out = (if invocation = WorkerCommand raws then RunWorkers cl wk firms
                   else Serve cl wk \<lparr>ws_firms = firms, ws_workers = Some (NewWorkerController True firms)\<rparr>)))"
proof -
  from assms(1) obtain loaded where config: "config = Inr loaded" and opened: "openStore database = Inr ()"
    by (auto simp: runCommand_def split: if_splits sum.splits)
  from opened obtain versions where versions: "dbs_versions database = Some versions"
    "foldr max versions 0 = RequiredSchemaVersion"
    by (auto simp: openStore_def checkSchemaVersion_def split: if_splits option.splits)
  from assms config opened obtain cl wk firms where made: "workersFor proc loaded raws = Inr (cl, wk, firms)"
    by (auto simp: runCommand_def split: sum.splits)
  with assms config opened have "d' = d \<and> out = (if invocation = WorkerCommand raws then RunWorkers cl wk firms
      else Serve cl wk \<lparr>ws_firms = firms, ws_workers = Some (NewWorkerController True firms)\<rparr>)"
    by (auto simp: runCommand_def NewWeb_def split: if_splits sum.splits)
  moreover from workersFor_ok [OF made] have firms: "map trimSpace raws = firms" by blast
  ultimately show ?thesis
    unfolding Let_def firms using config versions workersFor_ok [OF made] by blast
qed

theorem started_workers_witness:
  "\<exists>cl wk. runCommand \<lparr>pr_pid = 7, pr_now = 0, pr_halted = (\<lambda>_. False), pr_files = sampleFiles False\<rparr>
       (Load (\<lambda>_. None) durationNames Map.empty)
       \<lparr>dbs_urlOK = True, dbs_poolOK = True, dbs_pingOK = True, dbs_versions = Some [1]\<rparr>
       (WorkerCommand ['' acme '', ''F002'']) emptyDb = (emptyDb, Inr (RunWorkers cl wk [''acme'', ''F002'']))"
proof -
  let ?proc = "\<lparr>pr_pid = 7, pr_now = 0, pr_halted = (\<lambda>_. False), pr_files = sampleFiles False\<rparr>"
  let ?database = "\<lparr>dbs_urlOK = True, dbs_poolOK = True, dbs_pingOK = True, dbs_versions = Some [1]\<rparr>"
  have load: "Load (\<lambda>_. None) durationNames Map.empty = Inr (defaultConfig Map.empty)"
    by (simp add: Load_def durationNames_def loadMaxAttempts_def defaultConfig_def envValue_def
        defaultDatabaseURL_def leaseFloor_def wrap64_def second_def)
  have "trimSpace ''http://127.0.0.1:8081'' \<noteq> []" by code_simp
  then obtain cl wk where made: "makeWorker 7 (defaultConfig Map.empty) = Inr (cl, wk)"
    by (auto simp: makeWorker_def NewClient_def NewWorker_def defaultConfig_def envValue_def second_def)
  have trim: "trimSpace '' acme '' = ''acme''" "trimSpace ''F002'' = ''F002''" by code_simp+
  have run: "runCommand ?proc (Inr (defaultConfig Map.empty)) ?database (WorkerCommand ['' acme '', ''F002'']) emptyDb
      = (emptyDb, Inr (RunWorkers cl wk [''acme'', ''F002'']))"
    using made trim by (simp add: runCommand_def openStore_def checkSchemaVersion_def RequiredSchemaVersion_def
        workersFor_def firmListSet_def)
  from started_workers [OF run, of "['' acme '', ''F002'']"] run load show ?thesis by auto
qed

end
