(* ===== verification/Web_Routes.thy ===== *)
theory Web_Routes
  imports Commands
begin

text \<open>
  The web server as a whole: which handler of \<open>service/internal/web/server.go\<close> answers a request, and
  the exit status of \<open>cmd/readiness/main.go\<close>. A path is the list of its decoded segments, the last one
  empty when it ends in a slash; the mux has cleaned it. A GET pattern also takes HEAD.
\<close>

section \<open>The mux\<close>

text \<open>What a request finds: the files, the watch that interrupts an import, the clock, the database.\<close>

record web_request =
  wr_method :: string
  wr_path :: "string list"
  wr_query :: string
  wr_form :: form

datatype route =
    Health | Home | ClientRoute string string | ImportRoute | DetermineRoute | StartRoute | StopRoute | NotAllowed

definition getLike :: "string \<Rightarrow> bool" where
  "getLike method \<longleftrightarrow> method = ''GET'' \<or> method = ''HEAD''"

text \<open>The most specific pattern wins; \<open>GET /\<close> matches every path, so a method no pattern of the path
  allows is refused with 405 and nothing is unknown.\<close>

definition routeOf :: "string \<Rightarrow> string list \<Rightarrow> route" where
  "routeOf method path =
     (if getLike method then
        (case path of
           [a] \<Rightarrow> if a = ''healthz'' then Health else Home
         | [a, firm, b, client] \<Rightarrow>
             if a = ''firms'' \<and> b = ''clients'' \<and> firm \<noteq> '''' \<and> client \<noteq> '''' then ClientRoute firm client else Home
         | _ \<Rightarrow> Home)
      else if method = ''POST'' then
        (if path = [''actions'', ''import''] then ImportRoute
         else if path = [''actions'', ''determine''] then DetermineRoute
         else if path = [''actions'', ''workers'', ''start''] then StartRoute
         else if path = [''actions'', ''workers'', ''stop''] then StopRoute
         else NotAllowed)
      else NotAllowed)"

definition serveWeb ::
  "file_system \<Rightarrow> (int \<Rightarrow> bool) \<Rightarrow> int \<Rightarrow> web_request \<Rightarrow> web_server \<times> db \<Rightarrow> (web_server \<times> db) \<times> web_reply" where
  "serveWeb fs halted now request state =
     (case state of (server, d) \<Rightarrow>
        (case routeOf (wr_method request) (wr_path request) of
           Health \<Rightarrow> (state, health)
         | Home \<Rightarrow> (state, home now server (wr_query request) d)
         | ClientRoute firm client \<Rightarrow> (state, clientPage now firm client d)
         | ImportRoute \<Rightarrow> (case importAction fs halted (wr_form request) d of (d', reply) \<Rightarrow> ((server, d'), reply))
         | DetermineRoute \<Rightarrow> (case determineAction now (wr_form request) d of (d', reply) \<Rightarrow> ((server, d'), reply))
         | StartRoute \<Rightarrow> (case startWorkers server of (server', reply) \<Rightarrow> ((server', d), reply))
         | StopRoute \<Rightarrow> (case stopWorkers server of (server', reply) \<Rightarrow> ((server', d), reply))
         | NotAllowed \<Rightarrow> (state, HttpError 405 ''Method Not Allowed'')))"

section \<open>The process\<close>

text \<open>How \<open>ListenAndServe\<close> of \<open>service/internal/web/http.go\<close> comes to its end: the listener returned
  (with \<open>ErrServerClosed\<close> or another error), or the context ended and the shutdown had an error or not.
  The result says whether the server was closed by force and what is returned.\<close>

datatype listen_end = ListenerReturned bool string | ContextDone "string option"

definition ListenAndServe :: "listen_end \<Rightarrow> bool \<times> unit result" where
  "ListenAndServe reached =
     (case reached of
        ListenerReturned serverClosed message \<Rightarrow> (False, if serverClosed then Inr () else Inl (ErrMsg message))
      | ContextDone None \<Rightarrow> (False, Inr ())
      | ContextDone (Some message) \<Rightarrow> (True, Inl (ErrMsg message)))"

text \<open>The end of the \<open>serve\<close> command: the workers are told to stop, and the listener's answer is the
  command's.\<close>

definition serveEnds :: "listen_end \<Rightarrow> web_server \<Rightarrow> web_server \<times> unit result" where
  "serveEnds reached server =
     (server\<lparr>ws_workers := map_option (\<lambda>c. fst (Stop c)) (ws_workers server)\<rparr>, snd (ListenAndServe reached))"

definition exitStatus :: "'a result \<Rightarrow> int" where
  "exitStatus outcome = (case outcome of Inl e \<Rightarrow> 1 | Inr _ \<Rightarrow> 0)"

section \<open>What it promises\<close>

text \<open>A request that only looks changes nothing, and every change is a redirect back to the home page, so
  that a reload repeats no action.\<close>

lemma looking_changes_nothing: "getLike (wr_method request) \<Longrightarrow> fst (serveWeb fs halted now request state) = state"
  by (auto simp: serveWeb_def routeOf_def split: prod.splits list.splits if_splits)

lemma action_replies:
  "snd (importAction fs halted form d) \<in> {HttpError 400 ''invalid form'', HttpError 400 ''invalid tax year'', HttpError 422 ''import failed''}
     \<or> (\<exists>m. snd (importAction fs halted form d) = redirect m)"
  "snd (determineAction now form d) \<in> {HttpError 400 ''invalid form'', HttpError 400 ''invalid dataset'', HttpError 422 ''determination failed''}
     \<or> (\<exists>m. snd (determineAction now form d) = redirect m)"
  "\<exists>m. snd (startWorkers server) = redirect m" "\<exists>m. snd (stopWorkers server) = redirect m"
  by (auto simp: importAction_def determineAction_def startWorkers_def stopWorkers_def
      split: option.splits prod.splits sum.splits if_splits)

lemma workers_keep_store:
  assumes "serveWeb fs halted now request (server, d) = ((server', d'), reply)"
  shows "server' = server \<or> d' = d" and "ws_firms server' = ws_firms server"
  using assms
  by (auto simp: serveWeb_def startWorkers_def stopWorkers_def split: route.splits prod.splits option.splits)

text \<open>Only an import or a determination action changes the database.\<close>

lemma database_changes_by_post:
  assumes "serveWeb fs halted now request (server, d) = ((server', d'), reply)" and "d' \<noteq> d"
  shows "wr_method request = ''POST'' \<and> wr_path request \<in> {[''actions'', ''import''], [''actions'', ''determine'']}"
  using assms by (auto simp: serveWeb_def routeOf_def split: route.splits prod.splits if_splits list.splits)

text \<open>However serving ends, no run of the workers is left that was not told to stop.\<close>

lemma serve_stops_workers:
  assumes "serveEnds reached server = (server', r)" and "ws_workers server' = Some c'"
    and "ws_workers server = Some c" and "controller_inv hasRunner firms c" and "ct_runs c' n = Some cancelled"
  shows "cancelled"
proof -
  have inv: "dom (ct_runs c) = set_option (ct_cancel c)" "ct_running c \<longleftrightarrow> ct_cancel c \<noteq> None"
    using assms(4) by (simp_all add: controller_inv_def)
  have c': "c' = fst (Stop c)" using assms(1-3) by (auto simp: serveEnds_def)
  show ?thesis
  proof (cases "ct_cancel c")
    case None
    with inv have "ct_runs c' n = None" unfolding c' by (simp add: Stop_def)
    with assms(5) show ?thesis by simp
  next
    case (Some m)
    with inv(1) have "ct_runs c n = None" if "n \<noteq> m" using that by (auto simp: dom_def)
    with Some inv(2) assms(5) show ?thesis unfolding c' by (auto simp: Stop_def split: if_splits)
  qed
qed

end
