(* ===== verification/Irs_Setup.thy ===== *)
theory Irs_Setup
  imports Irs_Server
begin

text \<open>
  How the IRS stub starts and dispatches: \<open>irs/internal/stub/config.go\<close> and the routing of
  \<open>server.go\<close>. The environment is a map and \<open>strconv.ParseFloat\<close> an argument; it may
  well return NaN or an infinity, so the loaded percentages are IEEE values (their sums are
  exact here) and only a validated configuration becomes the store's.
\<close>

section \<open>Percentages\<close>

datatype float64 = NaN | PlusInf | MinusInf | Finite rat

text \<open>Comparisons with a number: NaN is neither below nor above.\<close>

fun floatBelow :: "float64 \<Rightarrow> rat \<Rightarrow> bool" where
  "floatBelow NaN q = False"
| "floatBelow PlusInf q = False"
| "floatBelow MinusInf q = True"
| "floatBelow (Finite p) q = (p < q)"

fun floatAbove :: "float64 \<Rightarrow> rat \<Rightarrow> bool" where
  "floatAbove NaN q = False"
| "floatAbove PlusInf q = True"
| "floatAbove MinusInf q = False"
| "floatAbove (Finite p) q = (q < p)"

fun floatAdd :: "float64 \<Rightarrow> float64 \<Rightarrow> float64" where
  "floatAdd (Finite p) (Finite q) = Finite (p + q)"
| "floatAdd PlusInf (Finite q) = PlusInf"
| "floatAdd (Finite q) PlusInf = PlusInf"
| "floatAdd PlusInf PlusInf = PlusInf"
| "floatAdd MinusInf (Finite q) = MinusInf"
| "floatAdd (Finite q) MinusInf = MinusInf"
| "floatAdd MinusInf MinusInf = MinusInf"
| "floatAdd _ _ = NaN"

definition isNaN :: "float64 \<Rightarrow> bool" where "isNaN x \<longleftrightarrow> x = NaN"
definition isInf :: "float64 \<Rightarrow> bool" where "isInf x \<longleftrightarrow> x = PlusInf \<or> x = MinusInf"

section \<open>Loading\<close>

record raw_config =
  raw_Addr :: string
  raw_BearerToken :: string
  raw_FailBefore :: float64
  raw_FailAfter :: float64
  raw_NeverAck :: float64

datatype config_error = AddrEmpty | TokenEmpty | BadPercent string | SumTooLarge

definition envOrDefault :: "(string \<rightharpoonup> string) \<Rightarrow> string \<Rightarrow> string \<Rightarrow> string" where
  "envOrDefault env name fallback = (case env name of None \<Rightarrow> fallback | Some value \<Rightarrow> value)"

definition percentFromEnv ::
  "(string \<Rightarrow> float64 option) \<Rightarrow> (string \<rightharpoonup> string) \<Rightarrow> string \<Rightarrow> rat \<Rightarrow> config_error + float64" where
  "percentFromEnv parse env name fallback =
     (case env name of
        None \<Rightarrow> Inr (Finite fallback)
      | Some value \<Rightarrow>
          (case parse value of
             None \<Rightarrow> Inl (BadPercent name)
           | Some percent \<Rightarrow>
               if floatBelow percent 0 \<or> floatAbove percent 100 then Inl (BadPercent name) else Inr percent))"

definition percentages :: "raw_config \<Rightarrow> (string \<times> float64) list" where
  "percentages config =
     [(''IRS_STUB_FAIL_BEFORE_RECORD_PERCENT'', raw_FailBefore config),
      (''IRS_STUB_FAIL_AFTER_RECORD_PERCENT'', raw_FailAfter config),
      (''IRS_STUB_NEVER_ACK_PERCENT'', raw_NeverAck config)]"

definition Validate :: "raw_config \<Rightarrow> config_error option" where
  "Validate config =
     (if trimSpace (raw_Addr config) = '''' then Some AddrEmpty
      else if raw_BearerToken config = '''' then Some TokenEmpty
      else case filter (\<lambda>(_, value). isNaN value \<or> isInf value \<or> floatBelow value 0 \<or> floatAbove value 100)
                  (percentages config) of
        (name, _) # _ \<Rightarrow> Some (BadPercent name)
      | [] \<Rightarrow>
          if floatAbove (floatAdd (raw_FailBefore config) (raw_FailAfter config)) 100
          then Some SumTooLarge else None)"

definition LoadConfig ::
  "(string \<Rightarrow> float64 option) \<Rightarrow> (string \<rightharpoonup> string) \<Rightarrow> config_error + raw_config" where
  "LoadConfig parse env =
     (case percentFromEnv parse env ''IRS_STUB_FAIL_BEFORE_RECORD_PERCENT'' 7 of
        Inl e \<Rightarrow> Inl e
      | Inr before \<Rightarrow>
          (case percentFromEnv parse env ''IRS_STUB_FAIL_AFTER_RECORD_PERCENT'' 5 of
             Inl e \<Rightarrow> Inl e
           | Inr after \<Rightarrow>
               (case percentFromEnv parse env ''IRS_STUB_NEVER_ACK_PERCENT'' 0 of
                  Inl e \<Rightarrow> Inl e
                | Inr never \<Rightarrow>
                    (let config = \<lparr>raw_Addr = envOrDefault env ''IRS_STUB_ADDR'' ''127.0.0.1:8081'',
                           raw_BearerToken = envOrDefault env ''IRS_STUB_BEARER_TOKEN'' ''local-irs-token'',
                           raw_FailBefore = before, raw_FailAfter = after, raw_NeverAck = never\<rparr>
                     in case Validate config of Some e \<Rightarrow> Inl e | None \<Rightarrow> Inr config))))"

section \<open>The server\<close>

fun finitePart :: "float64 \<Rightarrow> rat" where
  "finitePart (Finite q) = q"
| "finitePart _ = 0"

definition storedConfig :: "raw_config \<Rightarrow> IrsConfig" where
  "storedConfig config =
     \<lparr>ic_Addr = raw_Addr config, ic_BearerToken = raw_BearerToken config,
      FailBeforeRecordPercent = finitePart (raw_FailBefore config),
      FailAfterRecordPercent = finitePart (raw_FailAfter config), NeverAckPercent = finitePart (raw_NeverAck config)\<rparr>"

definition NewServer :: "raw_config \<Rightarrow> config_error + irs_store" where
  "NewServer config =
     (case Validate config of Some e \<Rightarrow> Inl e | None \<Rightarrow> Inr (newStore (storedConfig config)))"

definition intakePath :: string where
  "intakePath = ''/IRIntakeAcceptanceA2A/1.0/irisa2a/v1/intake-acceptance''"

definition statusPath :: string where
  "statusPath = ''/IRIntakeAcceptanceA2A/1.0/iris/transstatusorack''"

definition handleHealth :: http_response where
  "handleHealth = \<lparr>rs_Status = 200, rs_MediaType = ''text/plain'', rs_Body = ''ok'' @ [char_of (10::nat)]\<rparr>"

text \<open>The three patterns of the mux, on a clean path; a GET pattern also takes HEAD.\<close>

definition serveIRS ::
  "(request_error \<Rightarrow> string) \<Rightarrow> irs_env \<Rightarrow> string \<Rightarrow> string \<Rightarrow> http_request \<Rightarrow> irs_store
     \<Rightarrow> (irs_store \<times> http_response) option" where
  "serveIRS describe env method path request store =
     (let refuse = (\<lambda>status text. Some (store, \<lparr>rs_Status = status, rs_MediaType = ''text/plain'',
                       rs_Body = text @ [char_of (10::nat)]\<rparr>))
      in if path = intakePath then
           (if method = ''POST'' then handleIntake describe env request store else refuse 405 ''Method Not Allowed'')
         else if path = statusPath then
           (if method = ''POST'' then Some (store, handleStatus describe (env_now env) request store)
            else refuse 405 ''Method Not Allowed'')
         else if path = ''/healthz'' then
           (if method = ''GET'' \<or> method = ''HEAD'' then Some (store, handleHealth) else refuse 405 ''Method Not Allowed'')
         else refuse 404 ''404 page not found'')"

section \<open>What a loaded configuration promises\<close>

definition percentOK :: "rat \<Rightarrow> bool" where
  "percentOK q \<longleftrightarrow> 0 \<le> q \<and> q \<le> 100"

lemma finite_percent:
  "\<not> isNaN x \<Longrightarrow> \<not> isInf x \<Longrightarrow> \<not> floatBelow x 0 \<Longrightarrow> \<not> floatAbove x 100 \<Longrightarrow> \<exists>q. x = Finite q \<and> percentOK q"
  by (cases x) (auto simp: isNaN_def isInf_def percentOK_def)

lemma Validate_sound:
  assumes "Validate config = None"
  shows "\<exists>b a n. raw_FailBefore config = Finite b \<and> raw_FailAfter config = Finite a \<and> raw_NeverAck config = Finite n
    \<and> percentOK b \<and> percentOK a \<and> percentOK n \<and> b + a \<le> 100"
proof -
  have none: "filter (\<lambda>(_, value). isNaN value \<or> isInf value \<or> floatBelow value 0 \<or> floatAbove value 100)
      (percentages config) = []" and sum: "\<not> floatAbove (floatAdd (raw_FailBefore config) (raw_FailAfter config)) 100"
    using assms by (auto simp: Validate_def split: if_splits list.splits)
  from none obtain b a n where "raw_FailBefore config = Finite b" "raw_FailAfter config = Finite a"
    "raw_NeverAck config = Finite n" "percentOK b" "percentOK a" "percentOK n"
    using finite_percent by (simp add: percentages_def split: if_splits) metis
  with sum show ?thesis by simp
qed

text \<open>A stub that starts has usable fault rates: whatever text the environment holds and whatever the
  number parser makes of it, NaN and infinities included, a loaded configuration has an address, a token
  and finite percentages from 0 through 100 whose failure rates sum to at most 100, and the server takes
  exactly these.\<close>

theorem irs_config_sound:
  assumes "LoadConfig parse env = Inr c"
  shows "NewServer c = Inr (newStore (storedConfig c))
    \<and> trimSpace (ic_Addr (storedConfig c)) \<noteq> '''' \<and> ic_BearerToken (storedConfig c) \<noteq> ''''
    \<and> raw_FailBefore c = Finite (FailBeforeRecordPercent (storedConfig c))
    \<and> raw_FailAfter c = Finite (FailAfterRecordPercent (storedConfig c))
    \<and> raw_NeverAck c = Finite (NeverAckPercent (storedConfig c))
    \<and> percentOK (FailBeforeRecordPercent (storedConfig c)) \<and> percentOK (FailAfterRecordPercent (storedConfig c))
    \<and> percentOK (NeverAckPercent (storedConfig c))
    \<and> FailBeforeRecordPercent (storedConfig c) + FailAfterRecordPercent (storedConfig c) \<le> 100"
proof -
  have valid: "Validate c = None"
    using assms by (auto simp: LoadConfig_def Let_def split: sum.splits option.splits)
  then have "trimSpace (raw_Addr c) \<noteq> ''''" "raw_BearerToken c \<noteq> ''''"
    by (auto simp: Validate_def split: if_splits)
  with Validate_sound [OF valid] valid show ?thesis
    by (auto simp: NewServer_def storedConfig_def)
qed

theorem irs_config_sound_witness:
  "\<exists>c. LoadConfig (\<lambda>s. if s = ''12.5'' then Some (Finite 12.5) else Some NaN)
         [''IRS_STUB_FAIL_BEFORE_RECORD_PERCENT'' \<mapsto> ''12.5''] = Inr c
     \<and> FailBeforeRecordPercent (storedConfig c) + FailAfterRecordPercent (storedConfig c) \<le> 100
     \<and> LoadConfig (\<lambda>_. Some NaN) [''IRS_STUB_NEVER_ACK_PERCENT'' \<mapsto> ''nan''] = Inl (BadPercent ''IRS_STUB_NEVER_ACK_PERCENT'')"
proof -
  have addr: "trimSpace ''127.0.0.1:8081'' \<noteq> ''''" by code_simp
  obtain c where c: "LoadConfig (\<lambda>s. if s = ''12.5'' then Some (Finite 12.5) else Some NaN)
         [''IRS_STUB_FAIL_BEFORE_RECORD_PERCENT'' \<mapsto> ''12.5''] = Inr c"
    using addr by (auto simp: LoadConfig_def percentFromEnv_def envOrDefault_def Validate_def percentages_def
        isNaN_def isInf_def Let_def)
  moreover have "LoadConfig (\<lambda>_. Some NaN) [''IRS_STUB_NEVER_ACK_PERCENT'' \<mapsto> ''nan'']
      = Inl (BadPercent ''IRS_STUB_NEVER_ACK_PERCENT'')"
    using addr by (simp add: LoadConfig_def percentFromEnv_def envOrDefault_def Validate_def percentages_def
        isNaN_def isInf_def Let_def)
  ultimately show ?thesis using irs_config_sound [OF c] by blast
qed

end
