(* ===== verification/Irs_Process.thy ===== *)
theory Irs_Process
  imports Irs_Setup "HOL-Library.Word"
begin

text \<open>
  The stub as a process: \<open>ServeHTTP\<close> of \<open>irs/internal/stub/server.go\<close>, which names every request,
  watches the status its handlers write and logs both, and the exit status of
  \<open>irs/cmd/irsstub/main.go\<close>. The underlying response writer is the list of the calls it receives.
\<close>

section \<open>The status writer\<close>

datatype writer_call = HeaderCall int | BodyCall bytes

record status_writer =
  sw_status :: int
  sw_calls :: "writer_call list"

definition newStatusWriter :: status_writer where
  "newStatusWriter = \<lparr>sw_status = 0, sw_calls = []\<rparr>"

definition WriteHeader :: "int \<Rightarrow> status_writer \<Rightarrow> status_writer" where
  "WriteHeader code writer = \<lparr>sw_status = code, sw_calls = sw_calls writer @ [HeaderCall code]\<rparr>"

definition WriteBody :: "bytes \<Rightarrow> status_writer \<Rightarrow> status_writer" where
  "WriteBody payload writer =
     (let headed = (if sw_status writer = 0 then WriteHeader 200 writer else writer)
      in headed\<lparr>sw_calls := sw_calls headed @ [BodyCall payload]\<rparr>)"

section \<open>Requests\<close>

text \<open>The ID of a request: the caller's, or the next of the server's 64-bit sequence.\<close>

definition requestID :: "string \<Rightarrow> 64 word \<Rightarrow> 64 word \<times> string" where
  "requestID given issued =
     (if given = '''' then (issued + 1, ''req-'' @ dec_of_nat (unat (issued + 1))) else (issued, given))"

record request_log =
  lg_requestID :: string
  lg_method :: string
  lg_path :: string
  lg_status :: int

definition ServeHTTP ::
  "(request_error \<Rightarrow> string) \<Rightarrow> irs_env \<Rightarrow> string \<Rightarrow> string \<Rightarrow> string \<Rightarrow> http_request \<Rightarrow> irs_store \<times> 64 word
     \<Rightarrow> ((irs_store \<times> 64 word) \<times> writer_call list \<times> request_log) option" where
  "ServeHTTP describe env given method path request server =
     (case requestID given (snd server) of
        (issued, name) \<Rightarrow>
          (case serveIRS describe env method path request (fst server) of
             None \<Rightarrow> None
           | Some (store, reply) \<Rightarrow>
               (let writer = WriteBody (rs_Body reply) (WriteHeader (rs_Status reply) newStatusWriter)
                in Some ((store, issued), sw_calls writer,
                     \<lparr>lg_requestID = name, lg_method = method, lg_path = path, lg_status = sw_status writer\<rparr>))))"

section \<open>The process\<close>

text \<open>How serving ends: \<open>ListenAndServe\<close> returned, for \<open>ErrServerClosed\<close> or not, or a signal came and
  the shutdown succeeded or not.\<close>

datatype serving_end = ListenEnded bool | Signalled bool

definition stubMain :: "(string \<Rightarrow> float64 option) \<Rightarrow> (string \<rightharpoonup> string) \<Rightarrow> serving_end \<Rightarrow> int" where
  "stubMain parse env serving =
     (case LoadConfig parse env of
        Inl e \<Rightarrow> 1
      | Inr config \<Rightarrow>
          (case NewServer config of
             Inl e \<Rightarrow> 1
           | Inr store \<Rightarrow>
               (case serving of
                  ListenEnded asAsked \<Rightarrow> if asAsked then 0 else 1
                | Signalled clean \<Rightarrow> if clean then 0 else 1)))"

section \<open>What it promises\<close>

text \<open>Every reply has a status, and the log names the one that was sent.\<close>

lemma reply_status [simp]: "rs_Status (writeError code name text) = code" "rs_Status (writeXML code node) = code"
  by (simp_all add: writeError_def writeXML_def)

lemma handleIntake_status:
  assumes "handleIntake describe env request store = Some (store', reply)"
  shows "0 < rs_Status reply"
proof -
  have "0 < rs_Status (case r of Inl errDuplicateUTID \<Rightarrow> writeError 409 a b | Inl errDuplicateRecord \<Rightarrow> writeError 409 c d
      | Inr (receiptID, fault) \<Rightarrow> if fault = failBeforeRecord \<or> fault = failAfterRecord then writeError 503 e f
          else writeXML 200 (node receiptID))" for r a b c d e f node
    by (simp split: sum.split irs_error.split)
  note answered = this
  show ?thesis
  proof (cases "readMultipartXML request")
    case (Inl e)
    with assms show ?thesis by (simp add: handleIntake_def split: if_splits) auto
  next
    case payload: (Inr payload)
    show ?thesis
    proof (cases "decodeTransmission payload")
      case (Inl e)
      with assms payload show ?thesis by (auto simp: handleIntake_def split: if_splits)
    next
      case (Inr input)
      with assms payload answered show ?thesis by (auto simp: handleIntake_def split: if_splits)
    qed
  qed
qed

lemma serveIRS_status: "serveIRS describe env method path request store = Some (store', reply) \<Longrightarrow> 0 < rs_Status reply"
  using handleIntake_status
  by (auto simp: serveIRS_def handleStatus_def handleHealth_def Let_def split: if_splits option.splits sum.splits)

lemma logged_status:
  assumes "ServeHTTP describe env given method path request server = Some (server', calls, entry)"
  shows "\<exists>body. calls = [HeaderCall (lg_status entry), BodyCall body]"
  using assms serveIRS_status
  by (force simp: ServeHTTP_def WriteBody_def WriteHeader_def newStatusWriter_def Let_def split: option.splits prod.splits)

text \<open>The names the server gives to its requests repeat only when its counter has gone round.\<close>

fun issuedIDs :: "nat \<Rightarrow> 64 word \<Rightarrow> string list" where
  "issuedIDs 0 issued = []"
| "issuedIDs (Suc n) issued = (case requestID '''' issued of (issued', name) \<Rightarrow> name # issuedIDs n issued')"

lemma issuedIDs_nth:
  "issuedIDs n issued = map (\<lambda>k. ''req-'' @ dec_of_nat (unat (issued + of_nat (Suc k)))) [0 ..< n]"
proof (induction n arbitrary: issued)
  case (Suc n)
  have "map (\<lambda>k. ''req-'' @ dec_of_nat (unat (issued + 1 + of_nat (Suc k)))) [0 ..< n]
      = map (\<lambda>k. ''req-'' @ dec_of_nat (unat (issued + of_nat (Suc k)))) (map Suc [0 ..< n])"
    by (simp add: ac_simps)
  with Suc show ?case by (simp only: issuedIDs.simps requestID_def map_Suc_upt upt_conv_Cons) simp
qed simp

lemma request_ids_distinct:
  assumes "n \<le> 2 ^ 64"
  shows "distinct (issuedIDs n issued)"
proof -
  let ?name = "\<lambda>k. ''req-'' @ dec_of_nat (unat (issued + of_nat (Suc k)))"
  have "inj_on ?name (set [0 ..< n])"
  proof (rule inj_onI)
    fix k m assume k: "k \<in> set [0 ..< n]" "m \<in> set [0 ..< n]" and "?name k = ?name m"
    then have "unat (issued + of_nat (Suc k)) = unat (issued + of_nat (Suc m))" by (simp del: of_nat_Suc)
    then have "issued + of_nat (Suc k) = issued + of_nat (Suc m)" by (rule unsigned_word_eqI)
    then have "unat (of_nat k :: 64 word) = unat (of_nat m :: 64 word)" by simp
    with k assms show "k = m" by (simp add: unat_of_nat take_bit_nat_eq_self)
  qed
  then show ?thesis by (simp add: issuedIDs_nth distinct_map del: of_nat_Suc)
qed

text \<open>The process fails before it listens exactly when its configuration does not load.\<close>

lemma stub_starts:
  "stubMain parse env serving = (case LoadConfig parse env of Inl e \<Rightarrow> 1
     | Inr config \<Rightarrow> if serving \<in> {ListenEnded True, Signalled True} then 0 else 1)"
proof (cases "LoadConfig parse env")
  case (Inr config)
  then have "Validate config = None" by (auto simp: LoadConfig_def Let_def split: sum.splits option.splits)
  with Inr show ?thesis by (simp add: stubMain_def NewServer_def split: serving_end.splits)
qed (simp add: stubMain_def)

end
