(* ===== verification/Payloads.thy ===== *)
theory Payloads
  imports Ledger
begin

text \<open>
  What the store keeps about its payloads: a batch never changes its identity, its payload or the
  filings it carries; the payload decodes to a transmission of the batch's firm and client with
  exactly those filings, in order; and until it is acknowledged, each of them waits as \<open>batched\<close>.
\<close>

section \<open>What no operation changes\<close>

definition payloadKey :: "batch_row \<Rightarrow> int \<times> string \<times> string \<times> string \<times> bytes \<times> bytes" where
  "payloadKey b = (b_id b, b_firm b, b_client b, b_utid b, b_xml b, b_hash b)"

lemma payloadKey_updates [simp]:
  "payloadKey (claimRow now w l token b) = payloadKey b"
  "payloadKey (hashMismatchRow b) = payloadKey b"
  "payloadKey (eventUpdate t1 ev b) = payloadKey b"
  by (simp_all add: payloadKey_def claimRow_def hashMismatchRow_def)
    (cases ev; simp add: eventRow_def statusRetryRow_def acknowledgedRow_def terminalRow_def)

lemma payloadKey_update:
  assumes "updateBatches p u d = Inr (d', n)" and "\<And>b. payloadKey (u b) = payloadKey b"
  shows "map payloadKey (db_batches d') = map payloadKey (db_batches d)"
  using updateBatches_Inr(1) [OF assms(1)] assms(2) by simp

fun plans :: "store_op \<Rightarrow> bool" where
  "plans (OpPlan now cmd) = True"
| "plans _ = False"

lemma claim_payload:
  assumes "ClaimNextBatch now locked entropy cmd d = (d', r)"
  shows "map payloadKey (db_batches d') = map payloadKey (db_batches d) \<and> db_batch_filings d' = db_batch_filings d"
  using assms
proof (cases rule: ClaimNextBatch_cases)
  case (claimed b token action)
  with payloadKey_update [OF claimed(4)] updateBatches_Inr(1) [OF claimed(4)] show ?thesis by simp
next
  case (mismatch b token d1 n)
  with payloadKey_update [OF mismatch(3)] updateBatches_Inr(1) [OF mismatch(3)]
    payloadKey_update [OF mismatch(4)] updateBatches_Inr(1) [OF mismatch(4)]
  show ?thesis by simp
qed simp

lemma event_payload:
  assumes "applyEvent t1 t2 c ev d = (d', r)"
  shows "map payloadKey (db_batches d') = map payloadKey (db_batches d) \<and> db_batch_filings d' = db_batch_filings d"
proof (cases r)
  case (Inl e)
  with assms show ?thesis by (auto dest: applyEvent_Inl)
next
  case (Inr u)
  with assms have "applyEvent t1 t2 c ev d = (d', Inr ())" by simp
  then obtain d1 where d1: "d1 = d\<lparr>db_filings := db_filings d'\<rparr>"
    and u: "updateBatches (claimRowOf t1 c (eventStates ev)) (eventUpdate t1 ev) d1 = Inr (d', 1)"
    by (rule applyEvent_Inr)
  from payloadKey_update [OF u] updateBatches_Inr(1) [OF u] d1 show ?thesis by (metis (no_types, lifting)
      db.select_convs(7,8) db.surjective db.update_convs(6,7) payloadKey_updates(3))
qed

lemma other_links:
  "db_batch_filings (fst (ImportDataset cmd src d)) = db_batch_filings d"
  "db_batch_filings (fst (DetermineDataset dcmd d)) = db_batch_filings d"
  "db_batch_filings (fst (openGate acq d)) = db_batch_filings d"
  "db_batch_filings (fst (startCall t1 t2 acq d)) = db_batch_filings d"
  "db_batch_filings (fst (snd (Finish t1 t2 res permit d))) = db_batch_filings d"
proof -
  show "db_batch_filings (fst (ImportDataset cmd src d)) = db_batch_filings d"
    unfolding ImportDataset_def storeDataset_def Let_def
    by (auto split: option.splits if_splits sum.splits list.splits)
  show "db_batch_filings (fst (DetermineDataset dcmd d)) = db_batch_filings d"
    unfolding DetermineDataset_def insertDetermination_def insertFilings_def Let_def
    by (auto split: option.splits if_splits sum.splits list.splits)
  show "db_batch_filings (fst (openGate acq d)) = db_batch_filings d"
    by (auto simp: openGate_def ensureGate_def split: if_splits sum.splits list.splits)
  show "db_batch_filings (fst (startCall t1 t2 acq d)) = db_batch_filings d"
    by (auto simp: startCall_def Let_def updateGates_def split: if_splits list.splits)
  show "db_batch_filings (fst (snd (Finish t1 t2 res permit d))) = db_batch_filings d"
    by (auto simp: Finish_def updateGates_def split: if_splits sum.splits)
qed

lemma storeStep_payload:
  assumes "\<not> plans op"
  shows "map payloadKey (db_batches (storeStep op d)) = map payloadKey (db_batches d)
    \<and> db_batch_filings (storeStep op d) = db_batch_filings d"
proof (cases op)
  case (OpClaim now locked entropy cmd)
  then show ?thesis using claim_payload [of now locked entropy cmd d] by (metis prod.collapse storeStep.simps(4))
next
  case (OpEvent t1 t2 c ev)
  then show ?thesis using event_payload [of t1 t2 c ev d] by (metis prod.collapse storeStep.simps(5))
qed (use assms in \<open>simp_all add: other_batches other_links\<close>)

section \<open>The filings of a batch\<close>

definition keyAt :: "filing_row \<Rightarrow> int \<times> string \<times> bytes" where
  "keyAt f = (f_id f, f_firm f, f_key f)"

definition filingsAt :: "filing_row list \<Rightarrow> batch_filing_row \<Rightarrow> (string \<times> int) list" where
  "filingsAt fs x = map (\<lambda>f. (hexEncode (f_key f), f_id f)) (filter (\<lambda>f. f_id f = bf_filing x \<and> f_firm f = bf_firm x) fs)"

lemma batchFilings_at:
  "batchFilings batchID firmID d = concat (map (filingsAt (db_filings d))
     (sort_key bf_slot (filter (\<lambda>x. bf_batch x = batchID \<and> bf_firm x = firmID) (db_batch_filings d))))"
  by (simp add: batchFilings_def filingsAt_def [abs_def])

lemma filingsAt_keys: "map keyAt fs' = map keyAt fs \<Longrightarrow> filingsAt fs' x = filingsAt fs x"
proof -
  have at: "filingsAt gs x = map (\<lambda>(i, firm, key). (hexEncode key, i)) (filter (\<lambda>(i, firm, key). i = bf_filing x \<and> firm = bf_firm x) (map keyAt gs))" for gs
    by (simp add: filingsAt_def filter_map comp_def keyAt_def)
  assume "map keyAt fs' = map keyAt fs"
  then show ?thesis by (simp only: at)
qed

lemma outcomeRow_keyAt [simp]: "keyAt (outcomeRow t outcome f) = keyAt f"
  by (simp add: keyAt_def outcomeRow_def)

lemma settleOutcomes_keys:
  assumes "settleOutcomes t firmID expected seen os fs = Inr fs'"
  shows "map keyAt fs' = map keyAt fs"
  using assms
proof (induction os arbitrary: seen fs)
  case (Cons outcome rest)
  from Cons.prems obtain i fs1 where u: "sql_update filing_update_ok filing_row_ok filing_table_ok
        (\<lambda>f. f_id f = i \<and> f_firm f = firmID \<and> f_state f = FBatched) (outcomeRow t outcome) fs = Inr (fs1, 1)"
    and rest: "settleOutcomes t firmID expected (FilingKey outcome # seen) rest fs1 = Inr fs'"
    by (rule settleOutcomes_step)
  have "map keyAt fs1 = map keyAt fs" unfolding sql_update_Inr(1) [OF u] by simp
  with Cons.IH [OF rest] show ?case by simp
qed simp

lemma event_keys: "applyEvent t1 t2 c ev d = (d', r) \<Longrightarrow> map keyAt (db_filings d') = map keyAt (db_filings d)"
  using applyEvent_filings settleOutcomes_keys by metis

lemma linked_filing:
  assumes "schema_ok d" and "x \<in> set (db_batch_filings d)"
  shows "bf_filing x \<in> f_id ` set (db_filings d)"
  using assms by (auto simp: schema_ok_def linkRef_ok_def)

lemma batchFilings_linked:
  assumes "i \<in> snd ` set (batchFilings batchID firmID d)"
  obtains x where "x \<in> set (db_batch_filings d)" "bf_batch x = batchID" "bf_filing x = i"
  using assms by (auto simp: batchFilings_at filingsAt_def)

lemma batchFilings_cong:
  assumes "filter (\<lambda>x. bf_batch x = n \<and> bf_firm x = firmID) (db_batch_filings d')
      = filter (\<lambda>x. bf_batch x = n \<and> bf_firm x = firmID) (db_batch_filings d)"
    and "\<And>x. x \<in> set (db_batch_filings d) \<Longrightarrow> filingsAt (db_filings d') x = filingsAt (db_filings d) x"
  shows "batchFilings n firmID d' = batchFilings n firmID d"
  unfolding batchFilings_at assms(1) using assms(2) by (intro arg_cong [of _ _ concat] map_cong) auto

lemma determine_filingsAt:
  assumes "schema_ok d" and "x \<in> set (db_batch_filings d)"
  shows "filingsAt (db_filings (fst (DetermineDataset cmd d))) x = filingsAt (db_filings d) x"
proof (cases "\<exists>r. snd (DetermineDataset cmd d) = Inr r \<and> \<not> dr_Existing r")
  case True
  then obtain r where ok: "DetermineDataset cmd d = (fst (DetermineDataset cmd d), Inr r)" "\<not> dr_Existing r"
    by (metis prod.collapse)
  obtain new where fs: "db_filings (fst (DetermineDataset cmd d)) = db_filings d @ new"
    and tab: "filing_table_ok (db_filings (fst (DetermineDataset cmd d)))"
    using ok by (rule DetermineDataset_fresh) simp
  have "bf_filing x \<notin> f_id ` set new"
    using tab linked_filing [OF assms] unfolding fs by (auto simp: filing_table_ok_def)
  then have "filter (\<lambda>f. f_id f = bf_filing x \<and> f_firm f = bf_firm x) new = []" by (fastforce simp: filter_empty_conv image_iff)
  then show ?thesis by (simp add: fs filingsAt_def)
next
  case False
  then have "fst (DetermineDataset cmd d) = d"
    by (intro DetermineDataset_unchanged [of cmd d _ "snd (DetermineDataset cmd d)"]) simp_all
  then show ?thesis by simp
qed

lemma plan_batchFilings:
  assumes "schema_ok d" and "b \<in> set (db_batches d)"
  shows "batchFilings (b_id b) firmID (fst (PlanBatches now cmd d)) = batchFilings (b_id b) firmID d"
proof (cases "PlanBatches now cmd d")
  case (Pair d' r)
  show ?thesis
  proof (cases r)
    case (Inl e)
    with Pair show ?thesis by (auto dest: PlanBatches_Inl)
  next
    case (Inr res)
    with Pair have "PlanBatches now cmd d = (d', Inr res)" by simp
    then show ?thesis
    proof (cases rule: PlanBatches_Inr)
      case (planned groups base rows links)
      have "b_id b < base" unfolding planned(3) using assms(2) by (intro nextId_greater) simp
      moreover have "base \<le> bf_batch x" if "x \<in> set links" for x
        using that by (auto simp: planned(5) groupLinkRows_def)
      ultimately have "filter (\<lambda>x. bf_batch x = b_id b \<and> bf_firm x = firmID) links = []"
        by (fastforce simp: filter_empty_conv)
      moreover have "map keyAt (db_filings d') = map keyAt (db_filings d)"
        unfolding planned(10) by (simp add: keyAt_def)
      ultimately show ?thesis unfolding Pair fst_conv
        by (intro batchFilings_cong filingsAt_keys) (simp_all add: planned(10))
    qed (use Pair in simp)
  qed
qed

lemma batchFilings_kept:
  assumes "schema_ok d" and "b \<in> set (db_batches d)"
  shows "batchFilings (b_id b) firmID (storeStep op d) = batchFilings (b_id b) firmID d"
proof (cases op)
  case (OpPlan now cmd)
  with plan_batchFilings [OF assms] show ?thesis by simp
next
  case (OpDetermine cmd)
  with determine_filingsAt [OF assms(1)] show ?thesis by (intro batchFilings_cong) (simp_all add: other_links)
next
  case (OpEvent t1 t2 c ev)
  have "map keyAt (db_filings (storeStep op d)) = map keyAt (db_filings d)"
    using event_keys [of t1 t2 c ev d] OpEvent by (metis prod.collapse storeStep.simps(5))
  then show ?thesis
    using storeStep_payload [of op d] OpEvent by (intro batchFilings_cong filingsAt_keys) simp_all
next
  case (OpClaim now locked entropy cmd)
  then show ?thesis using storeStep_payload [of op d] by (intro batchFilings_cong) (simp_all add: other_filings)
qed (intro batchFilings_cong; simp add: other_links other_filings)+

text \<open>Where a row after an operation comes from.\<close>

lemma row_origin:
  assumes "schema_ok d" and "\<not> plans op" and "b' \<in> set (db_batches (storeStep op d))"
  obtains b where "b \<in> set (db_batches d)" "payloadKey b' = payloadKey b" "rowEvolves b b'"
proof -
  have "payloadKey b' \<in> set (map payloadKey (db_batches d))"
    using storeStep_payload [OF assms(2), of d] assms(3) by (metis image_eqI set_map)
  then obtain b where b: "b \<in> set (db_batches d)" "payloadKey b' = payloadKey b" by auto
  from storeStep_evolves [OF assms(1), of op] b(1) obtain b2 where b2: "b2 \<in> set (db_batches (storeStep op d))" "rowEvolves b b2"
    by (auto simp: batchesEvolve_def)
  have "distinct (map b_id (db_batches (storeStep op d)))"
    using storeStep_schema [OF assms(1)] by (simp add: schema_ok_def batch_table_ok_def)
  moreover have "b_id b2 = b_id b'" using b(2) b2(2) by (simp add: payloadKey_def rowEvolves_def)
  ultimately have "b2 = b'" using unique_row b2(1) assms(3) by blast
  with b b2(2) that show thesis by blast
qed

section \<open>The invariant\<close>

definition payload_ok :: "db \<Rightarrow> batch_row \<Rightarrow> bool" where
  "payload_ok d b \<longleftrightarrow> 0 < b_id b \<and> beginFirm (b_firm b) = Inr () \<and> sha256 (b_xml b) = b_hash b
     \<and> (\<exists>t. decodeTransmission (b_xml b) = Inr t \<and> tx_firmID t = b_firm b \<and> tx_clientID t = b_client b
          \<and> tx_taxYear t = ''2025'' \<and> tx_utid t = b_utid b
          \<and> map fr_recordID (tx_records t) = map fst (batchFilings (b_id b) (b_firm b) d))"

definition filings_wait :: "db \<Rightarrow> batch_row \<Rightarrow> bool" where
  "filings_wait d b \<longleftrightarrow> b_state b = BAcknowledged
     \<or> (\<forall>f \<in> set (db_filings d). f_id f \<in> snd ` set (batchFilings (b_id b) (b_firm b) d) \<longrightarrow> f_state f = FBatched)"

definition payloads_ok :: "db \<Rightarrow> bool" where
  "payloads_ok d \<longleftrightarrow> (\<forall>b \<in> set (db_batches d). payload_ok d b \<and> filings_wait d b)"

lemma payload_ok_kept:
  assumes "payload_ok d b" and "payloadKey b' = payloadKey b"
    and "batchFilings (b_id b) (b_firm b) d' = batchFilings (b_id b) (b_firm b) d"
  shows "payload_ok d' b'"
  using assms by (simp add: payload_ok_def payloadKey_def)

lemma same_link:
  assumes "schema_ok d" and "i \<in> snd ` set (batchFilings m firm1 d)" and "i \<in> snd ` set (batchFilings n firm2 d)"
  shows "m = n"
proof -
  from assms(2) obtain x where x: "x \<in> set (db_batch_filings d)" "bf_batch x = m" "bf_filing x = i" by (rule batchFilings_linked)
  from assms(3) obtain y where y: "y \<in> set (db_batch_filings d)" "bf_batch y = n" "bf_filing y = i" by (rule batchFilings_linked)
  have "inj_on bf_filing (set (db_batch_filings d))"
    using assms(1) by (simp add: schema_ok_def batch_filing_table_ok_def distinct_map)
  with x y show ?thesis by (metis inj_onD)
qed

lemma event_wait:
  assumes "schema_ok d" and "applyEvent t1 t2 c ev d = (d', r)" and "f' \<in> set (db_filings d')"
    and "f_id f' \<in> snd ` set (batchFilings n firm d)"
  shows "f' \<in> set (db_filings d) \<or> (c_batchID c = n \<and> (\<forall>b' \<in> set (db_batches d'). b_id b' = n \<longrightarrow> b_state b' = BAcknowledged))"
proof (rule disjCI)
  assume old: "\<not> (c_batchID c = n \<and> (\<forall>b' \<in> set (db_batches d'). b_id b' = n \<longrightarrow> b_state b' = BAcknowledged))"
  show "f' \<in> set (db_filings d)"
    using applyEvent_filings [OF assms(2)]
  proof
    assume "db_filings d' = db_filings d"
    with assms(3) show ?thesis by simp
  next
    assume "\<exists>os. ev = EvCompleteAcknowledgment os \<and> settleOutcomes t1 (c_firmID c)
          (batchFilings (c_batchID c) (c_firmID c) d) [] os (db_filings d) = Inr (db_filings d')"
    then obtain os where ev: "ev = EvCompleteAcknowledgment os"
      and s: "settleOutcomes t1 (c_firmID c) (batchFilings (c_batchID c) (c_firmID c) d) [] os (db_filings d) = Inr (db_filings d')"
      by blast
    show ?thesis
    proof (rule ccontr)
      assume new: "f' \<notin> set (db_filings d)"
      with settleOutcomes_origin [OF s assms(3)] obtain key where
        "map_of (rev (batchFilings (c_batchID c) (c_firmID c) d)) key = Some (f_id f')" by blast
      from map_of_SomeD [OF this] have "f_id f' \<in> snd ` set (batchFilings (c_batchID c) (c_firmID c) d)" by force
      from same_link [OF assms(1) this assms(4)] have n: "c_batchID c = n" .
      have "r = Inr ()" using new assms(2,3) by (cases r) (auto dest: applyEvent_Inl)
      with assms(2) have "applyEvent t1 t2 c ev d = (d', Inr ())" by simp
      then obtain b where "claimRowOf t1 c (eventStates ev) b"
        "db_batches d' = map (\<lambda>r. if b_id r = b_id b then eventUpdate t1 ev r else r) (db_batches d)"
        by (rule applyEvent_row)
      then have "\<forall>b' \<in> set (db_batches d'). b_id b' = n \<longrightarrow> b_state b' = BAcknowledged"
        using n ev by (auto simp: claimRowOf_def claimedBy_def acknowledgedRow_def)
      with n old show False by blast
    qed
  qed
qed

lemma step_filings:
  assumes "schema_ok d" and "\<not> plans op" and "f' \<in> set (db_filings (storeStep op d))"
    and "f_id f' \<in> snd ` set (batchFilings n firm d)"
  shows "f' \<in> set (db_filings d) \<or> (\<forall>b' \<in> set (db_batches (storeStep op d)). b_id b' = n \<longrightarrow> b_state b' = BAcknowledged)"
proof (cases op)
  case (OpDetermine cmd)
  from assms(4) obtain x where x: "x \<in> set (db_batch_filings d)" "bf_filing x = f_id f'" by (rule batchFilings_linked)
  from linked_filing [OF assms(1) x(1)] obtain f where f: "f \<in> set (db_filings d)" "f_id f = f_id f'" using x(2) by auto
  from DetermineDataset_filings_evolve [of d cmd] f(1) obtain f2 where
    f2: "f2 \<in> set (db_filings (storeStep op d))" "filingEvolves f f2" using OpDetermine by (auto simp: filingsEvolve_def)
  have "f \<in> set (db_filings (storeStep op d))"
  proof (cases "\<exists>r. snd (DetermineDataset cmd d) = Inr r \<and> \<not> dr_Existing r")
    case True
    then obtain r where ok: "DetermineDataset cmd d = (fst (DetermineDataset cmd d), Inr r)" "\<not> dr_Existing r"
      by (metis prod.collapse)
    then show ?thesis by (rule DetermineDataset_fresh) (use f OpDetermine in simp)
  next
    case False
    then have "fst (DetermineDataset cmd d) = d"
      by (intro DetermineDataset_unchanged [of cmd d _ "snd (DetermineDataset cmd d)"]) simp_all
    with f OpDetermine show ?thesis by simp
  qed
  moreover have "filing_table_ok (db_filings (storeStep op d))"
    using storeStep_schema [OF assms(1)] by (simp add: schema_ok_def)
  ultimately have "f = f'" using filing_ids_unique assms(3) f(2) by blast
  with f show ?thesis by simp
next
  case (OpEvent t1 t2 c ev)
  obtain d' r where e: "applyEvent t1 t2 c ev d = (d', r)" by (cases "applyEvent t1 t2 c ev d") auto
  with event_wait [OF assms(1) e _ assms(4)] assms(3) OpEvent show ?thesis by auto
qed (use assms in \<open>simp_all add: other_filings\<close>)

lemma step_payloads:
  assumes "schema_ok d" and "payloads_ok d" and "\<not> plans op"
  shows "payloads_ok (storeStep op d)"
  unfolding payloads_ok_def
proof
  fix b' assume b': "b' \<in> set (db_batches (storeStep op d))"
  from assms(1,3) b' obtain b where b: "b \<in> set (db_batches d)" "payloadKey b' = payloadKey b" "rowEvolves b b'"
    by (rule row_origin)
  note same = batchFilings_kept [OF assms(1) b(1), of "b_firm b" op]
  have inv: "payload_ok d b" "filings_wait d b" using assms(2) b(1) by (simp_all add: payloads_ok_def)
  have key: "b_id b' = b_id b" "b_firm b' = b_firm b" using b(2) by (simp_all add: payloadKey_def)
  have "filings_wait (storeStep op d) b'"
  proof (cases "b_state b' = BAcknowledged")
    case False
    with b(3) have "b_state b \<noteq> BAcknowledged" by (auto simp: rowEvolves_def terminalState_def)
    with inv(2) have wait: "f \<in> set (db_filings d) \<Longrightarrow> f_id f \<in> snd ` set (batchFilings (b_id b) (b_firm b) d) \<Longrightarrow> f_state f = FBatched" for f
      by (auto simp: filings_wait_def)
    have "f_state f' = FBatched" if "f' \<in> set (db_filings (storeStep op d))"
      "f_id f' \<in> snd ` set (batchFilings (b_id b) (b_firm b) d)" for f'
      using step_filings [OF assms(1,3) that] wait that(2) b' key(1) False by blast
    then show ?thesis using same key by (simp add: filings_wait_def)
  qed (simp add: filings_wait_def)
  with payload_ok_kept [OF inv(1) b(2) same] show "payload_ok (storeStep op d) b' \<and> filings_wait (storeStep op d) b'" ..
qed

section \<open>Planning makes such batches\<close>

lemma planned_payload:
  assumes "schema_ok d" and "carriable cmd d" and ok: "PlanBatches now cmd d = (d', Inr r)"
    and "b \<in> set (db_batches d')" and "b \<notin> set (db_batches d)"
  shows "payload_ok d' b"
proof -
  let ?firm = "plan_FirmID cmd" and ?ready = "readyFilings (plan_FirmID cmd) (plan_DeterminationID cmd) d"
  from plan_contents [OF assms(1,3-5)] obtain grp where g: "grp \<in> set (groupsFrom ?ready 0)"
    and id: "nextId (map b_id (db_batches d)) \<le> b_id b"
    and b: "b_firm b = ?firm" "b_client b = pf_clientID (hd grp)" "b_utid b = groupUTID ?firm grp"
      "b_xml b = groupXML ?firm grp" "b_hash b = sha256 (b_xml b)"
    and carries: "batchFilings (b_id b) ?firm d' = map (\<lambda>f. (xd_RecordID (groupDetail f), pf_id f)) grp"
    by blast
  note grp = group_keys [OF assms(1) g]
  have begun: "beginFirm ?firm = Inr ()" by (rule PlanBatches_begin [OF ok])
  have hd: "hd grp \<in> set ?ready" using grp(1,2) by (auto simp: groupOK_def)
  have "\<exists>submissionID. decodeTransmission (groupXML ?firm grp) = Inr \<lparr>tx_firmID = ?firm,
      tx_clientID = pf_clientID (hd grp), tx_taxYear = ''2025'', tx_utid = groupUTID ?firm grp,
      tx_submissionID = submissionID, tx_records = map wireRecord grp\<rparr>"
    using assms(2) grp hd validateFirm_nonempty [OF begun] by (intro group_decodes) (auto simp: carriable_def)
  moreover have "map fr_recordID (map wireRecord grp) = map fst (map (\<lambda>f. (xd_RecordID (groupDetail f), pf_id f)) grp)"
    by (simp add: wireRecord_def groupDetail_def comp_def)
  ultimately show ?thesis
    using id nextId_pos [of "map b_id (db_batches d)"] begun b carries by (auto simp: payload_ok_def)
qed

lemma plan_payloads:
  assumes "schema_ok d" and "payloads_ok d" and "carriable cmd d" and "PlanBatches now cmd d = (d', r)"
  shows "payloads_ok d'"
proof (cases r)
  case (Inl e)
  with assms show ?thesis by (auto dest: PlanBatches_Inl)
next
  case (Inr res)
  with assms(4) have ok: "PlanBatches now cmd d = (d', Inr res)" by simp
  have kept: "b \<in> set (db_batches d) \<Longrightarrow> batchFilings (b_id b) firm d' = batchFilings (b_id b) firm d" for b firm
    using plan_batchFilings [OF assms(1), of b firm now cmd] ok by simp
  from ok show ?thesis
  proof (cases rule: PlanBatches_Inr)
    case (planned groups base rows links)
    let ?p = "\<lambda>f. f_id f \<in> set (map pf_id (concat groups)) \<and> f_firm f = plan_FirmID cmd \<and> f_state f = FReady"
    have fs: "db_filings d' = map (\<lambda>f. if ?p f then f\<lparr>f_state := FBatched\<rparr> else f) (db_filings d)"
      by (simp add: planned(10))
    show ?thesis unfolding payloads_ok_def
    proof
      fix b assume b: "b \<in> set (db_batches d')"
      show "payload_ok d' b \<and> filings_wait d' b"
      proof (cases "b \<in> set (db_batches d)")
        case True
        with assms(2) have "payload_ok d b" "filings_wait d b" by (simp_all add: payloads_ok_def)
        with kept [OF True] fs payload_ok_kept [of d b b d'] show ?thesis by (auto simp: filings_wait_def)
      next
        case False
        from plan_contents [OF assms(1) ok b this] obtain grp where
          g: "grp \<in> set (groupsFrom (readyFilings (plan_FirmID cmd) (plan_DeterminationID cmd) d) 0)"
          and "b_firm b = plan_FirmID cmd"
          and "batchFilings (b_id b) (plan_FirmID cmd) d' = map (\<lambda>f. (xd_RecordID (groupDetail f), pf_id f)) grp"
          by blast
        then have ids: "snd ` set (batchFilings (b_id b) (b_firm b) d') = pf_id ` set grp" by force
        have "f_state f' = FBatched" if f': "f' \<in> set (db_filings d')" "f_id f' \<in> pf_id ` set grp" for f'
        proof -
          have all: "set (map pf_id (concat groups))
              = f_id ` {f \<in> set (db_filings d). plannable (plan_FirmID cmd) (plan_DeterminationID cmd) d f}"
            unfolding planned(1) by (rule readyFilings_ids)
          have here: "f_id f' \<in> set (map pf_id (concat groups))" using f'(2) g planned(1) by auto
          then obtain h where h: "h \<in> set (db_filings d)" "f_id h = f_id f'" "f_firm h = plan_FirmID cmd" "f_state h = FReady"
            unfolding all by (auto simp: plannable_def)
          from f'(1) obtain f where f: "f \<in> set (db_filings d)" "f' = (if ?p f then f\<lparr>f_state := FBatched\<rparr> else f)"
            unfolding fs set_map by (rule imageE)
          have "filing_table_ok (db_filings d)" using assms(1) by (simp add: schema_ok_def)
          moreover have "f_id f = f_id h" using f(2) h(2) by (simp split: if_splits)
          ultimately have "f = h" using filing_ids_unique f(1) h(1) by blast
          with f(2) h here show ?thesis by auto
        qed
        with ids planned_payload [OF assms(1,3) ok b False] show ?thesis by (simp add: filings_wait_def)
      qed
    qed
  qed (use assms in simp)
qed

lemma quiet_payloads:
  assumes "schema_ok d" and "payloads_ok d" and "quiet d op"
  shows "payloads_ok (storeStep op d)"
proof (cases op)
  case (OpPlan now cmd)
  with assms plan_payloads show ?thesis by (metis prod.collapse quiet.simps(3) storeStep.simps(3))
qed (use assms step_payloads in \<open>metis plans.simps\<close>)+

lemma claim_payloads:
  "schema_ok d \<Longrightarrow> payloads_ok d \<Longrightarrow> ClaimNextBatch now locked entropy cmd d = (d', r) \<Longrightarrow> payloads_ok d'"
  using step_payloads [of d "OpClaim now locked entropy cmd"] by simp

lemma event_payloads:
  "schema_ok d \<Longrightarrow> payloads_ok d \<Longrightarrow> applyEvent t1 t2 c ev d = (d', r) \<Longrightarrow> payloads_ok d'"
  using step_payloads [of d "OpEvent t1 t2 c ev"] by simp

end
