(* ===== verification/Reconciliation.thy ===== *)
theory Reconciliation
  imports Payloads Ledger_Sample
begin

text \<open>
  Books that balance both ways. The ledger theorem says that the database claims nothing the IRS
  does not hold; here the converse: whatever the IRS holds is the transmission of one batch of the
  database, with exactly that batch's filings, and every receipt of a batch is the IRS's receipt of
  that very transmission.
\<close>

section \<open>What is known of what\<close>

text \<open>Work that was handed out is the work of a batch.\<close>

definition tracked :: "db \<Rightarrow> BatchWork \<Rightarrow> bool" where
  "tracked d w \<longleftrightarrow> (\<exists>b \<in> set (db_batches d). b_id b = c_batchID (w_Claim w) \<and> b_firm b = c_firmID (w_Claim w)
     \<and> b_firm b = w_FirmID w \<and> b_utid b = w_UTID w \<and> b_xml b = w_CanonicalXML w)"

definition holdsReceipt :: "irs_store \<Rightarrow> string \<Rightarrow> string \<Rightarrow> string \<Rightarrow> bool" where
  "holdsReceipt irs firmID utid r \<longleftrightarrow> (\<exists>x. findByUTID firmID utid irs = Some x \<and> sub_receiptID x = r)"

definition plan_known :: "irs_store \<Rightarrow> db \<Rightarrow> Claim \<times> lifecycle_event \<Rightarrow> bool" where
  "plan_known irs d p \<longleftrightarrow> (\<forall>r. eventReceipt (snd p) = Some r \<longrightarrow>
     (\<exists>b \<in> set (db_batches d). b_id b = c_batchID (fst p) \<and> b_firm b = c_firmID (fst p)
        \<and> holdsReceipt irs (b_firm b) (b_utid b) r))"

definition receipt_known :: "irs_store \<Rightarrow> batch_row \<Rightarrow> bool" where
  "receipt_known irs b \<longleftrightarrow> (\<forall>r. b_receipt b = Some r \<longrightarrow> holdsReceipt irs (b_firm b) (b_utid b) r)"

definition batchOf :: "db \<Rightarrow> submission \<Rightarrow> batch_row \<Rightarrow> bool" where
  "batchOf d x b \<longleftrightarrow> b_client b = sub_clientID x \<and> sub_taxYear x = ''2025''
     \<and> map rr_recordID (sub_results x) = map fst (batchFilings (b_id b) (b_firm b) d)"

definition recorded_known :: "irs_store \<Rightarrow> db \<Rightarrow> bool" where
  "recorded_known irs d \<longleftrightarrow> (\<forall>firmID u x. findByUTID firmID u irs = Some x \<longrightarrow>
     (\<exists>b \<in> set (db_batches d). b_firm b = firmID \<and> b_utid b = u \<and> batchOf d x b))"

section \<open>Steps of the store\<close>

definition carriesOver :: "db \<Rightarrow> db \<Rightarrow> bool" where
  "carriesOver d d' \<longleftrightarrow> (\<forall>b \<in> set (db_batches d). \<exists>b' \<in> set (db_batches d'). payloadKey b' = payloadKey b
     \<and> batchFilings (b_id b) (b_firm b) d' = batchFilings (b_id b) (b_firm b) d)"

lemma storeStep_carries:
  assumes "schema_ok d"
  shows "carriesOver d (storeStep op d)"
  unfolding carriesOver_def
proof
  fix b assume b: "b \<in> set (db_batches d)"
  with storeStep_evolves [OF assms, of op] obtain b' where "b' \<in> set (db_batches (storeStep op d))" "rowEvolves b b'"
    by (auto simp: batchesEvolve_def)
  with batchFilings_kept [OF assms b] show "\<exists>b' \<in> set (db_batches (storeStep op d)). payloadKey b' = payloadKey b
     \<and> batchFilings (b_id b) (b_firm b) (storeStep op d) = batchFilings (b_id b) (b_firm b) d"
    by (auto simp: rowEvolves_def payloadKey_def)
qed

lemma claim_carries: "schema_ok d \<Longrightarrow> ClaimNextBatch now locked entropy cmd d = (d', r) \<Longrightarrow> carriesOver d d'"
  using storeStep_carries [of d "OpClaim now locked entropy cmd"] by simp

lemma event_carries: "schema_ok d \<Longrightarrow> applyEvent t1 t2 c ev d = (d', r) \<Longrightarrow> carriesOver d d'"
  using storeStep_carries [of d "OpEvent t1 t2 c ev"] by simp

lemma carries_known:
  assumes "carriesOver d d'"
  shows "tracked d w \<Longrightarrow> tracked d' w" "plan_known irs d p \<Longrightarrow> plan_known irs d' p"
    "recorded_known irs d \<Longrightarrow> recorded_known irs d'"
proof -
  show "tracked d w \<Longrightarrow> tracked d' w"
    using assms by (fastforce simp: tracked_def carriesOver_def payloadKey_def)
  show "plan_known irs d p \<Longrightarrow> plan_known irs d' p"
    using assms by (fastforce simp: plan_known_def carriesOver_def payloadKey_def)
  assume known: "recorded_known irs d"
  show "recorded_known irs d'"
    unfolding recorded_known_def
  proof (intro allI impI)
    fix firmID u x assume "findByUTID firmID u irs = Some x"
    with known obtain b where b: "b \<in> set (db_batches d)" "b_firm b = firmID" "b_utid b = u" "batchOf d x b"
      unfolding recorded_known_def by blast
    from assms b(1) obtain b' where "b' \<in> set (db_batches d')" "payloadKey b' = payloadKey b"
      "batchFilings (b_id b) (b_firm b) d' = batchFilings (b_id b) (b_firm b) d"
      by (auto simp: carriesOver_def)
    with b show "\<exists>b \<in> set (db_batches d'). b_firm b = firmID \<and> b_utid b = u \<and> batchOf d' x b"
      by (intro bexI [of _ b']) (auto simp: payloadKey_def batchOf_def)
  qed
qed

definition receipts_known :: "irs_store \<Rightarrow> db \<Rightarrow> bool" where
  "receipts_known irs d \<longleftrightarrow> (\<forall>b \<in> set (db_batches d). receipt_known irs b)"

lemma receipts_known_update:
  assumes "receipts_known irs d" and "updateBatches p u d = Inr (d', n)"
    and "\<And>b. b \<in> set (db_batches d) \<Longrightarrow> receipt_known irs b \<Longrightarrow> p b \<Longrightarrow> receipt_known irs (u b)"
  shows "receipts_known irs d'"
  using assms updateBatches_Inr(1) [OF assms(2)] by (auto simp: receipts_known_def)

lemma claim_receipts_known:
  assumes "receipts_known irs d" and "ClaimNextBatch now locked entropy cmd d = (d', r)"
  shows "receipts_known irs d'"
proof -
  have row: "receipt_known irs b \<Longrightarrow> receipt_known irs (claimRow now w l token b)" for b w l token
    by (simp add: receipt_known_def claimRow_def)
  have row2: "receipt_known irs b \<Longrightarrow> receipt_known irs (hashMismatchRow b)" for b
    by (simp add: receipt_known_def hashMismatchRow_def)
  from assms(2) show ?thesis
  proof (cases rule: ClaimNextBatch_cases)
    case (claimed b token action)
    show ?thesis by (rule receipts_known_update [OF assms(1) claimed(4) row])
  next
    case (mismatch b token d1 n)
    have "receipts_known irs d1" by (rule receipts_known_update [OF assms(1) mismatch(3) row])
    then show ?thesis by (rule receipts_known_update [OF _ mismatch(4) row2])
  qed (use assms(1) in simp)
qed

lemma eventUpdate_receipt_from:
  "b_receipt (eventUpdate t1 ev b) = Some r \<Longrightarrow> b_receipt b = Some r \<or> eventReceipt ev = Some r"
  by (cases ev) (auto simp: eventRow_def statusRetryRow_def acknowledgedRow_def terminalRow_def split: if_splits)

lemma event_receipts_known:
  assumes "schema_ok d" and "receipts_known irs d" and "plan_known irs d (c, ev)" and "applyEvent t1 t2 c ev d = (d', r)"
  shows "receipts_known irs d'"
proof (cases r)
  case (Inl e)
  with assms show ?thesis by (auto dest: applyEvent_Inl)
next
  case (Inr u)
  with assms(4) have "applyEvent t1 t2 c ev d = (d', Inr ())" by simp
  then obtain d1 where d1: "db_batches d1 = db_batches d"
    and u: "updateBatches (claimRowOf t1 c (eventStates ev)) (eventUpdate t1 ev) d1 = Inr (d', 1)"
    by (rule applyEvent_Inr)
  have dist: "distinct (map b_id (db_batches d))" using assms(1) by (simp add: schema_ok_def batch_table_ok_def)
  have new: "receipt_known irs (eventUpdate t1 ev b)"
    if b: "b \<in> set (db_batches d)" "receipt_known irs b" "claimRowOf t1 c (eventStates ev) b" for b
  proof -
    have "holdsReceipt irs (b_firm b) (b_utid b) q" if "eventReceipt ev = Some q" for q
    proof -
      from assms(3) that obtain x where x: "x \<in> set (db_batches d)" "b_id x = c_batchID c" "holdsReceipt irs (b_firm x) (b_utid x) q"
        by (auto simp: plan_known_def)
      moreover have "b_id b = c_batchID c" using b(3) by (simp add: claimRowOf_def claimedBy_def)
      ultimately have "x = b" using unique_row [OF dist x(1) b(1)] by simp
      with x(3) show ?thesis by simp
    qed
    with b(2) eventUpdate_receipt_from show ?thesis by (fastforce simp: receipt_known_def eventUpdate_utid)
  qed
  from assms(2) d1 have "receipts_known irs d1" by (simp add: receipts_known_def)
  then show ?thesis by (rule receipts_known_update [OF _ u]) (use new d1 in simp)
qed

lemma quiet_receipts_known:
  assumes "receipts_known irs d" and "quiet d op"
  shows "receipts_known irs (storeStep op d)"
proof (cases op)
  case (OpPlan now cmd)
  obtain new where "db_batches (fst (PlanBatches now cmd d)) = db_batches d @ new"
    "\<forall>b \<in> set new. b_state b = BPlanned \<and> b_token b = None \<and> b_receipt b = None \<and> b_firm b = plan_FirmID cmd"
    by (rule PlanBatches_batches)
  with assms(1) OpPlan show ?thesis by (auto simp: receipts_known_def receipt_known_def)
qed (use assms in \<open>simp_all add: receipts_known_def other_batches\<close>)

section \<open>Steps that reach the stub\<close>

lemma holdsReceipt_kept:
  "holdsReceipt irs firmID u r \<Longrightarrow> (\<And>f u x. findByUTID f u irs = Some x \<Longrightarrow> findByUTID f u irs' = Some x)
     \<Longrightarrow> holdsReceipt irs' firmID u r"
  unfolding holdsReceipt_def by blast

lemma irs_known_kept:
  assumes "\<And>f u x. findByUTID f u irs = Some x \<Longrightarrow> findByUTID f u irs' = Some x"
  shows "plan_known irs d p \<Longrightarrow> plan_known irs' d p" "receipts_known irs d \<Longrightarrow> receipts_known irs' d"
  using holdsReceipt_kept [OF _ assms] unfolding plan_known_def receipts_known_def receipt_known_def by blast+

text \<open>Work the stub's handler decodes, as the batch's payload decodes.\<close>

lemma tracked_decodes:
  assumes "payloads_ok d" and "tracked d w"
  obtains b t where "b \<in> set (db_batches d)" "b_id b = c_batchID (w_Claim w)" "b_firm b = c_firmID (w_Claim w)"
    "b_firm b = w_FirmID w" "b_utid b = w_UTID w" "decodeTransmission (w_CanonicalXML w) = Inr t"
    "tx_firmID t = b_firm b" "tx_clientID t = b_client b" "tx_taxYear t = ''2025''" "tx_utid t = b_utid b"
    "map fr_recordID (tx_records t) = map fst (batchFilings (b_id b) (b_firm b) d)"
proof -
  from assms(2) obtain b where b: "b \<in> set (db_batches d)" "b_id b = c_batchID (w_Claim w)" "b_firm b = c_firmID (w_Claim w)"
    "b_firm b = w_FirmID w" "b_utid b = w_UTID w" "b_xml b = w_CanonicalXML w" by (auto simp: tracked_def)
  with assms(1) have "payload_ok d b" by (simp add: payloads_ok_def)
  with b that show thesis unfolding payload_ok_def by auto
qed

lemma handled_intake:
  assumes "cl_token cl = ic_BearerToken (st_config irs)" and "decodeTransmission payload = Inr t" and "blocks16 (env_blocks env)"
    and "handleIntake describe env (submitRequest cl payload) irs = Some (irs', reply)"
  obtains answer where "storeRecord env t irs = Some (irs', answer)" "clientSubmit (Some reply) = Inr (submitMeaning answer)"
proof -
  have "payload \<noteq> []" using assms(2) decodeTransmission_Nil by auto
  with assms(1,2,4) obtain answer where answer: "storeRecord env t irs = Some (irs', answer)"
    by (auto simp: handleIntake_def readMultipartXML_def submitRequest_def clientRequest_def authorized_def)
  from intake_reads [OF assms(1-3) answer, of describe] assms(4) answer that show thesis by auto
qed

text \<open>What an intake call leaves under the UTID when it names a receipt.\<close>

lemma recorded_results:
  assumes "submissionKeys x = map (originalKey t) rs"
  shows "map rr_recordID (sub_results x) = map fr_recordID rs"
proof -
  from assms have "map (\<lambda>k. snd (snd (snd k))) (submissionKeys x) = map (\<lambda>k. snd (snd (snd k))) (map (originalKey t) rs)" by simp
  then show ?thesis by (simp add: submissionKeys_def originalKey_def comp_def)
qed

lemma intake_known:
  assumes "recorded_known irs d" and "storeRecord env t irs = Some (irs', answer)"
    and b: "b \<in> set (db_batches d)" "tx_firmID t = b_firm b" "tx_clientID t = b_client b" "tx_taxYear t = ''2025''"
      "tx_utid t = b_utid b" "map fr_recordID (tx_records t) = map fst (batchFilings (b_id b) (b_firm b) d)"
  shows "recorded_known irs' d" "sr_StatusCode (submitMeaning answer) = 200 \<Longrightarrow>
    holdsReceipt irs' (b_firm b) (b_utid b) (sr_ReceiptID (submitMeaning answer))"
proof -
  have "recorded_known irs' d \<and> (sr_StatusCode (submitMeaning answer) = 200 \<longrightarrow>
    holdsReceipt irs' (b_firm b) (b_utid b) (sr_ReceiptID (submitMeaning answer)))"
    using assms(2)
  proof (cases rule: storeRecord_cases)
    case same
    with assms(1) show ?thesis by (auto simp: submitMeaning_def)
  next
    case (new x fault ids)
    from new(5) obtain xs where x: "x = recordedSubmission env (st_config irs) t (sub_receiptID x) xs" by blast
    have client: "sub_clientID x = tx_clientID t" "sub_taxYear x = tx_taxYear t"
      using arg_cong [OF x, of sub_clientID] arg_cong [OF x, of sub_taxYear] by (simp_all only: recordedSubmission_simps)
    have "map rr_recordID (sub_results x) = map fr_recordID (tx_records t)"
      using new(3) recorded_results by (simp add: newSubmission_def)
    with client b have here: "batchOf d x b" by (simp add: batchOf_def)
    have found: "findByUTID f u irs' = (if (f, u) = (b_firm b, b_utid b) then Some x else findByUTID f u irs)" for f u
      using new(4) b by (simp add: findByUTID_def)
    have "recorded_known irs' d"
      using assms(1) here b(1) unfolding recorded_known_def found by (auto split: if_splits)
    moreover have "holdsReceipt irs' (b_firm b) (b_utid b) (sub_receiptID x)" unfolding holdsReceipt_def found by simp
    ultimately show ?thesis using new(1,2) by (cases fault) (auto simp: submitMeaning_def)
  qed
  then show "recorded_known irs' d" "sr_StatusCode (submitMeaning answer) = 200 \<Longrightarrow>
    holdsReceipt irs' (b_firm b) (b_utid b) (sr_ReceiptID (submitMeaning answer))" by auto
qed

lemma submitPlan_receipt:
  "eventReceipt (snd (submitPlan bo w reply)) = Some r \<Longrightarrow> \<exists>q. reply = Inr q \<and> sr_StatusCode q = 200 \<and> sr_ReceiptID q = r"
  by (auto simp: submitPlan_def retrySubmit_def Let_def split: sum.splits call_error.splits if_splits prod.splits)

lemma statusPlan_receipt:
  "eventReceipt (snd (statusPlan bo w searchType (Inr (statusMeaning now found)))) = Some r \<Longrightarrow>
     searchType = SearchUTID \<and> (\<exists>x. found = Some x \<and> sub_receiptID x = r)"
  by (cases found) (auto simp: statusPlan_def statusMeaning_def retryStatus_def Let_def split: if_splits prod.splits)

lemma lost_receipt:
  "plan \<in> {snd (submitPlan bo w (clientSubmit None)), snd (statusPlan bo w searchType (clientStatus None))} \<Longrightarrow>
     eventReceipt plan = None"
  by (auto simp: submitPlan_def statusPlan_def retrySubmit_def retryStatus_def clientSubmit_def clientStatus_def
      split: if_splits prod.splits)

section \<open>The books balance\<close>

definition books_ok :: "IrsConfig \<Rightarrow> sys \<Rightarrow> bool" where
  "books_ok config s \<longleftrightarrow> sys_inv config s \<and> receipts_ok (sy_db s) \<and> payloads_ok (sy_db s)
     \<and> (\<forall>w \<in> sy_work s. tracked (sy_db s) w) \<and> (\<forall>p \<in> sy_plans s. plan_known (sy_irs s) (sy_db s) p)
     \<and> receipts_known (sy_irs s) (sy_db s) \<and> recorded_known (sy_irs s) (sy_db s)"

lemma books_okD:
  assumes "books_ok config s"
  shows "sys_inv config s" "receipts_ok (sy_db s)" "payloads_ok (sy_db s)" "w \<in> sy_work s \<Longrightarrow> tracked (sy_db s) w"
    "p \<in> sy_plans s \<Longrightarrow> plan_known (sy_irs s) (sy_db s) p" "receipts_known (sy_irs s) (sy_db s)"
    "recorded_known (sy_irs s) (sy_db s)"
  using assms by (auto simp: books_ok_def)

lemma claim_tracked:
  assumes "ClaimNextBatch now locked entropy cmd d = (d', r)" and "w \<in> handedOut r"
  shows "tracked d' w"
  using assms(1)
proof (cases rule: ClaimNextBatch_cases)
  case (claimed b token action)
  from claimed_holds [OF claimed(1,4)] claimed(7) assms(2) show ?thesis
    unfolding tracked_def
    by (intro bexI [of _ "claimRow now (clm_WorkerID cmd) (Microseconds (clm_LeaseDuration cmd)) token b"])
      (auto simp: handedOut_def claimWork_def NewStoreClaim_def claimRow_def)
qed (use assms(2) in \<open>auto simp: handedOut_def\<close>)

lemma step_books:
  assumes "books_ok config s" and "sys_step cl bo describe s s'" and "cl_token cl = ic_BearerToken config"
  shows "books_ok config s'"
  using assms(2)
proof (cases rule: sys_step.cases)
  note books = books_okD [OF assms(1)]
  note inv = sys_invD [OF books(1)]
  have inv': "sys_inv config s'" by (rule sys_step_inv [OF books(1) assms(2,3)])
  have token: "cl_token cl = ic_BearerToken (st_config (sy_irs s))"
    using assms(3) intake_reachable_config [OF inv(4)] by simp
  {
    case (operate op)
    with inv' books carries_known [OF storeStep_carries [OF inv(1), of op]] storeStep_receipts [of "sy_db s" op]
      quiet_payloads [OF inv(1), of op] quiet_receipts_known [of "sy_irs s" "sy_db s" op]
    show ?thesis by (simp add: books_ok_def)
  next
    case (claim now locked entropy cmd d' r)
    with inv' books carries_known [OF claim_carries [OF inv(1) claim(2)]] claim_tracked [OF claim(2)]
      storeStep_receipts [of "sy_db s" "OpClaim now locked entropy cmd"] claim_payloads [OF inv(1) _ claim(2)]
      claim_receipts_known [OF _ claim(2)]
    show ?thesis by (auto simp: books_ok_def)
  next
    case (lost w plan searchType)
    with inv' books lost_receipt [OF lost(3)] show ?thesis by (auto simp: books_ok_def plan_known_def)
  next
    case (submitted w env irs' reply got)
    have kept: "findByUTID f u (sy_irs s) = Some x \<Longrightarrow> findByUTID f u irs' = Some x" for f u x
      by (rule submitted_ok(3) [OF inv(4) token inv(3) [OF submitted(2)] submitted(3-5)])
    from tracked_decodes [OF books(3) books(4) [OF submitted(2)]] obtain b t where
      b: "b \<in> set (db_batches (sy_db s))" "b_id b = c_batchID (w_Claim w)" "b_firm b = c_firmID (w_Claim w)"
      and t: "decodeTransmission (w_CanonicalXML w) = Inr t" "tx_firmID t = b_firm b" "tx_clientID t = b_client b"
        "tx_taxYear t = ''2025''" "tx_utid t = b_utid b"
        "map fr_recordID (tx_records t) = map fst (batchFilings (b_id b) (b_firm b) (sy_db s))"
      by metis
    obtain answer where answer: "storeRecord env t (sy_irs s) = Some (irs', answer)"
      "clientSubmit (Some reply) = Inr (submitMeaning answer)"
      by (rule handled_intake [OF token t(1) submitted(3,4)])
    note known = intake_known [OF books(7) answer(1) b(1) t(2-6)]
    have "plan_known irs' (sy_db s) (w_Claim w, snd (submitPlan bo w (clientSubmit got)))"
      unfolding plan_known_def
    proof (intro allI impI)
      fix r assume "eventReceipt (snd (w_Claim w, snd (submitPlan bo w (clientSubmit got)))) = Some r"
      then obtain q where "clientSubmit got = Inr q" "sr_StatusCode q = 200" "sr_ReceiptID q = r"
        using submitPlan_receipt by fastforce
      with submitted(5) answer(2) known(2) have "holdsReceipt irs' (b_firm b) (b_utid b) r"
        by (auto simp: clientSubmit_def)
      with b show "\<exists>b \<in> set (db_batches (sy_db s)). b_id b = c_batchID (fst (w_Claim w, snd (submitPlan bo w (clientSubmit got))))
          \<and> b_firm b = c_firmID (fst (w_Claim w, snd (submitPlan bo w (clientSubmit got)))) \<and> holdsReceipt irs' (b_firm b) (b_utid b) r"
        by auto
    qed
    with inv' books known(1) irs_known_kept [OF kept] submitted(1) show ?thesis by (auto simp: books_ok_def)
  next
    case (asked w searchType v reply now)
    from books(4) [OF asked(2)] obtain b where
      b: "b \<in> set (db_batches (sy_db s))" "b_id b = c_batchID (w_Claim w)" "b_firm b = c_firmID (w_Claim w)"
        "b_firm b = w_FirmID w" "b_utid b = w_UTID w" by (auto simp: tracked_def)
    have "plan_known (sy_irs s) (sy_db s) (w_Claim w, snd (statusPlan bo w searchType (clientStatus (Some reply))))"
      unfolding plan_known_def fst_conv snd_conv asked(6) asked_reads [OF inv(4) token inv(3) [OF asked(2)] asked(3,5)]
    proof (intro allI impI)
      fix r assume "eventReceipt (snd (statusPlan bo w searchType (Inr (statusMeaning now (foundBy searchType (w_FirmID w) v (sy_irs s)))))) = Some r"
      from statusPlan_receipt [OF this] obtain x where "searchType = SearchUTID" "findByUTID (w_FirmID w) v (sy_irs s) = Some x"
        "sub_receiptID x = r" by (auto simp: foundBy_def)
      with asked(3) b show "\<exists>b \<in> set (db_batches (sy_db s)). b_id b = c_batchID (w_Claim w) \<and> b_firm b = c_firmID (w_Claim w)
          \<and> holdsReceipt (sy_irs s) (b_firm b) (b_utid b) r"
        by (intro bexI [of _ b]) (auto simp: holdsReceipt_def)
    qed
    with inv' books asked(1) show ?thesis by (auto simp: books_ok_def)
  next
    case (give_up w code)
    with inv' books show ?thesis by (auto simp: books_ok_def plan_known_def)
  next
    case (record_event c ev t1 t2 d' r)
    with inv' books carries_known [OF event_carries [OF inv(1) record_event(3)]]
      storeStep_receipts [of "sy_db s" "OpEvent t1 t2 c ev"] event_payloads [OF inv(1) _ record_event(3)]
      event_receipts_known [OF inv(1) _ _ record_event(3)]
    show ?thesis by (auto simp: books_ok_def)
  }
qed

lemma start_books: "unfiled d \<Longrightarrow> books_ok config (sys_start config d)"
  using sys_start_inv [of d config]
  by (auto simp: books_ok_def unfiled_def sys_start_def receipts_ok_def payloads_ok_def receipts_known_def recorded_known_def
      newStore_def findByUTID_def)

lemma books_always:
  assumes "sys_reachable config cl bo describe s" and "cl_token cl = ic_BearerToken config"
  shows "books_ok config s"
proof -
  from assms(1) obtain d where "unfiled d" and run: "(sys_step cl bo describe)\<^sup>*\<^sup>* (sys_start config d) s"
    by (auto simp: sys_reachable_def)
  from run show ?thesis
  proof (induction rule: rtranclp_induct)
    case (step y z)
    with step_books assms(2) show ?case by blast
  qed (rule start_books [OF \<open>unfiled d\<close>])
qed

text \<open>C3. The books balance: in every state the system reaches, with workers crashing, repeating
  themselves and losing messages, each submission the IRS holds is the transmission of exactly one batch
  of the database, with that batch's client and precisely its filings in their order, and each receipt
  the database shows for a batch is the receipt of that very submission. Nothing is submitted that the
  database does not know, and no receipt is attached to the wrong batch.\<close>

theorem books_balance:
  assumes "sys_reachable config cl bo describe s" and "cl_token cl = ic_BearerToken config"
  shows "(\<forall>firmID u x. findByUTID firmID u (sy_irs s) = Some x \<longrightarrow>
      (\<exists>!b. b \<in> set (db_batches (sy_db s)) \<and> b_firm b = firmID \<and> b_utid b = u \<and> b_client b = sub_clientID x
        \<and> map rr_recordID (sub_results x) = map fst (batchFilings (b_id b) firmID (sy_db s))))
    \<and> (\<forall>b r. b \<in> set (db_batches (sy_db s)) \<longrightarrow> b_receipt b = Some r \<longrightarrow>
      (\<exists>x. findByUTID (b_firm b) (b_utid b) (sy_irs s) = Some x \<and> sub_receiptID x = r))"
proof (intro conjI allI impI)
  note books = books_okD [OF books_always [OF assms]]
  note inv = sys_invD [OF books(1)]
  have inj: "inj_on (\<lambda>b. (b_firm b, b_utid b)) (set (db_batches (sy_db s)))"
    using inv(1) by (simp add: schema_ok_def batch_table_ok_def distinct_map)
  fix firmID u x assume "findByUTID firmID u (sy_irs s) = Some x"
  with books(7) obtain b where "b \<in> set (db_batches (sy_db s))" "b_firm b = firmID" "b_utid b = u" "batchOf (sy_db s) x b"
    unfolding recorded_known_def by blast
  with inj show "\<exists>!b. b \<in> set (db_batches (sy_db s)) \<and> b_firm b = firmID \<and> b_utid b = u \<and> b_client b = sub_clientID x
        \<and> map rr_recordID (sub_results x) = map fst (batchFilings (b_id b) firmID (sy_db s))"
    by (intro ex1I [of _ b]) (auto simp: batchOf_def dest: inj_onD)
next
  fix b r assume "b \<in> set (db_batches (sy_db s))" "b_receipt b = Some r"
  with books_okD(6) [OF books_always [OF assms]] show "\<exists>x. findByUTID (b_firm b) (b_utid b) (sy_irs s) = Some x \<and> sub_receiptID x = r"
    by (auto simp: receipts_known_def receipt_known_def holdsReceipt_def)
qed

section \<open>Witness\<close>

text \<open>The worker of the sample run crashes after its submission arrived: the reply is lost.\<close>

lemma run_crashed:
  obtains t W P where "tx_firmID t = ''acme''" "tx_utid t = groupUTID ''acme'' sampleGroup"
    "sys_reachable sampleConfig sampleCl sampleBackoff (\<lambda>e. ''bad'')
       \<lparr>sy_db = runDb claimed1 batchedFiling, sy_irs = runIrs t, sy_work = W, sy_plans = P\<rparr>"
proof -
  obtain t where t: "decodeTransmission (groupXML ''acme'' sampleGroup) = Inr t"
    "tx_records t = [wireRecord (scanFiling sampleFiling)]" "tx_firmID t = ''acme''" "tx_utid t = groupUTID ''acme'' sampleGroup"
    using sampleGroup_decodes by blast
  have "runs_here {} {} (sampleDb, newStore sampleConfig) {} {} (runDb sampleRow batchedFiling, newStore sampleConfig)"
    using runs_operate [of sampleDb "OpPlan 0 samplePlan"] sample_carriable run_planned by simp
  also have "runs_here {} {} (runDb sampleRow batchedFiling, newStore sampleConfig) {work1} {} (runDb claimed1 batchedFiling, newStore sampleConfig)"
    by (rule runs_claim [OF run_claimed1])
  also note run_submits [OF t(1,2)]
  finally have run: "\<exists>W P. runs_here {} {} (sampleDb, newStore sampleConfig) W P (runDb claimed1 batchedFiling, runIrs t)" by blast
  have "unfiled sampleDb" using sampleDb_ok by (simp add: unfiled_def) (simp add: sampleDb_def sampleFiling_def)
  with run that t show thesis by (auto simp: sys_reachable_def sys_start_def runs_def)
qed

lemma run_recorded:
  assumes "tx_firmID t = ''acme''" and "tx_utid t = groupUTID ''acme'' sampleGroup"
  shows "findByUTID ''acme'' (groupUTID ''acme'' sampleGroup) (runIrs t) = Some (runSub t)" "\<not> sub_neverAcknowledges (runSub t)"
  using assms runSub_facts(4) [OF assms] by (simp_all add: findByUTID_def runIrs_def acknowledged_at_def)

theorem books_balance_witness:
  "\<exists>(s :: sys) x. findByUTID ''acme'' (groupUTID ''acme'' sampleGroup) (sy_irs s) = Some x
     \<and> map rr_recordID (sub_results x) = map fst (batchFilings 1 ''acme'' (sy_db s)) \<and> sub_results x \<noteq> []"
proof -
  obtain t W P where t: "tx_firmID t = ''acme''" "tx_utid t = groupUTID ''acme'' sampleGroup"
    and reach: "sys_reachable sampleConfig sampleCl sampleBackoff (\<lambda>e. ''bad'')
       \<lparr>sy_db = runDb claimed1 batchedFiling, sy_irs = runIrs t, sy_work = W, sy_plans = P\<rparr>"
    by (rule run_crashed)
  let ?s = "\<lparr>sy_db = runDb claimed1 batchedFiling, sy_irs = runIrs t, sy_work = W, sy_plans = P\<rparr>"
  have "cl_token sampleCl = ic_BearerToken sampleConfig" by (simp add: sampleCl_def sampleConfig_def)
  from books_balance [OF reach this, THEN conjunct1, rule_format, of "''acme''" "groupUTID ''acme'' sampleGroup" "runSub t"]
    run_recorded(1) [OF t] obtain b where "b \<in> set (db_batches (sy_db ?s))"
    "map rr_recordID (sub_results (runSub t)) = map fst (batchFilings (b_id b) ''acme'' (sy_db ?s))" by fastforce
  moreover from this have "b_id b = 1" by (simp add: runDb_def claimed1_def claimRow_def sampleRow_eq)
  ultimately show ?thesis using run_recorded(1) [OF t] runSub_facts(2) [OF t]
    by (intro exI [of _ ?s] exI [of _ "runSub t"]) simp
qed

end
