(* ===== verification/Store_Progress.thy ===== *)
theory Store_Progress
  imports Reconciliation
begin

text \<open>
  What the store does not refuse: a due batch no other transaction holds is claimed, a call permit
  is opened and finished, and a complete acknowledgment of a batch whose filings wait is recorded.
\<close>

section \<open>A due batch is claimed\<close>

definition othersThan :: "batch_row \<Rightarrow> db \<Rightarrow> int list" where
  "othersThan b d = map b_id (filter (\<lambda>x. b_id x \<noteq> b_id b) (db_batches d))"

definition replaceRow :: "batch_row \<Rightarrow> (batch_row \<Rightarrow> batch_row) \<Rightarrow> db \<Rightarrow> db" where
  "replaceRow b u d = d\<lparr>db_batches := map (\<lambda>x. if b_id x = b_id b then u x else x) (db_batches d)\<rparr>"

definition dueAt :: "int \<Rightarrow> batch_row \<Rightarrow> bool" where
  "dueAt now b \<longleftrightarrow> b_next_action_at b \<le> now \<and> (case b_lease_expires b of None \<Rightarrow> True | Some e \<Rightarrow> e \<le> now)"

lemma only_candidate:
  assumes "schema_ok d" and "b \<in> set (db_batches d)" and "\<not> terminalState (b_state b)" and "dueAt now b"
  shows "claimCandidate now (b_firm b) (othersThan b d) (db_batches d) = Some b"
proof -
  have dist: "distinct (map b_id (db_batches d))" using assms(1) by (simp add: schema_ok_def batch_table_ok_def)
  have "claimDue now (b_firm b) (othersThan b d) x \<longleftrightarrow> x = b" if "x \<in> set (db_batches d)" for x
    using that assms(2-4) unique_row [OF dist that assms(2)]
    by (auto simp: claimDue_def othersThan_def dueAt_def terminalState_def)
  then have "filter (claimDue now (b_firm b) (othersThan b d)) (db_batches d) = filter (\<lambda>x. x = b) (db_batches d)"
    by (rule filter_cong [OF refl])
  also have "\<dots> = [b]" using filter_eq_single [of "db_batches d" b] dist assms(2) by (simp add: distinct_map)
  finally show ?thesis by (simp add: claimCandidate_def)
qed

lemma claimRow_ok:
  assumes "batch_row_ok b" and "\<not> terminalState (b_state b)" and "int32 (b_attempts b + 1)"
  shows "batch_row_ok (claimRow now w l token b) \<and> batch_update_ok b (claimRow now w l token b)"
  using assms unfolding batch_row_ok_def batch_update_ok_def claimRow_def terminalState_def
  by (cases "b_state b") (simp_all add: claimState_def receiptStates_def)

lemma update_one:
  assumes "schema_ok d" and "b \<in> set (db_batches d)" and "batch_row_ok (u b) \<and> batch_update_ok b (u b)"
    and "\<And>x. b_id (u x) = b_id x \<and> b_firm (u x) = b_firm x \<and> b_utid (u x) = b_utid x \<and> b_receipt (u x) = b_receipt x"
  shows "updateBatches (\<lambda>r. b_id r = b_id b) u d = Inr (replaceRow b u d, 1)"
proof -
  let ?rows = "map (\<lambda>x. if b_id x = b_id b then u x else x) (db_batches d)"
  have tab: "batch_table_ok (db_batches d)" using assms(1) by (simp add: schema_ok_def)
  then have dist: "distinct (map b_id (db_batches d))" by (simp add: batch_table_ok_def)
  have "map b_id ?rows = map b_id (db_batches d)" "map (\<lambda>b. (b_firm b, b_utid b)) ?rows = map (\<lambda>b. (b_firm b, b_utid b)) (db_batches d)"
    "map b_receipt ?rows = map b_receipt (db_batches d)"
    using assms(4) by simp_all
  with tab have "batch_table_ok ?rows" unfolding batch_table_ok_def by metis
  moreover have "x = b" if "x \<in> set (db_batches d)" "b_id x = b_id b" for x
    using unique_row [OF dist that(1) assms(2) that(2)] .
  with assms(3) have "\<not> list_ex (\<lambda>r. b_id r = b_id b \<and> \<not> batch_update_ok r (u r)) (db_batches d)"
    "\<not> list_ex (\<lambda>r. b_id r = b_id b \<and> \<not> batch_row_ok (u r)) (db_batches d)"
    by (fastforce simp: list_ex_iff)+
  moreover have "filter (\<lambda>r. b_id r = b_id b) (db_batches d) = [b]"
    by (rule filter_unique_key [OF dist assms(2)])
  ultimately show ?thesis by (simp add: updateBatches_def sql_update_def replaceRow_def)
qed

lemma claim_succeeds:
  assumes "schema_ok d" and "b \<in> set (db_batches d)" and "payload_ok d b" and "\<not> terminalState (b_state b)"
    and "int32 (b_attempts b + 1)" and "dueAt now b"
    and "clm_FirmID cmd = b_firm b" "clm_WorkerID cmd \<noteq> ''''" "0 < clm_LeaseDuration cmd"
  shows "ClaimNextBatch now (othersThan b d) (Some entropy) cmd d
    = (replaceRow b (claimRow now (clm_WorkerID cmd) (Microseconds (clm_LeaseDuration cmd)) (hexEncode entropy)) d,
       Inr (Some (claimWork (actionFor (b_state b)) (b_firm b) (hexEncode entropy)
         (claimRow now (clm_WorkerID cmd) (Microseconds (clm_LeaseDuration cmd)) (hexEncode entropy) b))))"
proof -
  let ?u = "claimRow now (clm_WorkerID cmd) (Microseconds (clm_LeaseDuration cmd)) (hexEncode entropy)"
  have row: "batch_row_ok b" using assms(1,2) by (simp add: schema_ok_def)
  have u: "updateBatches (\<lambda>r. b_id r = b_id b) ?u d = Inr (replaceRow b ?u d, 1)"
    by (rule update_one [where u = ?u, OF assms(1,2) claimRow_ok [OF row assms(4,5)]]) (simp add: claimRow_def)
  have "claimAction (claimState (b_state b)) = Inr (actionFor (b_state b))"
    using assms(4) by (cases "b_state b") (auto simp: claimAction_def claimState_def actionFor_def terminalState_def)
  moreover have "length (b_hash b) = 32" using row by (simp add: batch_row_ok_def)
  moreover have "b_xml (?u b) = b_xml b" "b_hash (?u b) = b_hash b" "b_state (?u b) = claimState (b_state b)"
    by (simp_all add: claimRow_def)
  ultimately show ?thesis
    using assms(3,7-9) u only_candidate [OF assms(1,2,4,6)]
    by (simp add: ClaimNextBatch_def newClaimToken_def payload_ok_def Let_def)
qed

section \<open>A call is opened and finished\<close>

text \<open>Only the gates and the call log differ.\<close>

definition besidesCalls :: "db \<Rightarrow> db \<Rightarrow> bool" where
  "besidesCalls d d' \<longleftrightarrow> (\<exists>gs cs. d' = d\<lparr>db_gates := gs, db_calls := cs\<rparr>)"

lemma besidesCalls_intros [simp]:
  "besidesCalls d d" "besidesCalls d (d\<lparr>db_gates := gs\<rparr>)" "besidesCalls d (d\<lparr>db_calls := cs\<rparr>)"
  "besidesCalls d (d\<lparr>db_gates := gs, db_calls := cs\<rparr>)" "besidesCalls d (d\<lparr>db_calls := cs, db_gates := gs\<rparr>)"
  unfolding besidesCalls_def
  by (rule exI [of _ "db_gates d"], rule exI [of _ "db_calls d"], simp,
      rule exI [of _ gs], rule exI [of _ "db_calls d"], simp,
      rule exI [of _ "db_gates d"], rule exI [of _ cs], simp, blast,
      rule exI [of _ gs], rule exI [of _ cs], simp)

lemma besidesCalls_trans:
  assumes "besidesCalls d d1" and "besidesCalls d1 d2"
  shows "besidesCalls d d2"
proof -
  from assms obtain gs cs gs2 cs2 where "d2 = d\<lparr>db_gates := gs, db_calls := cs\<rparr>\<lparr>db_gates := gs2, db_calls := cs2\<rparr>"
    unfolding besidesCalls_def by blast
  then have "d2 = d\<lparr>db_gates := gs2, db_calls := cs2\<rparr>" by simp
  then show ?thesis by simp
qed

lemma permit_opens:
  assumes "schema_ok d" and "b \<in> set (db_batches d)" and "b_firm b \<in> set (db_firms d)"
    and "0 < b_id b" and "beginFirm (b_firm b) = Inr ()" and "operation \<in> {OperationSubmit, OperationStatus}"
  obtains d1 permit where
    "AcquireCallPermit ts \<lparr>acq_FirmID = b_firm b, acq_BatchID = b_id b, acq_Operation = operation\<rparr> d = (d1, Inr permit)"
    "besidesCalls d d1" "schema_ok d1" "cp_firmID permit = b_firm b" "\<not> cp_finished permit" "\<not> cp_released permit"
    "\<exists>l \<in> set (db_calls d1). l_id l = cp_logID permit \<and> l_firm l = b_firm b \<and> l_completed_at l = None \<and> call_row_ok l"
proof -
  let ?cmd = "\<lparr>acq_FirmID = b_firm b, acq_BatchID = b_id b, acq_Operation = operation\<rparr>"
  have valid: "validAcquire ?cmd" using assms(4-6) by (auto simp: validAcquire_def beginFirm_def)
  obtain d0 allowed where g: "openGate ?cmd d = (d0, Inr allowed)" and d0: "besidesCalls d d0"
  proof (cases "b_firm b \<in> set (map g_firm (db_gates d))")
    case True
    then obtain g rest where "filter (\<lambda>g. g_firm g = b_firm b) (db_gates d) = g # rest"
      by (cases "filter (\<lambda>g. g_firm g = b_firm b) (db_gates d)") (auto simp: filter_empty_conv)
    with True valid have "openGate ?cmd d = (d, Inr (allowedAt g))" by (simp add: openGate_def ensureGate_def)
    then show thesis by (rule that) simp
  next
    case False
    then have "filter (\<lambda>g. g_firm g = b_firm b) (db_gates d) = []" by (force simp: filter_empty_conv)
    with False valid assms(3) show thesis
      by (intro that) (auto simp: openGate_def ensureGate_def)
  qed
  have s0: "schema_ok d0" by (rule openGate_schema [OF assms(1) g])
  have in0: "b \<in> set (db_batches d0)" "b_firm b \<in> set (db_firms d0)" using d0 assms(2,3) by (auto simp: besidesCalls_def)
  let ?l = "callRow (fst ts) ?cmd (nextId (map l_id (db_calls d0)))"
  have row: "call_row_ok ?l" using assms(6) by (auto simp: call_row_ok_def callRow_def optIn_def)
  obtain x xs where "filter (\<lambda>x. b_id x = b_id b \<and> b_firm x = b_firm b) (db_batches d0) = x # xs"
    using in0(1) by (cases "filter (\<lambda>x. b_id x = b_id b \<and> b_firm x = b_firm b) (db_batches d0)") (auto simp: filter_empty_conv)
  with row in0(2) obtain d1 where c: "startCall (fst ts) (snd ts) ?cmd d0 = (d1, Inr \<lparr>cp_firmID = b_firm b,
      cp_logID = nextId (map l_id (db_calls d0)), cp_finished = False, cp_released = False\<rparr>)"
    and d1: "besidesCalls d0 d1" "?l \<in> set (db_calls d1)"
    by (auto simp: startCall_def Let_def updateGates_def)
  have "schema_ok d1" by (rule startCall_schema [OF s0 c])
  moreover have "AcquireCallPermit ts ?cmd d = (d1, Inr \<lparr>cp_firmID = b_firm b,
      cp_logID = nextId (map l_id (db_calls d0)), cp_finished = False, cp_released = False\<rparr>)"
    using g c by (simp add: AcquireCallPermit_def)
  moreover have "\<exists>l \<in> set (db_calls d1). l_id l = nextId (map l_id (db_calls d0)) \<and> l_firm l = b_firm b
      \<and> l_completed_at l = None \<and> call_row_ok l"
    by (rule bexI [OF _ d1(2)]) (use row in \<open>simp add: callRow_def\<close>)
  ultimately show thesis
    using that besidesCalls_trans [OF d0 d1(1)] by simp
qed

definition callOK :: "CallResult \<Rightarrow> bool" where
  "callOK res \<longleftrightarrow> cr_Outcome res \<in> set callOutcomes \<and> (cr_HTTPStatus res = 0 \<or> (100 \<le> cr_HTTPStatus res \<and> cr_HTTPStatus res \<le> 599))
     \<and> validFailureCode (cr_ErrorCode res)"

lemma permit_finishes:
  assumes "schema_ok d" and "\<not> cp_finished permit" "\<not> cp_released permit" and "callOK res"
    and l: "l \<in> set (db_calls d)" "l_id l = cp_logID permit" "l_firm l = cp_firmID permit" "l_completed_at l = None" "call_row_ok l"
  obtains permit' d' where "Finish t1 t2 res permit d = (permit', d', Inr ())" "besidesCalls d d'" "schema_ok d'"
proof -
  let ?p = "\<lambda>l. l_id l = cp_logID permit \<and> l_firm l = cp_firmID permit \<and> l_completed_at l = None"
  have dist: "distinct (map l_id (db_calls d))" using assms(1) by (simp add: schema_ok_def)
  have only: "?p x \<longleftrightarrow> x = l" if "x \<in> set (db_calls d)" for x
    using inj_onD [of l_id "set (db_calls d)" x l] dist that l(1-4) by (auto simp: distinct_map)
  have "filter ?p (db_calls d) = filter (\<lambda>x. x = l) (db_calls d)" using only by (rule filter_cong [OF refl])
  then have one: "filter ?p (db_calls d) = [l]"
    using filter_eq_single [of "db_calls d" l] dist l(1) by (simp add: distinct_map)
  have "call_update_ok l (finishedCall t1 res l) \<and> call_row_ok (finishedCall t1 res l)"
    using l(4,5) assms(4)
    by (auto simp: call_update_ok_def finishedCall_def call_row_ok_def callOK_def callOutcomes_def optIn_def nullIfZero_def)
  then have "\<not> list_ex (\<lambda>r. ?p r \<and> \<not> call_update_ok r (finishedCall t1 res r)) (db_calls d)"
    "\<not> list_ex (\<lambda>r. ?p r \<and> \<not> call_row_ok (finishedCall t1 res r)) (db_calls d)"
    using only unfolding list_ex_iff by blast+
  with one have "sql_update call_update_ok call_row_ok (\<lambda>_. True) ?p (finishedCall t1 res) (db_calls d)
      = Inr (map (\<lambda>r. if ?p r then finishedCall t1 res r else r) (db_calls d), 1)"
    by (simp add: sql_update_def)
  moreover have "0 \<le> cr_HTTPStatus res" "cr_HTTPStatus res \<le> 599" using assms(4) by (auto simp: callOK_def)
  ultimately obtain permit' d' where f: "Finish t1 t2 res permit d = (permit', d', Inr ())"
    using assms(2-4) by (auto simp: Finish_def callOK_def)
  moreover have "besidesCalls d d'" by (rule Finish_Inr [OF f]) (simp add: updateGates_def)
  ultimately show thesis using that Finish_schema [OF assms(1) f] by blast
qed

section \<open>A complete acknowledgment is recorded\<close>

lemma settle_one:
  assumes "filing_table_ok fs" and "\<forall>f \<in> set fs. filing_row_ok f" and "f \<in> set fs"
    and "f_firm f = firmID" "f_state f = FBatched" and "validOutcome outcome"
  shows "sql_update filing_update_ok filing_row_ok filing_table_ok
      (\<lambda>g. f_id g = f_id f \<and> f_firm g = firmID \<and> f_state g = FBatched) (outcomeRow t outcome) fs
    = Inr (map (\<lambda>g. if g = f then outcomeRow t outcome g else g) fs, 1)"
proof -
  let ?p = "\<lambda>g. f_id g = f_id f \<and> f_firm g = firmID \<and> f_state g = FBatched"
  let ?rows = "map (\<lambda>g. if g = f then outcomeRow t outcome g else g) fs"
  have only: "?p g \<longleftrightarrow> g = f" if "g \<in> set fs" for g
    using filing_ids_unique [OF assms(1) that assms(3)] assms(4,5) by auto
  have rows: "map (\<lambda>g. if ?p g then outcomeRow t outcome g else g) fs = ?rows" using only by simp
  have ok: "filing_update_ok f (outcomeRow t outcome f)" "filing_row_ok (outcomeRow t outcome f)"
    using assms(2,3,5,6)
    by (auto simp: filing_update_ok_def filing_row_ok_def outcomeRow_def validOutcome_def isRejectionReason_def optIn_def
        preflightReasons_def)
  have "map f_id ?rows = map f_id fs" "map f_key ?rows = map f_key fs"
    "map (\<lambda>f. (f_firm f, f_client f, f_tax_year f, f_vendor_identity f)) ?rows
      = map (\<lambda>f. (f_firm f, f_client f, f_tax_year f, f_vendor_identity f)) fs"
    by (simp_all add: outcomeRow_def)
  with assms(1) have "filing_table_ok ?rows" unfolding filing_table_ok_def by metis
  moreover have "distinct fs" using assms(1) by (simp add: filing_table_ok_def distinct_map)
  then have "filter (\<lambda>g. g = f) fs = [f]" using assms(3) filter_eq_single [of fs f] by simp
  then have "filter ?p fs = [f]" using only filter_cong [OF refl, of fs ?p "\<lambda>g. g = f"] by simp
  moreover have "\<not> list_ex (\<lambda>r. ?p r \<and> \<not> filing_update_ok r (outcomeRow t outcome r)) fs"
    "\<not> list_ex (\<lambda>r. ?p r \<and> \<not> filing_row_ok (outcomeRow t outcome r)) fs"
    using only ok unfolding list_ex_iff by blast+
  ultimately show ?thesis by (simp add: sql_update_def rows)
qed

lemma settleOutcomes_lands:
  assumes "filing_table_ok fs" and "\<forall>f \<in> set fs. filing_row_ok f" and "inj_on snd (set expected)"
    and "\<And>outcome. outcome \<in> set os \<Longrightarrow> validOutcome outcome \<and> (\<exists>f \<in> set fs.
          map_of (rev expected) (FilingKey outcome) = Some (f_id f) \<and> f_firm f = firmID \<and> f_state f = FBatched)"
    and "distinct (map FilingKey os)" and "set (map FilingKey os) \<inter> set seen = {}"
  shows "\<exists>fs'. settleOutcomes t firmID expected seen os fs = Inr fs'"
  using assms
proof (induction os arbitrary: seen fs)
  case (Cons outcome rest)
  from Cons.prems(4) [of outcome] obtain f where valid: "validOutcome outcome"
    and f: "f \<in> set fs" "map_of (rev expected) (FilingKey outcome) = Some (f_id f)" "f_firm f = firmID" "f_state f = FBatched"
    by auto
  let ?fs = "map (\<lambda>g. if g = f then outcomeRow t outcome g else g) fs"
  note one = settle_one [OF Cons.prems(1,2) f(1,3,4) valid, of t]
  note ok = sql_update_integrity [OF one Cons.prems(2)]
  have later: "validOutcome o2 \<and> (\<exists>g \<in> set ?fs. map_of (rev expected) (FilingKey o2) = Some (f_id g)
      \<and> f_firm g = firmID \<and> f_state g = FBatched)" if o2: "o2 \<in> set rest" for o2
  proof -
    from Cons.prems(4) [of o2] o2 obtain g where g: "validOutcome o2" "g \<in> set fs"
      "map_of (rev expected) (FilingKey o2) = Some (f_id g)" "f_firm g = firmID" "f_state g = FBatched" by auto
    have "FilingKey o2 \<noteq> FilingKey outcome" using Cons.prems(5) o2 by (auto simp: image_iff)
    moreover have "(FilingKey o2, f_id g) \<in> set expected" "(FilingKey outcome, f_id f) \<in> set expected"
      using map_of_SomeD [OF g(3)] map_of_SomeD [OF f(2)] by simp_all
    ultimately have "g \<noteq> f" using inj_onD [OF Cons.prems(3)] by fastforce
    then have "g \<in> set ?fs" using g(2) by force
    with g show ?thesis by blast
  qed
  have "distinct (map FilingKey rest)" "set (map FilingKey rest) \<inter> set (FilingKey outcome # seen) = {}"
    using Cons.prems(5,6) by auto
  from Cons.IH [OF _ _ Cons.prems(3) later this] ok obtain fs' where
    "settleOutcomes t firmID expected (FilingKey outcome # seen) rest ?fs = Inr fs'" by blast
  moreover have "FilingKey outcome \<notin> set seen" using Cons.prems(6) by auto
  ultimately show ?case using f(2) valid one by simp
qed simp

lemma updateBatches_cong:
  assumes "\<And>r. r \<in> set (db_batches d) \<Longrightarrow> p r \<longleftrightarrow> q r"
  shows "updateBatches p u d = updateBatches q u d"
proof -
  have "filter p (db_batches d) = filter q (db_batches d)" using assms by (rule filter_cong [OF refl])
  moreover have "map (\<lambda>r. if p r then u r else r) (db_batches d) = map (\<lambda>r. if q r then u r else r) (db_batches d)"
    using assms by simp
  moreover have "list_ex (\<lambda>r. p r \<and> P r) (db_batches d) = list_ex (\<lambda>r. q r \<and> P r) (db_batches d)" for P
    using assms by (auto simp: list_ex_iff)
  ultimately show ?thesis unfolding updateBatches_def sql_update_def by (simp only:)
qed

lemma claimed_only:
  assumes "schema_ok d" and "b \<in> set (db_batches d)" and "claimRowOf t1 c states b" and "r \<in> set (db_batches d)"
  shows "claimRowOf t1 c states r \<longleftrightarrow> b_id r = b_id b"
proof -
  have "distinct (map b_id (db_batches d))" using assms(1) by (simp add: schema_ok_def batch_table_ok_def)
  with unique_row [OF _ assms(4,2)] assms(3) show ?thesis by (auto simp: claimRowOf_def claimedBy_def)
qed

lemma result_valid: "readableResult r \<Longrightarrow> validOutcome (outcomeOf r)"
  by (auto simp: readableResult_def validOutcome_def outcomeOf_def opaque_def validReason_def isRejectionReason_def
      split: if_splits)

lemma complete_lands:
  assumes "schema_ok d" and "b \<in> set (db_batches d)" and "payload_ok d b" and "filings_wait d b"
    and "claimRowOf t1 c [BSubmitted, BAwaitingAck] b" and "batchOf d x b" and "answerable x"
    and "distinct (map rr_recordID (sub_results x))"
  shows "\<exists>d'. applyEvent t1 t2 c (EvCompleteAcknowledgment (map outcomeOf (sub_results x))) d = (d', Inr ())
    \<and> acknowledgedRow t1 b \<in> set (db_batches d')
    \<and> (\<forall>i \<in> snd ` set (batchFilings (b_id b) (b_firm b) d). \<exists>f \<in> set (db_filings d'). f_id f = i \<and> f_state f \<in> {FAccepted, FRejected})"
proof -
  let ?E = "batchFilings (b_id b) (b_firm b) d" and ?os = "map outcomeOf (sub_results x)"
  have c: "c_batchID c = b_id b" "c_firmID c = b_firm b" "b_state b \<noteq> BAcknowledged" "b_state b \<noteq> BInvariantFailed"
    using assms(5) by (auto simp: claimRowOf_def claimedBy_def)
  have keys: "map FilingKey ?os = map fst ?E" using assms(6) by (simp add: batchOf_def outcomeOf_def comp_def)
  have dist: "distinct (map fst ?E)" using assms(6,8) by (simp add: batchOf_def)
  have tab: "filing_table_ok (db_filings d)" "\<forall>f \<in> set (db_filings d). filing_row_ok f" using assms(1) by (simp_all add: schema_ok_def)
  have inj: "inj_on snd (set ?E)"
  proof (rule inj_onI)
    fix p q assume "p \<in> set ?E" "q \<in> set ?E" "snd p = snd q"
    then obtain k k' i where pq: "p = (k, i)" "q = (k', i)" and "(k, i) \<in> set ?E" "(k', i) \<in> set ?E"
      by (metis prod.collapse)
    then obtain f g where "f \<in> set (db_filings d)" "hexEncode (f_key f) = k" "f_id f = i"
      "g \<in> set (db_filings d)" "hexEncode (f_key g) = k'" "f_id g = i" by (metis batchFilings_mem)
    with filing_ids_unique [OF tab(1)] pq show "p = q" by metis
  qed
  have at: "map_of (rev ?E) k = Some i" if "(k, i) \<in> set ?E" for k i
    using that dist by (intro map_of_is_SomeI) (simp_all add: rev_map [symmetric])
  have ready: "validOutcome outcome \<and> (\<exists>f \<in> set (db_filings d). map_of (rev ?E) (FilingKey outcome) = Some (f_id f)
      \<and> f_firm f = b_firm b \<and> f_state f = FBatched)" if o: "outcome \<in> set ?os" for outcome
  proof -
    have "FilingKey outcome \<in> fst ` set ?E" using arg_cong [OF keys, of set] o by auto
    then obtain i where i: "(FilingKey outcome, i) \<in> set ?E" by auto
    then obtain f where f: "f \<in> set (db_filings d)" "f_id f = i" "f_firm f = b_firm b" by (rule batchFilings_mem)
    have "f_state f = FBatched" using assms(4) c(3) f i by (force simp: filings_wait_def)
    moreover have "validOutcome outcome" using o assms(7) result_valid by (auto simp: answerable_def list_all_iff)
    ultimately show ?thesis using at [OF i] f by blast
  qed
  have "distinct (map FilingKey ?os)" using keys dist by simp
  with settleOutcomes_lands [OF tab inj ready] obtain fs where
    s: "settleOutcomes t1 (b_firm b) ?E [] ?os (db_filings d) = Inr fs" by fastforce
  let ?d = "d\<lparr>db_filings := fs\<rparr>"
  have schema: "schema_ok ?d" using settleOutcomes_facts [OF s tab(2,1)] by (intro filings_replaced_schema [OF assms(1)]) auto
  have row: "batch_row_ok b" using assms(1,2) by (simp add: schema_ok_def)
  then have "batch_row_ok (acknowledgedRow t1 b) \<and> batch_update_ok b (acknowledgedRow t1 b)"
    using c(3,4) by (auto simp: batch_row_ok_def batch_update_ok_def acknowledgedRow_def receiptStates_def)
  then have u: "updateBatches (\<lambda>r. b_id r = b_id b) (acknowledgedRow t1) ?d = Inr (replaceRow b (acknowledgedRow t1) ?d, 1)"
    using assms(2) by (intro update_one [OF schema]) (simp_all add: acknowledgedRow_def)
  have "updateBatches (claimedBy t1 (b_id b) (b_firm b) (c_token c) [BSubmitted, BAwaitingAck]) (acknowledgedRow t1) ?d
      = updateBatches (\<lambda>r. b_id r = b_id b) (acknowledgedRow t1) ?d"
    using claimed_only [OF assms(1,2,5)] c by (intro updateBatches_cong) (simp add: claimRowOf_def)
  moreover have "length (remdups (map fst ?E)) = length ?os" using dist keys
    by (metis distinct_remdups_id length_map)
  moreover have "?os \<noteq> []" using assms(7) by (simp add: answerable_def)
  ultimately have ok: "applyEvent t1 t2 c (EvCompleteAcknowledgment ?os) d = (replaceRow b (acknowledgedRow t1) ?d, Inr ())"
    using s u c(1,2) assms(3) by (simp add: CompleteAcknowledgment_def StoreClaimParts_def payload_ok_def Let_def)
  have settled: "\<exists>f \<in> set fs. f_id f = i \<and> f_state f \<in> {FAccepted, FRejected}" if i: "i \<in> snd ` set ?E" for i
  proof -
    from i obtain k where k: "(k, i) \<in> set ?E" by auto
    then have "k \<in> set (map FilingKey ?os)" unfolding keys by force
    then obtain outcome where "outcome \<in> set ?os" "FilingKey outcome = k" by auto
    with settleOutcomes_settles [OF s] at [OF k] obtain f where "f \<in> set fs" "f_id f = i" "settledBy outcome f" by fastforce
    then show ?thesis by (intro bexI [of _ f]) (auto simp: settledBy_def split: if_splits)
  qed
  have "acknowledgedRow t1 b \<in> set (db_batches (replaceRow b (acknowledgedRow t1) ?d))"
    using updated_in_map [of b "db_batches d" "\<lambda>x. b_id x = b_id b"] assms(2) by (simp add: replaceRow_def)
  with ok settled show ?thesis by (intro exI [of _ "replaceRow b (acknowledgedRow t1) ?d"]) (simp add: replaceRow_def)
qed

end
