(* ===== verification/Progress.thy ===== *)
theory Progress
  imports Store_Progress System_Rounds
begin

text \<open>
  No batch is ever stuck. From every state the system reaches, however its workers crashed, repeated
  themselves or lost messages, a few undisturbed rounds of the firm's worker bring any unfinished
  batch to its acknowledgment, with a verdict for each of its filings: a submission in doubt is looked
  up, one that never arrived is planned and submitted again, one already recorded is found.
\<close>

section \<open>Sound states\<close>

text \<open>A database and a stub as the system may reach them, whatever work and decisions are around.\<close>

definition sound :: "IrsConfig \<Rightarrow> db \<Rightarrow> irs_store \<Rightarrow> bool" where
  "sound config d i \<longleftrightarrow> (\<exists>W P. books_ok config \<lparr>sy_db = d, sy_irs = i, sy_work = W, sy_plans = P\<rparr>)"

lemma soundD:
  assumes "sound config d i"
  shows "schema_ok d" "wireBatches d" "receipts_ok d" "payloads_ok d" "receipts_known i d" "recorded_known i d"
    "intake_reachable config i" "st_config i = config" "irs_inv i"
  using assms intake_reachable_config intake_reachable_inv by (auto simp: sound_def books_ok_def sys_inv_def)

lemma sound_reachable:
  assumes "sys_reachable config cl bo describe s" and "cl_token cl = ic_BearerToken config"
  shows "sound config (sy_db s) (sy_irs s)"
proof -
  have "books_ok config \<lparr>sy_db = sy_db s, sy_irs = sy_irs s, sy_work = sy_work s, sy_plans = sy_plans s\<rparr>"
    using books_always [OF assms] by (cases s) simp
  then show ?thesis unfolding sound_def by blast
qed

lemma sound_runs:
  assumes "runs cl bo describe W P (d, i) W' P' (d', i')" and "cl_token cl = ic_BearerToken config"
    and "books_ok config \<lparr>sy_db = d, sy_irs = i, sy_work = W, sy_plans = P\<rparr>"
  shows "sound config d' i'"
proof -
  have "(sys_step cl bo describe)\<^sup>*\<^sup>* s s' \<Longrightarrow> books_ok config s \<Longrightarrow> books_ok config s'" for s s'
    by (induction rule: rtranclp_induct) (use step_books assms(2) in blast)+
  with assms(1,3) show ?thesis unfolding runs_def sound_def by (metis fst_conv snd_conv)
qed

definition reliableClient :: "client \<Rightarrow> (request_error \<Rightarrow> string) \<Rightarrow> irs_env \<Rightarrow> int \<Rightarrow> irs_store irs_client" where
  "reliableClient cl describe env now = irsClientOver cl (reliableIntake describe env) (reliableStatus describe now)"

lemma sound_round:
  assumes "sound config d i" and "cl_token cl = ic_BearerToken config" and "blocks16 (env_blocks ienv)"
    and "ProcessOne (reliableClient cl describe ienv now) wk env firmID (d, i) = ((d', i'), r)"
  shows "sound config d' i'"
proof -
  from assms(1) obtain W P where books: "books_ok config \<lparr>sy_db = d, sy_irs = i, sy_work = W, sy_plans = P\<rparr>"
    by (auto simp: sound_def)
  from runs_ProcessOne [OF reliable_lossy [OF assms(3)] assms(4) [unfolded reliableClient_def]] obtain W' P' where
    "runs cl (wk_backoff wk) describe W P (d, i) W' P' (d', i')" by blast
  with assms(2) books show ?thesis by (intro sound_runs)
qed

section \<open>What the stub answers\<close>

text \<open>Every original record key the stub knows is in a recorded submission.\<close>

lemma originals_recorded:
  assumes "intake_reachable config i" and "k \<in> originalRecords i"
  shows "\<exists>firmID u x. findByUTID firmID u i = Some x \<and> k \<in> set (submissionKeys x)"
  using assms
proof (induction rule: intake_reachable.induct)
  case (intake_next s t env s' answer)
  from intake_next.hyps(4) show ?case
  proof (cases rule: storeRecord_cases)
    case (new x fault ids)
    have kept: "findByUTID f u s = Some y \<Longrightarrow> findByUTID f u s' = Some y" for f u y
      using irs.frozen [OF intake_next.hyps(4), of "(f, u)"] by (simp add: findByUTID_def)
    from intake_next.prems new(4) consider "k \<in> originalRecords s" | "k \<in> set (map (originalKey t) (tx_records t))" by auto
    then show ?thesis
    proof cases
      case 1
      with intake_next.IH kept show ?thesis by blast
    next
      case 2
      moreover have "submissionKeys x = map (originalKey t) (tx_records t)" using new(3) by (simp add: newSubmission_def)
      moreover have "findByUTID (tx_firmID t) (tx_utid t) s' = Some x" using new(4) by (simp add: findByUTID_def)
      ultimately show ?thesis by metis
    qed
  qed (use intake_next in simp)
qed (simp add: newStore_def)

lemma key_decides:
  assumes "schema_ok d" and "k \<in> fst ` set (batchFilings m firm1 d)" and "k \<in> fst ` set (batchFilings n firm2 d)"
  shows "m = n"
proof -
  from assms(2,3) obtain i j where ij: "(k, i) \<in> set (batchFilings m firm1 d)" "(k, j) \<in> set (batchFilings n firm2 d)" by auto
  from ij(1) obtain f where f: "f \<in> set (db_filings d)" "hexEncode (f_key f) = k" "f_id f = i" by (rule batchFilings_mem)
  from ij(2) obtain g where g: "g \<in> set (db_filings d)" "hexEncode (f_key g) = k" "f_id g = j" by (rule batchFilings_mem)
  have "inj_on f_key (set (db_filings d))" using assms(1) by (simp add: schema_ok_def filing_table_ok_def distinct_map)
  moreover have "f_key f = f_key g" using f(2) g(2) hexEncode_inject by metis
  ultimately have "f = g" using f(1) g(1) by (auto dest: inj_onD)
  then have "i \<in> snd ` set (batchFilings m firm1 d)" "i \<in> snd ` set (batchFilings n firm2 d)" using ij f(3) g(3) by force+
  with same_link [OF assms(1)] show ?thesis by blast
qed

text \<open>The payload of a batch the stub has not recorded repeats nothing it has.\<close>

lemma unrecorded_fresh:
  assumes "sound config d i" and "b \<in> set (db_batches d)" and "findByUTID (b_firm b) (b_utid b) i = None"
    and t: "tx_firmID t = b_firm b" "map fr_recordID (tx_records t) = map fst (batchFilings (b_id b) (b_firm b) d)"
  shows "\<not> list_ex (\<lambda>r. originalKey t r \<in> originalRecords i) (tx_records t)"
proof
  note inv = soundD [OF assms(1)]
  assume "list_ex (\<lambda>r. originalKey t r \<in> originalRecords i) (tx_records t)"
  then obtain r where r: "r \<in> set (tx_records t)" "originalKey t r \<in> originalRecords i" by (auto simp: list_ex_iff)
  from originals_recorded [OF inv(7) r(2)] obtain f u x where x: "findByUTID f u i = Some x" "originalKey t r \<in> set (submissionKeys x)"
    by blast
  from inv(6) x(1) obtain c where c: "c \<in> set (db_batches d)" "b_firm c = f" "b_utid c = u" "batchOf d x c"
    unfolding recorded_known_def by blast
  have "sub_firmID x = b_firm b" "fr_recordID r \<in> set (map rr_recordID (sub_results x))"
    using x(2) t(1) by (auto simp: submissionKeys_def originalKey_def)
  moreover have "sub_firmID x = f" using irs_inv_utidD(1) [OF inv(9)] x(1) by (simp add: findByUTID_def)
  moreover have "set (map rr_recordID (sub_results x)) = set (map fst (batchFilings (b_id c) (b_firm c) d))"
    using c(4) unfolding batchOf_def by metis
  ultimately have f: "f = b_firm b" and here: "fr_recordID r \<in> fst ` set (batchFilings (b_id c) (b_firm c) d)"
    by simp_all
  have "fr_recordID r \<in> set (map fst (batchFilings (b_id b) (b_firm b) d))" using r(1) t(2) by (metis image_eqI set_map)
  with key_decides [OF inv(1) here] have "b_id c = b_id b" by simp
  moreover have "distinct (map b_id (db_batches d))" using inv(1) by (simp add: schema_ok_def batch_table_ok_def)
  ultimately have "c = b" using unique_row c(1) assms(2) by blast
  with assms(3) x(1) f c(3) show False by simp
qed

lemma reliable_submits:
  assumes "cl_token cl = ic_BearerToken (st_config i)" and "decodeTransmission payload = Inr t" and "blocks16 (env_blocks ienv)"
    and "storeRecord ienv t i = Some (i', answer)"
  shows "Submit (reliableClient cl describe ienv now) payload i = (i', Inr (submitMeaning answer))"
  using intake_reads [OF assms, of describe] by (auto simp: reliableClient_def irsClientOver_def reliableIntake_def)

lemma reliable_asks:
  assumes "sound config d i" and "cl_token cl = ic_BearerToken config" and "wireBatch b" and "searchType \<in> {SearchUTID, SearchReceiptID}"
    and "validChars v" "v \<noteq> ''''"
  shows "Status (reliableClient cl describe ienv now) (b_firm b) searchType v i
    = (i, Inr (statusMeaning now (foundBy searchType (b_firm b) v i)))"
proof -
  note inv = soundD [OF assms(1)]
  have "cl_token cl = ic_BearerToken (st_config i)" using assms(2) inv(8) by simp
  then have "clientStatus (Some (handleStatus describe now (statusRequest cl (b_firm b) searchType v) i))
      = Inr (statusMeaning now (foundBy searchType (b_firm b) v i))"
    using assms(3-6) found_recorded [OF inv(7)] unfolding foundBy_def
    by (intro status_reads) (auto simp: wireBatch_def foundBy_def)
  with assms(3,4,6) show ?thesis by (auto simp: reliableClient_def irsClientOver_def reliableStatus_def wireBatch_def)
qed

section \<open>One undisturbed round\<close>

text \<open>At time \<open>t\<close>, with the other batches held by other workers; the clock stands still during the round.\<close>

definition roundEntropy :: bytes where "roundEntropy = replicate 16 (CHR ''r'')"

definition roundAt :: "int \<Rightarrow> batch_row \<Rightarrow> db \<Rightarrow> round_env" where
  "roundAt t b d = \<lparr>re_now = t, re_locked = othersThan b d, re_entropy = Some roundEntropy,
     re_start = (t, t), re_finish = (t, t), re_event = (t, t)\<rparr>"

definition claimedAs :: "worker \<Rightarrow> int \<Rightarrow> batch_row \<Rightarrow> batch_row" where
  "claimedAs wk t = claimRow t (wk_workerID wk) (Microseconds (wk_leaseDuration wk)) (hexEncode roundEntropy)"

definition workOf :: "worker \<Rightarrow> int \<Rightarrow> batch_row \<Rightarrow> BatchWork" where
  "workOf wk t b = claimWork (actionFor (b_state b)) (b_firm b) (hexEncode roundEntropy) (claimedAs wk t b)"

lemma workOf_simps [simp]:
  "w_FirmID (workOf wk t b) = b_firm b" "w_BatchID (workOf wk t b) = b_id b" "w_UTID (workOf wk t b) = b_utid b"
  "w_CanonicalXML (workOf wk t b) = b_xml b" "w_PayloadSHA256 (workOf wk t b) = b_hash b"
  "w_NextAction (workOf wk t b) = actionFor (b_state b)" "w_ReceiptID (workOf wk t b) = coalesce (b_receipt b)"
  "w_AttemptCount (workOf wk t b) = b_attempts b + 1"
  "w_Claim (workOf wk t b) = \<lparr>c_batchID = b_id b, c_firmID = b_firm b, c_token = hexEncode roundEntropy\<rparr>"
  by (simp_all add: workOf_def claimWork_def claimedAs_def claimRow_def NewStoreClaim_def)

lemma claimedAs_simps [simp]:
  "b_id (claimedAs wk t b) = b_id b" "b_firm (claimedAs wk t b) = b_firm b" "b_utid (claimedAs wk t b) = b_utid b"
  "b_receipt (claimedAs wk t b) = b_receipt b" "b_state (claimedAs wk t b) = claimState (b_state b)"
  "b_attempts (claimedAs wk t b) = b_attempts b + 1" "payloadKey (claimedAs wk t b) = payloadKey b"
  by (simp_all add: claimedAs_def payloadKey_def claimRow_def)

definition workable :: "worker \<Rightarrow> db \<Rightarrow> batch_row \<Rightarrow> nat \<Rightarrow> bool" where
  "workable wk d b n \<longleftrightarrow> b \<in> set (db_batches d) \<and> b_firm b \<in> set (db_firms d) \<and> int32 (b_attempts b + int n)
     \<and> wk_workerID wk \<noteq> '''' \<and> 1000 \<le> wk_leaseDuration wk"

lemma round_lands:
  assumes "schema_ok d" and "payloads_ok d" and "workable wk d b n" "1 \<le> n" and "\<not> terminalState (b_state b)" and "dueAt t b"
    and call: "(if actionFor (b_state b) = ActionSubmit
          then \<exists>r. Submit irs (b_xml b) i = (i', r) \<and> plan = submitPlan (wk_backoff wk) (workOf wk t b) r
          else \<exists>r. Status irs (b_firm b) (fst search) (snd search) i = (i', r) \<and> plan = statusPlan (wk_backoff wk) (workOf wk t b) (fst search) r)"
    and search: "search = (if actionFor (b_state b) = ActionLookupByUTID then (SearchUTID, b_utid b) else pollSearch (workOf wk t b))"
    and "callOK (fst plan)"
    and lands: "\<And>d2. schema_ok d2 \<Longrightarrow> besidesCalls (replaceRow b (claimedAs wk t) d) d2 \<Longrightarrow>
          \<exists>d3. applyEvent t t (w_Claim (workOf wk t b)) (snd plan) d2 = (d3, Inr ()) \<and> Q d3"
  shows "\<exists>d3. ProcessOne irs wk (roundAt t b d) (b_firm b) (d, i) = ((d3, i'), Inr True) \<and> Q d3"
proof -
  let ?cmd = "\<lparr>clm_FirmID = b_firm b, clm_WorkerID = wk_workerID wk, clm_LeaseDuration = wk_leaseDuration wk\<rparr>"
  let ?d1 = "replaceRow b (claimedAs wk t) d" and ?w = "workOf wk t b" and ?env = "roundAt t b d"
  have b: "b \<in> set (db_batches d)" "b_firm b \<in> set (db_firms d)" and pay: "payload_ok d b"
    using assms(2,3) by (simp_all add: workable_def payloads_ok_def)
  have "0 \<le> b_attempts b" using assms(1) b(1) by (simp add: schema_ok_def batch_row_ok_def)
  then have "int32 (b_attempts b + 1)" using assms(3,4) by (auto simp: workable_def int32_def)
  then have claim: "ClaimNextBatch t (othersThan b d) (Some roundEntropy) ?cmd d = (?d1, Inr (Some ?w))"
    using claim_succeeds [OF assms(1) b(1) pay assms(5) _ assms(6), of ?cmd roundEntropy] assms(3)
    by (simp add: workable_def claimedAs_def [abs_def] workOf_def)
  have s1: "schema_ok ?d1" by (rule ClaimNextBatch_schema [OF assms(1) claim])
  have in1: "claimedAs wk t b \<in> set (db_batches ?d1)" "b_firm (claimedAs wk t b) \<in> set (db_firms ?d1)"
    using b updated_in_map [of b "db_batches d" "\<lambda>x. b_id x = b_id b"] by (simp_all add: replaceRow_def)
  define operation where "operation = (if actionFor (b_state b) = ActionSubmit then OperationSubmit else OperationStatus)"
  have "operation \<in> {OperationSubmit, OperationStatus}" by (simp add: operation_def)
  then obtain d2 permit where opened: "AcquireCallPermit (t, t)
        \<lparr>acq_FirmID = b_firm b, acq_BatchID = b_id b, acq_Operation = operation\<rparr> ?d1 = (d2, Inr permit)"
    and d2: "besidesCalls ?d1 d2" "schema_ok d2" "cp_firmID permit = b_firm b" "\<not> cp_finished permit" "\<not> cp_released permit"
      "\<exists>l \<in> set (db_calls d2). l_id l = cp_logID permit \<and> l_firm l = b_firm b \<and> l_completed_at l = None \<and> call_row_ok l"
    using permit_opens [OF s1 in1, of operation "(t, t)"] pay by (auto simp: payload_ok_def)
  from d2(3,6) obtain l where "l \<in> set (db_calls d2)" "l_id l = cp_logID permit" "l_firm l = cp_firmID permit"
    "l_completed_at l = None" "call_row_ok l" by auto
  from permit_finishes [OF d2(2,4,5) assms(9) this] obtain permit' d3 where
    fin: "Finish t t (fst plan) permit d2 = (permit', d3, Inr ())" and d3: "besidesCalls d2 d3" "schema_ok d3" by blast
  from lands [OF d3(2) besidesCalls_trans [OF d2(1) d3(1)]] obtain d4 where
    ev: "applyEvent t t (w_Claim ?w) (snd plan) d3 = (d4, Inr ())" "Q d4" by blast
  have recorded: "finishThen ?env permit plan (w_Claim ?w) d2 = (d4, Inr ())"
    using fin ev(1) by (simp add: finishThen_def roundAt_def)
  have "processWork irs (wk_backoff wk) ?env ?w (?d1, i) = ((d4, i'), Inr ())"
  proof (cases "actionFor (b_state b) = ActionSubmit")
    case True
    with call opened recorded pay show ?thesis
      by (auto simp: processWork_def submit_def roundAt_def operation_def payload_ok_def simp del: workOf_simps(9))
  next
    case False
    then have "actionFor (b_state b) = ActionLookupByUTID \<or> actionFor (b_state b) = ActionPollStatus" by (auto simp: actionFor_def)
    with False call search opened recorded pay show ?thesis
      by (auto simp: processWork_def status_def roundAt_def operation_def payload_ok_def
          simp del: workOf_simps(9) split: if_splits)
  qed
  with claim ev(2) show ?thesis by (auto simp: ProcessOne_def roundAt_def)
qed

section \<open>A round that moves the batch\<close>

lemma after_claim:
  assumes "besidesCalls (replaceRow b (claimedAs wk t) d) d2"
  shows "db_filings d2 = db_filings d" "db_batch_filings d2 = db_batch_filings d" "db_firms d2 = db_firms d"
    "map b_receipt (db_batches d2) = map b_receipt (db_batches d)"
    "b \<in> set (db_batches d) \<Longrightarrow> claimedAs wk t b \<in> set (db_batches d2)"
    "batchFilings n firmID d2 = batchFilings n firmID d"
proof -
  from assms obtain gs cs where d2: "d2 = replaceRow b (claimedAs wk t) d\<lparr>db_gates := gs, db_calls := cs\<rparr>"
    by (auto simp: besidesCalls_def)
  then show "db_filings d2 = db_filings d" "db_batch_filings d2 = db_batch_filings d" "db_firms d2 = db_firms d"
    "batchFilings n firmID d2 = batchFilings n firmID d" "map b_receipt (db_batches d2) = map b_receipt (db_batches d)"
    by (auto simp: replaceRow_def batchFilings_def)
  assume "b \<in> set (db_batches d)"
  then show "claimedAs wk t b \<in> set (db_batches d2)"
    using updated_in_map [of b "db_batches d" "\<lambda>x. b_id x = b_id b"] by (simp add: d2 replaceRow_def)
qed

lemma lease_runs: "1000 \<le> lease \<Longrightarrow> 0 < Microseconds lease"
  by (simp add: Microseconds_def go_div_nonneg duration_defs pos_imp_zdiv_pos_iff)

lemma claimedAs_row:
  assumes "1000 \<le> wk_leaseDuration wk" and "claimState (b_state b) \<in> set states"
  shows "claimRowOf t (w_Claim (workOf wk t b)) states (claimedAs wk t b)"
  using assms lease_runs by (simp add: claimRowOf_def claimedBy_def) (simp add: claimedAs_def claimRow_def)

lemma recordOutcome_besides:
  assumes "recordOutcome t1 t2 c states u d = (d', Inr ())"
  shows "db_filings d' = db_filings d" "db_batch_filings d' = db_batch_filings d" "db_firms d' = db_firms d"
  using recordOutcome_Inr [OF assms] by (auto simp: updateBatches_def split: sum.splits)

text \<open>The time a batch is due, and the first time from \<open>clk\<close> on at which its firm's gate is open as well.\<close>

definition dueTime :: "batch_row \<Rightarrow> int" where
  "dueTime b = max (b_next_action_at b) (case b_lease_expires b of None \<Rightarrow> 0 | Some e \<Rightarrow> e)"

definition gateTime :: "string \<Rightarrow> db \<Rightarrow> int" where
  "gateTime firmID d = foldr max (map allowedAt (filter (\<lambda>g. g_firm g = firmID) (db_gates d))) 0"

definition startAt :: "int \<Rightarrow> db \<Rightarrow> batch_row \<Rightarrow> int" where
  "startAt clk d b = max clk (max (dueTime b) (gateTime (b_firm b) d))"

lemma startAt_due: "dueAt (startAt clk d b) b"
  by (auto simp: dueAt_def startAt_def dueTime_def split: option.splits)

text \<open>Rounds in the order of the clock, each call started once the gate lets it: what the timers of
  \<open>AcquireCallPermit\<close> and of the loop wait for.\<close>

definition inTime :: "int \<Rightarrow> round_env \<Rightarrow> string \<Rightarrow> db \<Rightarrow> bool" where
  "inTime clk env firmID d \<longleftrightarrow> clk \<le> re_now env \<and> re_now env \<le> fst (re_start env)
     \<and> fst (re_start env) \<le> snd (re_start env) \<and> snd (re_start env) \<le> fst (re_finish env)
     \<and> fst (re_finish env) \<le> snd (re_finish env) \<and> snd (re_finish env) \<le> fst (re_event env)
     \<and> fst (re_event env) \<le> snd (re_event env)
     \<and> (\<forall>g \<in> set (db_gates d). g_firm g = firmID \<longrightarrow> allowedAt g \<le> fst (re_start env))"

fun paced :: "'i irs_client \<Rightarrow> worker \<Rightarrow> string \<Rightarrow> int \<Rightarrow> round_env list \<Rightarrow> db \<times> 'i \<Rightarrow> bool" where
  "paced irs wk firmID clk [] s = True"
| "paced irs wk firmID clk (env # envs) s = (inTime clk env firmID (fst s)
     \<and> paced irs wk firmID (snd (re_event env)) envs (fst (ProcessOne irs wk env firmID s)))"

lemma foldr_max_ge: "x \<in> set xs \<Longrightarrow> x \<le> foldr max xs (0 :: int)"
  by (induction xs) auto

lemma roundAt_inTime: "inTime clk (roundAt (startAt clk d b) b d) (b_firm b) d"
proof -
  have "allowedAt g \<le> gateTime (b_firm b) d" if "g \<in> set (db_gates d)" "g_firm g = b_firm b" for g
    unfolding gateTime_def using that by (intro foldr_max_ge) auto
  then show ?thesis by (auto simp: inTime_def roundAt_def startAt_def intro: le_max_iff_disj [THEN iffD2])
qed

definition evolved :: "worker \<Rightarrow> int \<Rightarrow> batch_row \<Rightarrow> lifecycle_event \<Rightarrow> batch_row" where
  "evolved wk t b ev = eventUpdate t ev (claimedAs wk t b)"

lemma evolved_simps [simp]:
  "b_id (evolved wk t b ev) = b_id b" "b_firm (evolved wk t b ev) = b_firm b" "b_utid (evolved wk t b ev) = b_utid b"
  "b_attempts (evolved wk t b ev) = b_attempts b + 1"
  by (cases ev; simp add: evolved_def eventRow_def statusRetryRow_def acknowledgedRow_def terminalRow_def)+

lemma plain_round:
  assumes s: "sound config d i" and "cl_token cl = ic_BearerToken config" and "blocks16 (env_blocks ienv)"
    and w: "workable wk d b (Suc n)" and "\<not> terminalState (b_state b)"
    and call: "(if actionFor (b_state b) = ActionSubmit
          then \<exists>r. Submit (reliableClient cl describe ienv now) (b_xml b) i = (i', r)
            \<and> plan = submitPlan (wk_backoff wk) (workOf wk (startAt clk d b) b) r
          else \<exists>r. Status (reliableClient cl describe ienv now) (b_firm b) (fst search) (snd search) i = (i', r)
            \<and> plan = statusPlan (wk_backoff wk) (workOf wk (startAt clk d b) b) (fst search) r)"
    and search: "search = (if actionFor (b_state b) = ActionLookupByUTID then (SearchUTID, b_utid b)
          else pollSearch (workOf wk (startAt clk d b) b))"
    and "callOK (fst plan)" and ev: "eventArgs_ok (snd plan)" "claimState (b_state b) \<in> set (eventStates (snd plan))"
    and fresh: "\<And>r x. eventReceipt (snd plan) = Some r \<Longrightarrow> x \<in> set (db_batches d) \<Longrightarrow> b_receipt x \<noteq> Some r"
  shows "\<exists>d3. ProcessOne (reliableClient cl describe ienv now) wk (roundAt (startAt clk d b) b d) (b_firm b) (d, i) = ((d3, i'), Inr True)
    \<and> sound config d3 i' \<and> workable wk d3 (evolved wk (startAt clk d b) b (snd plan)) n
    \<and> (\<forall>m f. batchFilings m f d3 = batchFilings m f d)"
proof -
  let ?t = "startAt clk d b" and ?b = "claimedAs wk (startAt clk d b) b" and ?c = "w_Claim (workOf wk (startAt clk d b) b)"
  note inv = soundD [OF s]
  have b: "b \<in> set (db_batches d)" "1000 \<le> wk_leaseDuration wk" using w by (simp_all add: workable_def)
  then have pay: "0 < b_id b" "beginFirm (b_firm b) = Inr ()" using inv(4) by (auto simp: payloads_ok_def payload_ok_def)
  let ?Q = "\<lambda>d3. evolved wk (startAt clk d b) b (snd plan) \<in> set (db_batches d3) \<and> db_firms d3 = db_firms d \<and> (\<forall>m f. batchFilings m f d3 = batchFilings m f d)"
  have lands: "\<exists>d3. applyEvent ?t ?t ?c (snd plan) d2 = (d3, Inr ()) \<and> ?Q d3"
    if d2: "schema_ok d2" "besidesCalls (replaceRow b (claimedAs wk ?t) d) d2" for d2
  proof -
    note after = after_claim [OF d2(2)]
    have "set (map b_receipt (db_batches d2)) = set (map b_receipt (db_batches d))" using after(4) by simp
    then have "\<forall>r x. eventReceipt (snd plan) = Some r \<longrightarrow> x \<in> set (db_batches d2) \<longrightarrow> b_receipt x \<noteq> Some r"
      using fresh by (metis (no_types, lifting) imageE image_eqI set_map)
    with event_lands [OF d2(1) after(5) [OF b(1)] claimedAs_row [OF b(2) ev(2)] ev(1), of ?t] pay obtain d3 where
      d3: "applyEvent ?t ?t ?c (snd plan) d2 = (d3, Inr ())" "evolved wk (startAt clk d b) b (snd plan) \<in> set (db_batches d3)"
      by (auto simp: evolved_def simp del: applyEvent.simps)
    have "recordOutcome ?t ?t ?c (eventStates (snd plan)) (eventUpdate ?t (snd plan)) d2 = (d3, Inr ())"
      using d3(1) applyEvent_recordOutcome [OF ev(1), of ?c ?t ?t d2] pay(1) by (simp del: applyEvent.simps)
    from recordOutcome_besides [OF this] after(1-3,6) have "db_firms d3 = db_firms d" "batchFilings m f d3 = batchFilings m f d" for m f
      by (simp_all add: batchFilings_def)
    with d3 show ?thesis by blast
  qed
  from round_lands [OF inv(1,4) w _ assms(5) startAt_due call search assms(8) lands] obtain d3 where
    round: "ProcessOne (reliableClient cl describe ienv now) wk (roundAt ?t b d) (b_firm b) (d, i) = ((d3, i'), Inr True)" "?Q d3"
    by auto
  with sound_round [OF s assms(2,3) round(1)] w show ?thesis by (fastforce simp: workable_def ac_simps)
qed

section \<open>Rounds until it is settled\<close>

definition settledFilings :: "db \<Rightarrow> int set \<Rightarrow> bool" where
  "settledFilings d ids \<longleftrightarrow> (\<forall>i \<in> ids. \<exists>f \<in> set (db_filings d). f_id f = i \<and> f_state f \<in> {FAccepted, FRejected})"

definition settles :: "irs_store irs_client \<Rightarrow> worker \<Rightarrow> nat \<Rightarrow> int \<Rightarrow> db \<Rightarrow> irs_store \<Rightarrow> batch_row \<Rightarrow> bool" where
  "settles irs wk n clk d i b \<longleftrightarrow> (\<exists>envs d' i'. length envs \<le> n
     \<and> paced irs wk (b_firm b) clk envs (d, i) \<and> firmLoop irs wk (b_firm b) envs (d, i) = ((d', i'), Inr ())
     \<and> (\<exists>b' \<in> set (db_batches d'). b_id b' = b_id b \<and> b_state b' = BAcknowledged)
     \<and> settledFilings d' (snd ` set (batchFilings (b_id b) (b_firm b) d)))"

lemma settles_step:
  assumes "ProcessOne irs wk (roundAt (startAt clk d b) b d) (b_firm b) (d, i) = ((d', i'), Inr True)"
    and "settles irs wk n (startAt clk d b) d' i' b'"
    and "b_id b' = b_id b" "b_firm b' = b_firm b" and "\<forall>m f. batchFilings m f d' = batchFilings m f d"
  shows "settles irs wk (Suc n) clk d i b"
proof -
  let ?env = "roundAt (startAt clk d b) b d"
  from assms(2-5) obtain envs d'' i'' where rest: "length envs \<le> n" "paced irs wk (b_firm b) (startAt clk d b) envs (d', i')"
    "firmLoop irs wk (b_firm b) envs (d', i') = ((d'', i''), Inr ())"
    "\<exists>b' \<in> set (db_batches d''). b_id b' = b_id b \<and> b_state b' = BAcknowledged"
    "settledFilings d'' (snd ` set (batchFilings (b_id b) (b_firm b) d))"
    unfolding settles_def by auto
  from rest(3) assms(1) have "firmLoop irs wk (b_firm b) (?env # envs) (d, i) = ((d'', i''), Inr ())" by simp
  moreover have "snd (re_event ?env) = startAt clk d b" by (simp add: roundAt_def)
  then have "paced irs wk (b_firm b) clk (?env # envs) (d, i)" using rest(2) assms(1) roundAt_inTime by simp
  moreover have "length (?env # envs) \<le> Suc n" using rest(1) by simp
  ultimately show ?thesis using rest(4,5) unfolding settles_def by blast
qed

lemma settles_more: "settles irs wk m clk d i b \<Longrightarrow> m \<le> n \<Longrightarrow> settles irs wk n clk d i b"
  unfolding settles_def by (meson le_trans)

lemma workable_less:
  assumes "sound config d i" and "workable wk d b n" and "m \<le> n"
  shows "workable wk d b m"
proof -
  have "0 \<le> b_attempts b" using soundD(1) [OF assms(1)] assms(2) by (auto simp: workable_def schema_ok_def batch_row_ok_def)
  with assms(2,3) show ?thesis by (auto simp: workable_def int32_def)
qed

text \<open>What the stub recorded under the UTID of a batch is that batch's submission.\<close>

lemma own_submission:
  assumes "sound config d i" and "b \<in> set (db_batches d)" and "findByUTID (b_firm b) (b_utid b) i = Some x"
  shows "batchOf d x b" "answerable x" "sub_firmID x = b_firm b" "sub_utid x = b_utid b"
    "distinct (map rr_recordID (sub_results x))" "findByReceiptID (b_firm b) (sub_receiptID x) i = Some x"
proof -
  note inv = soundD [OF assms(1)]
  from inv(6) assms(3) obtain c where c: "c \<in> set (db_batches d)" "b_firm c = b_firm b" "b_utid c = b_utid b" "batchOf d x c"
    unfolding recorded_known_def by blast
  have "inj_on (\<lambda>b. (b_firm b, b_utid b)) (set (db_batches d))"
    using inv(1) by (simp add: schema_ok_def batch_table_ok_def distinct_map)
  with c(1-3) assms(2) have "c = b" by (auto dest: inj_onD)
  with c(4) show "batchOf d x b" by simp
  show "answerable x" by (rule found_recorded(2) [OF inv(7), of SearchUTID "b_firm b" "b_utid b"]) (simp add: foundBy_def assms(3))
  note at = irs_inv_utidD [OF inv(9) assms(3) [unfolded findByUTID_def]]
  from at show "sub_firmID x = b_firm b" "sub_utid x = b_utid b" "findByReceiptID (b_firm b) (sub_receiptID x) i = Some x"
    by (simp_all add: findByReceiptID_def)
  have "distinct (submissionKeys x)" by (rule irs_inv_keysD(1) [OF inv(9) assms(3) [unfolded findByUTID_def]])
  then show "distinct (map rr_recordID (sub_results x))" by (auto simp: submissionKeys_def distinct_map inj_on_def)
qed

lemma unreceipted:
  assumes "sound config d i" and "b \<in> set (db_batches d)" and "b_state b \<in> {BPlanned, BSubmitting, BSubmitUnknown}"
  shows "b_receipt b = None"
  using soundD(1) [OF assms(1)] assms(2,3) by (auto simp: schema_ok_def batch_row_ok_def receiptStates_def)

lemma receipt_fresh:
  assumes "sound config d i" and "b \<in> set (db_batches d)" and "b_receipt b = None"
    and "findByUTID (b_firm b) (b_utid b) i' = Some x" and "irs_inv i'"
    and kept: "\<And>f u y. findByUTID f u i = Some y \<Longrightarrow> findByUTID f u i' = Some y" and "c \<in> set (db_batches d)"
  shows "b_receipt c \<noteq> Some (sub_receiptID x)"
proof
  assume c: "b_receipt c = Some (sub_receiptID x)"
  note inv = soundD [OF assms(1)]
  from inv(5) c assms(7) obtain y where y: "findByUTID (b_firm c) (b_utid c) i = Some y" "sub_receiptID y = sub_receiptID x"
    by (auto simp: receipts_known_def receipt_known_def holdsReceipt_def)
  note at = irs_inv_utidD [OF assms(5) assms(4) [unfolded findByUTID_def]]
    irs_inv_utidD [OF assms(5) kept [OF y(1), unfolded findByUTID_def]]
  have "x = y" using at(3,6) y(2) by simp
  with at have "b_firm c = b_firm b" "b_utid c = b_utid b" by simp_all
  moreover have "inj_on (\<lambda>b. (b_firm b, b_utid b)) (set (db_batches d))"
    using inv(1) by (simp add: schema_ok_def batch_table_ok_def distinct_map)
  ultimately have "c = b" using assms(2,7) by (auto dest: inj_onD)
  with c assms(3) show False by simp
qed

lemma verdict_not_processing: "transmissionStatus results \<noteq> ''Processing''"
  by (simp add: transmissionStatus_def Let_def)

definition undisturbed :: "IrsConfig \<Rightarrow> client \<Rightarrow> irs_env \<Rightarrow> worker \<Rightarrow> bool" where
  "undisturbed config cl ienv wk \<longleftrightarrow> cl_token cl = ic_BearerToken config \<and> blocks16 (env_blocks ienv)
     \<and> storableBackoff (wk_backoff wk)"

lemma submitted_settles:
  assumes s: "sound config d i" and u: "undisturbed config cl ienv wk" and w: "workable wk d b 1"
    and st: "b_state b \<in> {BSubmitted, BAwaitingAck}"
    and x: "findByUTID (b_firm b) (b_utid b) i = Some x" "acknowledged_at now x"
  shows "settles (reliableClient cl describe ienv now) wk 1 clk d i b"
proof -
  let ?irs = "reliableClient cl describe ienv now" and ?t = "startAt clk d b"
  let ?w = "workOf wk ?t b"
  note inv = soundD [OF s]
  have b: "b \<in> set (db_batches d)" "1000 \<le> wk_leaseDuration wk" using w by (simp_all add: workable_def)
  note own = own_submission [OF s b(1) x(1)]
  have pay: "payload_ok d b" "filings_wait d b" and wire: "wireBatch b"
    using inv(2,4) b(1) by (auto simp: payloads_ok_def wireBatches_def)
  from inv(3) b(1) st obtain r where r: "b_receipt b = Some r" "r \<noteq> ''''" by (auto simp: receipts_ok_def receiptRow_ok_def)
  with inv(5) b(1) x(1) have rx: "sub_receiptID x = r" by (auto simp: receipts_known_def receipt_known_def holdsReceipt_def)
  have act: "actionFor (b_state b) = ActionPollStatus" "ActionPollStatus \<noteq> ActionSubmit" "ActionPollStatus \<noteq> ActionLookupByUTID"
    using st by (auto simp: actionFor_def)
  have search: "pollSearch ?w = (SearchReceiptID, r)" using r by (simp add: pollSearch_def coalesce_def)
  have "validChars r" using own(2) rx visible_valid by (auto simp: answerable_def opaque_def)
  then have asked: "Status ?irs (b_firm b) SearchReceiptID r i = (i, Inr (statusMeaning now (Some x)))"
    using reliable_asks [OF s _ wire, of cl SearchReceiptID r describe ienv now] u own(6) rx r(2)
    by (simp add: foundBy_def undisturbed_def)
  let ?plan = "statusPlan (wk_backoff wk) ?w SearchReceiptID (Inr (statusMeaning now (Some x)))"
  have plan: "?plan = (callResult CallCompleted 200 '''', EvCompleteAcknowledgment (map outcomeOf (sub_results x)))"
    using x(2) own(4) rx r by (simp add: statusPlan_def statusMeaning_def verdict_not_processing coalesce_def)
  let ?Q = "\<lambda>d3. (\<exists>b' \<in> set (db_batches d3). b_id b' = b_id b \<and> b_state b' = BAcknowledged)
      \<and> settledFilings d3 (snd ` set (batchFilings (b_id b) (b_firm b) d))"
  have lands: "\<exists>d3. applyEvent ?t ?t (w_Claim ?w) (snd ?plan) d2 = (d3, Inr ()) \<and> ?Q d3"
    if d2: "schema_ok d2" "besidesCalls (replaceRow b (claimedAs wk ?t) d) d2" for d2
  proof -
    note after = after_claim [OF d2(2)]
    let ?b = "claimedAs wk ?t b"
    have "payload_ok d2 ?b" by (rule payload_ok_kept [OF pay(1)]) (simp_all add: after)
    moreover have "filings_wait d2 ?b" using pay(2) st by (auto simp: filings_wait_def after claimState_def)
    moreover have "claimRowOf ?t (w_Claim ?w) [BSubmitted, BAwaitingAck] ?b"
      using st by (intro claimedAs_row [OF b(2)]) (auto simp: claimState_def)
    moreover have "b_client ?b = b_client b" by (simp add: claimedAs_def claimRow_def)
    then have "batchOf d2 x ?b" using own(1) by (simp add: batchOf_def after)
    ultimately obtain d3 where "applyEvent ?t ?t (w_Claim ?w) (EvCompleteAcknowledgment (map outcomeOf (sub_results x))) d2 = (d3, Inr ())"
      "acknowledgedRow ?t ?b \<in> set (db_batches d3)" "settledFilings d3 (snd ` set (batchFilings (b_id b) (b_firm b) d))"
      using complete_lands [OF d2(1) after(5) [OF b(1)] _ _ _ _ own(2,5), of ?t "w_Claim ?w" ?t]
      by (auto simp: settledFilings_def after simp del: applyEvent.simps workOf_simps(9))
    moreover have "b_id (acknowledgedRow ?t ?b) = b_id b \<and> b_state (acknowledgedRow ?t ?b) = BAcknowledged"
      by (simp add: acknowledgedRow_def)
    ultimately show ?thesis unfolding plan snd_conv by blast
  qed
  have cok: "callOK (fst ?plan)" unfolding plan by (simp add: callOK_def callResult_def callOutcomes_def plan_facts)
  have nt: "\<not> terminalState (b_state b)" using st by (auto simp: terminalState_def)
  have call: "if actionFor (b_state b) = ActionSubmit
      then \<exists>r. Submit ?irs (b_xml b) i = (i, r) \<and> ?plan = submitPlan (wk_backoff wk) ?w r
      else \<exists>r. Status ?irs (b_firm b) (fst (pollSearch ?w)) (snd (pollSearch ?w)) i = (i, r)
        \<and> ?plan = statusPlan (wk_backoff wk) ?w (fst (pollSearch ?w)) r"
    unfolding act search using asked act(2) by simp
  have "pollSearch ?w = (if actionFor (b_state b) = ActionLookupByUTID then (SearchUTID, b_utid b) else pollSearch ?w)"
    unfolding act using act(3) by simp
  from round_lands [OF inv(1,4) w order_refl nt startAt_due call this cok lands] obtain d3 where
    d3: "ProcessOne ?irs wk (roundAt ?t b d) (b_firm b) (d, i) = ((d3, i), Inr True) \<and> ?Q d3" ..
  then have "firmLoop ?irs wk (b_firm b) [roundAt ?t b d] (d, i) = ((d3, i), Inr ())" by simp
  moreover have "paced ?irs wk (b_firm b) clk [roundAt ?t b d] (d, i)" using roundAt_inTime by simp
  moreover have "length [roundAt ?t b d] \<le> 1" by simp
  ultimately show ?thesis using d3 unfolding settles_def by blast
qed

text \<open>A round whose event the store records, and what follows it.\<close>

lemma event_settles:
  assumes s: "sound config d i" and u: "undisturbed config cl ienv wk" and w: "workable wk d b (Suc n)"
    and "\<not> terminalState (b_state b)"
    and call: "(if actionFor (b_state b) = ActionSubmit
          then \<exists>r. Submit (reliableClient cl describe ienv now) (b_xml b) i = (i', r)
            \<and> plan = submitPlan (wk_backoff wk) (workOf wk (startAt clk d b) b) r
          else \<exists>r. Status (reliableClient cl describe ienv now) (b_firm b) SearchUTID (b_utid b) i = (i', r)
            \<and> plan = statusPlan (wk_backoff wk) (workOf wk (startAt clk d b) b) SearchUTID r)"
    and "actionFor (b_state b) \<noteq> ActionPollStatus"
    and "callOK (fst plan)" and ev: "eventArgs_ok (snd plan)" "claimState (b_state b) \<in> set (eventStates (snd plan))"
    and fresh: "\<And>r x. eventReceipt (snd plan) = Some r \<Longrightarrow> x \<in> set (db_batches d) \<Longrightarrow> b_receipt x \<noteq> Some r"
    and rest: "\<And>d3. sound config d3 i' \<Longrightarrow> workable wk d3 (evolved wk (startAt clk d b) b (snd plan)) n \<Longrightarrow>
          \<forall>m f. batchFilings m f d3 = batchFilings m f d \<Longrightarrow> settles (reliableClient cl describe ienv now) wk n (startAt clk d b) d3 i' (evolved wk (startAt clk d b) b (snd plan))"
  shows "settles (reliableClient cl describe ienv now) wk (Suc n) clk d i b"
proof -
  have lookup: "actionFor (b_state b) = ActionSubmit \<or> actionFor (b_state b) = ActionLookupByUTID"
    using assms(6) by (auto simp: actionFor_def split: if_splits)
  let ?search = "if actionFor (b_state b) = ActionLookupByUTID then (SearchUTID, b_utid b) else pollSearch (workOf wk (startAt clk d b) b)"
  have u': "cl_token cl = ic_BearerToken config" "blocks16 (env_blocks ienv)" using u by (simp_all add: undisturbed_def)
  have call': "(if actionFor (b_state b) = ActionSubmit
          then \<exists>r. Submit (reliableClient cl describe ienv now) (b_xml b) i = (i', r)
            \<and> plan = submitPlan (wk_backoff wk) (workOf wk (startAt clk d b) b) r
          else \<exists>r. Status (reliableClient cl describe ienv now) (b_firm b) (fst ?search) (snd ?search) i = (i', r)
            \<and> plan = statusPlan (wk_backoff wk) (workOf wk (startAt clk d b) b) (fst ?search) r)"
    using call lookup by (simp split: if_splits)
  from plain_round [OF s u' w assms(4) call' refl assms(7) ev fresh] obtain d3 where
    "ProcessOne (reliableClient cl describe ienv now) wk (roundAt (startAt clk d b) b d) (b_firm b) (d, i) = ((d3, i'), Inr True)"
    "sound config d3 i'" "workable wk d3 (evolved wk (startAt clk d b) b (snd plan)) n" "\<forall>m f. batchFilings m f d3 = batchFilings m f d"
    by blast
  with rest show ?thesis by (intro settles_step [where b' = "evolved wk (startAt clk d b) b (snd plan)"]) simp_all
qed

text \<open>A submission in doubt that the stub has.\<close>

lemma receipt_fits: "opaque r \<Longrightarrow> r \<noteq> '''' \<and> length r \<le> 256"
  by (simp add: opaque_def)

lemma doubtful_settles:
  assumes s: "sound config d i" and u: "undisturbed config cl ienv wk" and w: "workable wk d b (Suc 1)"
    and st: "b_state b \<in> {BSubmitting, BSubmitUnknown}"
    and x: "findByUTID (b_firm b) (b_utid b) i = Some x" "acknowledged_at now x"
  shows "settles (reliableClient cl describe ienv now) wk (Suc 1) clk d i b"
proof -
  let ?irs = "reliableClient cl describe ienv now" and ?t = "startAt clk d b"
  let ?w = "workOf wk ?t b"
  note inv = soundD [OF s]
  have b: "b \<in> set (db_batches d)" using w by (simp add: workable_def)
  note own = own_submission [OF s b x(1)]
  have none: "b_receipt b = None" using unreceipted [OF s b] st by auto
  have wire: "wireBatch b" using inv(2) b by (simp add: wireBatches_def)
  have asked: "Status ?irs (b_firm b) SearchUTID (b_utid b) i = (i, Inr (statusMeaning now (Some x)))"
    using reliable_asks [OF s _ wire, of cl SearchUTID "b_utid b" describe ienv now] u wire x(1)
    by (simp add: foundBy_def undisturbed_def wireBatch_def)
  let ?poll = "pollDelay (wk_backoff wk) (b_attempts b + 1)"
  let ?plan = "statusPlan (wk_backoff wk) ?w SearchUTID (Inr (statusMeaning now (Some x)))"
  have plan: "?plan = (callResult CallCompleted 200 '''', EvReferenceFound \<lparr>rf_ReceiptID = sub_receiptID x, rf_PollDelay = ?poll\<rparr>)"
    using own(4) none by (simp add: statusPlan_def statusMeaning_def coalesce_def)
  have cok: "callOK (fst ?plan)" unfolding plan by (simp add: callOK_def callResult_def callOutcomes_def plan_facts)
  have "validDelay ?poll" using delays_storable(2) u by (simp add: undisturbed_def)
  then have args: "eventArgs_ok (snd ?plan)" unfolding plan using own(2) receipt_fits by (simp add: answerable_def)
  have states: "claimState (b_state b) \<in> set (eventStates (snd ?plan))" unfolding plan using st by (auto simp: claimState_def)
  have nt: "\<not> terminalState (b_state b)" and act: "actionFor (b_state b) = ActionLookupByUTID"
    using st by (auto simp: terminalState_def actionFor_def)
  have call: "if actionFor (b_state b) = ActionSubmit then \<exists>r. Submit ?irs (b_xml b) i = (i, r) \<and> ?plan = submitPlan (wk_backoff wk) ?w r
      else \<exists>r. Status ?irs (b_firm b) SearchUTID (b_utid b) i = (i, r) \<and> ?plan = statusPlan (wk_backoff wk) ?w SearchUTID r"
    unfolding act using asked by simp
  have fresh: "b_receipt c \<noteq> Some r" if "eventReceipt (snd ?plan) = Some r" "c \<in> set (db_batches d)" for r c
    using that receipt_fresh [OF s b none x(1) inv(9) _ that(2)] unfolding plan by simp
  have then1: "settles ?irs wk 1 (startAt clk d b) d3 i (evolved wk (startAt clk d b) b (snd ?plan))"
    if "sound config d3 i" "workable wk d3 (evolved wk (startAt clk d b) b (snd ?plan)) 1"
      "\<forall>m f. batchFilings m f d3 = batchFilings m f d" for d3
  proof (rule submitted_settles [OF that(1) u that(2)])
    show "b_state (evolved wk (startAt clk d b) b (snd ?plan)) \<in> {BSubmitted, BAwaitingAck}" unfolding plan by (simp add: evolved_def eventRow_def)
  qed (use x in simp_all)
  have np: "actionFor (b_state b) \<noteq> ActionPollStatus" unfolding act by simp
  show ?thesis by (rule event_settles [OF s u w nt call np cok args states]) (erule (1) fresh, erule (2) then1)
qed

text \<open>A planned batch that the stub already has, after a crash between the two.\<close>

lemma duplicate_settles:
  assumes s: "sound config d i" and u: "undisturbed config cl ienv wk" and w: "workable wk d b (Suc (Suc 1))"
    and st: "b_state b = BPlanned" and tries: "MaxAttempts (wk_backoff wk) \<le> 0 \<or> b_attempts b + 1 < MaxAttempts (wk_backoff wk)"
    and x: "findByUTID (b_firm b) (b_utid b) i = Some x" "acknowledged_at now x"
  shows "settles (reliableClient cl describe ienv now) wk (Suc (Suc 1)) clk d i b"
proof -
  let ?irs = "reliableClient cl describe ienv now" and ?t = "startAt clk d b"
  let ?w = "workOf wk ?t b"
  note inv = soundD [OF s]
  have b: "b \<in> set (db_batches d)" using w by (simp add: workable_def)
  have u': "cl_token cl = ic_BearerToken (st_config i)" "blocks16 (env_blocks ienv)" "storableBackoff (wk_backoff wk)"
    using u inv(8) by (simp_all add: undisturbed_def)
  from inv(4) b obtain t where t: "decodeTransmission (b_xml b) = Inr t" "tx_firmID t = b_firm b" "tx_utid t = b_utid b"
    by (auto simp: payloads_ok_def payload_ok_def)
  have "storeRecord ienv t i = Some (i, Inl errDuplicateUTID)" using t x(1) by (simp add: storeRecord_def findByUTID_def)
  from reliable_submits [OF u'(1) t(1) u'(2) this, of describe now]
  have asked: "Submit ?irs (b_xml b) i = (i, Inr \<lparr>sr_StatusCode = 409, sr_ErrorCode = ''DUPLICATE_UTID'', sr_ReceiptID = ''''\<rparr>)"
    by (simp add: submitMeaning_def)
  let ?plan = "submitPlan (wk_backoff wk) ?w (Inr \<lparr>sr_StatusCode = 409, sr_ErrorCode = ''DUPLICATE_UTID'', sr_ReceiptID = ''''\<rparr>)"
  have "0 \<le> b_attempts b" using inv(1) b by (simp add: schema_ok_def batch_row_ok_def)
  with tries obtain delay where delay: "Delay (wk_backoff wk) (b_attempts b + 1) = (delay, True)"
    by (auto simp: Delay_def Let_def)
  have plan: "?plan = (callResult CallCompleted 409 ''DUPLICATE_UTID'',
      EvSubmitUnknown \<lparr>rs_Delay = delay, rs_FailureCode = ''DUPLICATE_UTID''\<rparr>)"
    using delay by (simp add: submitPlan_def retrySubmit_def failureOr_def)
  have cok: "callOK (fst ?plan)" unfolding plan by (simp add: callOK_def callResult_def callOutcomes_def plan_facts)
  have args: "eventArgs_ok (snd ?plan)" unfolding plan using delays_storable(1) [OF u'(3) delay] by (simp add: plan_facts)
  have states: "claimState (b_state b) \<in> set (eventStates (snd ?plan))" unfolding plan using st by (simp add: claimState_def)
  have nt: "\<not> terminalState (b_state b)" and act: "actionFor (b_state b) = ActionSubmit"
    using st by (auto simp: terminalState_def actionFor_def)
  have call: "if actionFor (b_state b) = ActionSubmit then \<exists>r. Submit ?irs (b_xml b) i = (i, r) \<and> ?plan = submitPlan (wk_backoff wk) ?w r
      else \<exists>r. Status ?irs (b_firm b) SearchUTID (b_utid b) i = (i, r) \<and> ?plan = statusPlan (wk_backoff wk) ?w SearchUTID r"
    unfolding act using asked by simp
  have fresh: "b_receipt c \<noteq> Some r" if "eventReceipt (snd ?plan) = Some r" "c \<in> set (db_batches d)" for r c
    using that unfolding plan by simp
  have then2: "settles ?irs wk (Suc 1) (startAt clk d b) d3 i (evolved wk (startAt clk d b) b (snd ?plan))"
    if "sound config d3 i" "workable wk d3 (evolved wk (startAt clk d b) b (snd ?plan)) (Suc 1)"
      "\<forall>m f. batchFilings m f d3 = batchFilings m f d" for d3
  proof (rule doubtful_settles [OF that(1) u that(2)])
    show "b_state (evolved wk (startAt clk d b) b (snd ?plan)) \<in> {BSubmitting, BSubmitUnknown}" unfolding plan by (simp add: evolved_def eventRow_def)
  qed (use x in simp_all)
  have np: "actionFor (b_state b) \<noteq> ActionPollStatus" unfolding act by simp
  show ?thesis by (rule event_settles [OF s u w nt call np cok args states]) (erule (1) fresh, erule (2) then2)
qed

text \<open>Draws with which the stub takes a new submission: unused entropy for its receipt and records, no
  injected fault, and it will be acknowledged.\<close>

definition accepting :: "irs_store \<Rightarrow> irs_env \<Rightarrow> nat \<Rightarrow> bool" where
  "accepting i ienv n \<longleftrightarrow> freshBlocks (env_blocks ienv) (generatedIDs i) \<and> n < length (env_blocks ienv)
     \<and> classifyIntakeFault (env_fault ienv * 100) (FailBeforeRecordPercent (st_config i)) (FailAfterRecordPercent (st_config i))
         = intakeSucceeded
     \<and> \<not> env_never ienv * 100 < NeverAckPercent (st_config i)"

definition ackTime :: "irs_env \<Rightarrow> int" where
  "ackTime ienv = env_now ienv + (ackDelayMinimum + \<lfloor>env_delay ienv * of_int ackDelayRange\<rfloor>)"

lemma recorded_times:
  assumes "\<not> env_never ienv * 100 < NeverAckPercent config"
  shows "\<not> sub_neverAcknowledges (recordedSubmission ienv config t r xs)"
    "sub_availableAt (recordedSubmission ienv config t r xs) = ackTime ienv"
  using assms by (simp_all add: recordedSubmission_def ackTime_def Let_def)

lemma accepted:
  assumes s: "sound config d i" and "blocks16 (env_blocks ienv)" and b: "b \<in> set (db_batches d)"
    and new: "findByUTID (b_firm b) (b_utid b) i = None"
    and take: "accepting i ienv (length (batchFilings (b_id b) (b_firm b) d))"
  obtains t i' x where "decodeTransmission (b_xml b) = Inr t"
    "storeRecord ienv t i = Some (i', Inr (sub_receiptID x, intakeSucceeded))"
    "findByUTID (b_firm b) (b_utid b) i' = Some x" "acknowledged_at (ackTime ienv) x"
    "intake_reachable config i'" "\<forall>f u y. findByUTID f u i = Some y \<longrightarrow> findByUTID f u i' = Some y"
proof -
  note inv = soundD [OF s]
  from inv(4) b obtain t where t: "decodeTransmission (b_xml b) = Inr t" "tx_firmID t = b_firm b" "tx_utid t = b_utid b"
    "map fr_recordID (tx_records t) = map fst (batchFilings (b_id b) (b_firm b) d)"
    by (auto simp: payloads_ok_def payload_ok_def)
  note unused = unrecorded_fresh [OF s b new t(2,4)]
  have "length (tx_records t) = length (batchFilings (b_id b) (b_firm b) d)" using arg_cong [OF t(4), of length] by simp
  with take obtain i' answer where r: "storeRecord ienv t i = Some (i', answer)"
    using intake_total [of ienv i t] by (auto simp: accepting_def)
  have "readableInput t" using inv(2) b t(1) by (auto simp: wireBatches_def wireBatch_def)
  from intake_next [OF inv(7) this assms(2) r] have reach: "intake_reachable config i'" .
  have kept: "findByUTID f u i = Some y \<Longrightarrow> findByUTID f u i' = Some y" for f u y
    using irs.frozen [OF r, of "(f, u)"] by (simp add: findByUTID_def)
  have none: "submissionsByFirmAndUTID i (tx_firmID t, tx_utid t) = None" using new t(2,3) by (simp add: findByUTID_def)
  from r show thesis
  proof (cases rule: storeRecord_cases)
    case same
    with r none unused take show ?thesis by (auto simp: storeRecord_def accepting_def Let_def split: option.splits prod.splits)
  next
    case (new x fault ids)
    from r new(1) none unused take have "fault = intakeSucceeded"
      by (auto simp: storeRecord_def accepting_def Let_def split: option.splits prod.splits)
    moreover from new(5) obtain xs where "x = recordedSubmission ienv (st_config i) t (sub_receiptID x) xs" by blast
    moreover have "\<not> env_never ienv * 100 < NeverAckPercent (st_config i)" using take by (simp add: accepting_def)
    ultimately have "fault = intakeSucceeded" and "\<not> sub_neverAcknowledges x \<and> sub_availableAt x = ackTime ienv"
      using recorded_times by metis+
    then show ?thesis
      using that [OF t(1), of i' x] r new(1,4) t(2,3) reach kept by (auto simp: findByUTID_def acknowledged_at_def)
  qed
qed

text \<open>A planned batch the stub has not seen.\<close>

lemma planned_settles:
  assumes s: "sound config d i" and u: "undisturbed config cl ienv wk" and w: "workable wk d b (Suc 1)"
    and st: "b_state b = BPlanned" and new: "findByUTID (b_firm b) (b_utid b) i = None"
    and take: "accepting i ienv (length (batchFilings (b_id b) (b_firm b) d))"
  shows "settles (reliableClient cl describe ienv (ackTime ienv)) wk (Suc 1) clk d i b"
proof -
  let ?irs = "reliableClient cl describe ienv (ackTime ienv)" and ?t = "startAt clk d b"
  let ?w = "workOf wk ?t b"
  note inv = soundD [OF s]
  have b: "b \<in> set (db_batches d)" using w by (simp add: workable_def)
  have u': "cl_token cl = ic_BearerToken (st_config i)" "blocks16 (env_blocks ienv)" "storableBackoff (wk_backoff wk)"
    using u inv(8) by (simp_all add: undisturbed_def)
  have none: "b_receipt b = None" using unreceipted [OF s b] st by auto
  obtain t i' x where t: "decodeTransmission (b_xml b) = Inr t"
    and r: "storeRecord ienv t i = Some (i', Inr (sub_receiptID x, intakeSucceeded))"
    and x: "findByUTID (b_firm b) (b_utid b) i' = Some x" "acknowledged_at (ackTime ienv) x"
    and reach: "intake_reachable config i'" and kept: "\<forall>f u y. findByUTID f u i = Some y \<longrightarrow> findByUTID f u i' = Some y"
    by (rule accepted [OF s u'(2) b new take])
  have opq: "opaque (sub_receiptID x)" by (rule storeRecord_receipt [OF r u'(2)])
  let ?reply = "Inr \<lparr>sr_StatusCode = 200, sr_ErrorCode = '''', sr_ReceiptID = sub_receiptID x\<rparr>"
  let ?poll = "pollDelay (wk_backoff wk) (b_attempts b + 1)"
  let ?plan = "submitPlan (wk_backoff wk) ?w ?reply"
  from reliable_submits [OF u'(1) t u'(2) r, of describe "ackTime ienv"]
  have asked: "Submit ?irs (b_xml b) i = (i', ?reply)" by (simp add: submitMeaning_def)
  have plan: "?plan = (callResult CallCompleted 200 '''', EvSubmitAccepted \<lparr>sa_ReceiptID = sub_receiptID x, sa_PollDelay = ?poll\<rparr>)"
    using receipt_fits [OF opq] by (simp add: submitPlan_def)
  have cok: "callOK (fst ?plan)" unfolding plan by (simp add: callOK_def callResult_def callOutcomes_def plan_facts)
  have args: "eventArgs_ok (snd ?plan)"
    unfolding plan using delays_storable(2) [OF u'(3)] receipt_fits [OF opq] by simp
  have states: "claimState (b_state b) \<in> set (eventStates (snd ?plan))" unfolding plan using st by (simp add: claimState_def)
  have nt: "\<not> terminalState (b_state b)" and act: "actionFor (b_state b) = ActionSubmit"
    using st by (auto simp: terminalState_def actionFor_def)
  have call: "if actionFor (b_state b) = ActionSubmit then \<exists>r. Submit ?irs (b_xml b) i = (i', r) \<and> ?plan = submitPlan (wk_backoff wk) ?w r
      else \<exists>r. Status ?irs (b_firm b) SearchUTID (b_utid b) i = (i', r) \<and> ?plan = statusPlan (wk_backoff wk) ?w SearchUTID r"
    unfolding act using asked by simp
  have fresh: "b_receipt c \<noteq> Some r" if "eventReceipt (snd ?plan) = Some r" "c \<in> set (db_batches d)" for r c
    using that receipt_fresh [OF s b none x(1) intake_reachable_inv [OF reach] _ that(2)] kept unfolding plan by simp
  have then1: "settles ?irs wk 1 (startAt clk d b) d3 i' (evolved wk (startAt clk d b) b (snd ?plan))"
    if "sound config d3 i'" "workable wk d3 (evolved wk (startAt clk d b) b (snd ?plan)) 1"
      "\<forall>m f. batchFilings m f d3 = batchFilings m f d" for d3
  proof (rule submitted_settles [OF that(1) u that(2)])
    show "b_state (evolved wk (startAt clk d b) b (snd ?plan)) \<in> {BSubmitted, BAwaitingAck}" unfolding plan by (simp add: evolved_def eventRow_def)
  qed (use x in simp_all)
  have np: "actionFor (b_state b) \<noteq> ActionPollStatus" unfolding act by simp
  show ?thesis by (rule event_settles [OF s u w nt call np cok args states]) (erule (1) fresh, erule (2) then1)
qed

text \<open>A submission in doubt that never arrived.\<close>

lemma lost_settles:
  assumes s: "sound config d i" and u: "undisturbed config cl ienv wk" and w: "workable wk d b (Suc (Suc 1))"
    and st: "b_state b \<in> {BSubmitting, BSubmitUnknown}" and new: "findByUTID (b_firm b) (b_utid b) i = None"
    and take: "accepting i ienv (length (batchFilings (b_id b) (b_firm b) d))"
  shows "settles (reliableClient cl describe ienv (ackTime ienv)) wk (Suc (Suc 1)) clk d i b"
proof -
  let ?irs = "reliableClient cl describe ienv (ackTime ienv)" and ?t = "startAt clk d b"
  let ?w = "workOf wk ?t b"
  note inv = soundD [OF s]
  have b: "b \<in> set (db_batches d)" using w by (simp add: workable_def)
  have wire: "wireBatch b" using inv(2) b by (simp add: wireBatches_def)
  have asked: "Status ?irs (b_firm b) SearchUTID (b_utid b) i = (i, Inr (statusMeaning (ackTime ienv) None))"
    using reliable_asks [OF s _ wire, of cl SearchUTID "b_utid b" describe ienv "ackTime ienv"] u wire new
    by (simp add: foundBy_def undisturbed_def wireBatch_def)
  let ?poll = "pollDelay (wk_backoff wk) (b_attempts b + 1)"
  let ?plan = "statusPlan (wk_backoff wk) ?w SearchUTID (Inr (statusMeaning (ackTime ienv) None))"
  have plan: "?plan = (callResult CallCompleted 404 ''NOT_FOUND'', EvReferenceNotFound \<lparr>rs_Delay = ?poll, rs_FailureCode = ''NOT_FOUND''\<rparr>)"
    by (simp add: statusPlan_def statusMeaning_def)
  have cok: "callOK (fst ?plan)" unfolding plan by (simp add: callOK_def callResult_def callOutcomes_def plan_facts)
  have "validDelay ?poll" using delays_storable(2) u by (simp add: undisturbed_def)
  then have args: "eventArgs_ok (snd ?plan)" unfolding plan by (simp add: plan_facts)
  have states: "claimState (b_state b) \<in> set (eventStates (snd ?plan))" unfolding plan using st by (auto simp: claimState_def)
  have nt: "\<not> terminalState (b_state b)" and act: "actionFor (b_state b) = ActionLookupByUTID"
    using st by (auto simp: terminalState_def actionFor_def)
  have call: "if actionFor (b_state b) = ActionSubmit then \<exists>r. Submit ?irs (b_xml b) i = (i, r) \<and> ?plan = submitPlan (wk_backoff wk) ?w r
      else \<exists>r. Status ?irs (b_firm b) SearchUTID (b_utid b) i = (i, r) \<and> ?plan = statusPlan (wk_backoff wk) ?w SearchUTID r"
    unfolding act using asked by simp
  have fresh: "b_receipt c \<noteq> Some r" if "eventReceipt (snd ?plan) = Some r" "c \<in> set (db_batches d)" for r c
    using that unfolding plan by simp
  have np: "actionFor (b_state b) \<noteq> ActionPollStatus" unfolding act by simp
  have then2: "settles ?irs wk (Suc 1) (startAt clk d b) d3 i (evolved wk (startAt clk d b) b (snd ?plan))"
    if "sound config d3 i" "workable wk d3 (evolved wk (startAt clk d b) b (snd ?plan)) (Suc 1)"
      "\<forall>m f. batchFilings m f d3 = batchFilings m f d" for d3
  proof (rule planned_settles [OF that(1) u that(2)])
    show "b_state (evolved wk (startAt clk d b) b (snd ?plan)) = BPlanned" unfolding plan by (simp add: evolved_def eventRow_def)
  qed (use new take that(3) in simp_all)
  show ?thesis by (rule event_settles [OF s u w nt call np cok args states]) (erule (1) fresh, erule (2) then2)
qed

section \<open>No batch is stuck\<close>

text \<open>C4. No batch is ever stuck: from any state the system reaches, however its workers crashed,
  repeated themselves or lost messages, and whatever claims are still around, there are at most three
  rounds of the firm's worker, from any time on and each call only when the rate gate allows it, that take
  an unfinished batch to its acknowledgment, with a verdict recorded for every filing of it: a submission
  in doubt is looked up first, one that never arrived is submitted again, one that did is found and
  polled. The rounds start once the batch is due and its lease has run out, while other workers hold the
  firm's other batches; the stub must not inject a fault into the submission or refuse to acknowledge
  it, and a batch planned again although the stub has it needs one more attempt in the backoff.\<close>

theorem batch_settles:
  assumes "sys_reachable config cl bo describe s" and "cl_token cl = ic_BearerToken config"
    and b: "b \<in> set (db_batches (sy_db s))" "b_firm b \<in> set (db_firms (sy_db s))" "\<not> terminalState (b_state b)"
    and tries: "int32 (b_attempts b + 3)" "MaxAttempts (wk_backoff wk) \<le> 0 \<or> b_attempts b + 1 < MaxAttempts (wk_backoff wk)"
    and wk: "wk_workerID wk \<noteq> ''''" "1000 \<le> wk_leaseDuration wk" "storableBackoff (wk_backoff wk)"
    and env: "blocks16 (env_blocks env)"
    and acks: "case findByUTID (b_firm b) (b_utid b) (sy_irs s) of Some x \<Rightarrow> \<not> sub_neverAcknowledges x
        | None \<Rightarrow> accepting (sy_irs s) env (length (batchFilings (b_id b) (b_firm b) (sy_db s)))"
  shows "\<exists>now envs d' i'. length envs \<le> 3
    \<and> paced (reliableClient cl describe env now) wk (b_firm b) clk envs (sy_db s, sy_irs s)
    \<and> firmLoop (reliableClient cl describe env now) wk (b_firm b) envs (sy_db s, sy_irs s) = ((d', i'), Inr ())
    \<and> (\<exists>b' \<in> set (db_batches d'). b_id b' = b_id b \<and> b_state b' = BAcknowledged)
    \<and> (\<forall>key i. (key, i) \<in> set (batchFilings (b_id b) (b_firm b) (sy_db s)) \<longrightarrow>
         (\<exists>f \<in> set (db_filings d'). f_id f = i \<and> f_state f \<in> {FAccepted, FRejected}))"
proof -
  have s: "sound config (sy_db s) (sy_irs s)" by (rule sound_reachable [OF assms(1,2)])
  have u: "undisturbed config cl env wk" using assms(2) wk(3) env by (simp add: undisturbed_def)
  have w3: "workable wk (sy_db s) b 3" using b wk tries(1) by (simp add: workable_def)
  have w: "workable wk (sy_db s) b (Suc (Suc 1))" "workable wk (sy_db s) b (Suc 1)" "workable wk (sy_db s) b 1"
    by (rule workable_less [OF s w3]; simp)+
  have "\<exists>now. settles (reliableClient cl describe env now) wk 3 clk (sy_db s) (sy_irs s) b"
  proof (cases "findByUTID (b_firm b) (b_utid b) (sy_irs s)")
    case None
    with acks have "accepting (sy_irs s) env (length (batchFilings (b_id b) (b_firm b) (sy_db s)))" by simp
    note fresh = settles_more [OF planned_settles [OF s u w(2) _ None this], of 3]
      settles_more [OF lost_settles [OF s u w(1) _ None this], of 3]
    have "b_state b \<notin> {BSubmitted, BAwaitingAck}"
      using None b(1) soundD(3,5) [OF s]
      by (fastforce simp: receipts_ok_def receiptRow_ok_def receipts_known_def receipt_known_def holdsReceipt_def)
    with fresh \<open>\<not> terminalState (b_state b)\<close> show ?thesis
      by (cases "b_state b") (auto simp: terminalState_def)
  next
    case (Some x)
    with acks have "acknowledged_at (sub_availableAt x) x" by (simp add: acknowledged_at_def)
    note known = settles_more [OF duplicate_settles [OF s u w(1) _ tries(2) Some this], of 3]
      settles_more [OF doubtful_settles [OF s u w(2) _ Some this], of 3]
      settles_more [OF submitted_settles [OF s u w(3) _ Some this], of 3]
    with \<open>\<not> terminalState (b_state b)\<close> show ?thesis
      by (cases "b_state b") (auto simp: terminalState_def)
  qed
  then show ?thesis unfolding settles_def settledFilings_def by force
qed

text \<open>The worker of the sample run crashed when its submission had arrived and the reply was lost.\<close>

theorem batch_settles_witness:
  "\<exists>(s :: sys) now envs d' i'. b_state claimed1 = BSubmitting \<and> claimed1 \<in> set (db_batches (sy_db s)) \<and> length envs \<le> 3
     \<and> paced (reliableClient sampleCl (\<lambda>e. ''bad'') Irs_Idempotence.sampleEnv now) sampleWorker ''acme'' 7 envs (sy_db s, sy_irs s)
     \<and> firmLoop (reliableClient sampleCl (\<lambda>e. ''bad'') Irs_Idempotence.sampleEnv now) sampleWorker ''acme'' envs (sy_db s, sy_irs s)
         = ((d', i'), Inr ())
     \<and> (\<exists>b' \<in> set (db_batches d'). b_id b' = 1 \<and> b_state b' = BAcknowledged)
     \<and> (\<exists>f \<in> set (db_filings d'). f_id f = 1 \<and> f_state f \<in> {FAccepted, FRejected})"
proof -
  obtain t W P where t: "tx_firmID t = ''acme''" "tx_utid t = groupUTID ''acme'' sampleGroup"
    and reach: "sys_reachable sampleConfig sampleCl sampleBackoff (\<lambda>e. ''bad'')
       \<lparr>sy_db = runDb claimed1 batchedFiling, sy_irs = runIrs t, sy_work = W, sy_plans = P\<rparr>"
    by (rule run_crashed)
  let ?s = "\<lparr>sy_db = runDb claimed1 batchedFiling, sy_irs = runIrs t, sy_work = W, sy_plans = P\<rparr>"
  have row: "b_id claimed1 = 1" "b_firm claimed1 = ''acme''" "b_utid claimed1 = groupUTID ''acme'' sampleGroup"
    "b_state claimed1 = BSubmitting" "b_attempts claimed1 = 1"
    by (simp_all add: claimed1_def claimRow_def claimState_def sampleRow_eq)
  have db: "claimed1 \<in> set (db_batches (sy_db ?s))" "b_firm claimed1 \<in> set (db_firms (sy_db ?s))" "\<not> terminalState (b_state claimed1)"
    using row by (simp_all add: runDb_def sampleDb_def terminalState_def)
  have tries: "int32 (b_attempts claimed1 + 3)"
    "MaxAttempts (wk_backoff sampleWorker) \<le> 0 \<or> b_attempts claimed1 + 1 < MaxAttempts (wk_backoff sampleWorker)"
    using row by (simp_all add: int32_def sampleWorker_def sampleBackoff_def)
  have wk: "wk_workerID sampleWorker \<noteq> ''''" "1000 \<le> wk_leaseDuration sampleWorker" "storableBackoff (wk_backoff sampleWorker)"
    by (simp_all add: sampleWorker_def sampleBackoff_def storableBackoff_def duration_defs)
  have env: "blocks16 (env_blocks Irs_Idempotence.sampleEnv)" by (simp add: blocks16_def Irs_Idempotence.sampleEnv_def)
  have token: "cl_token sampleCl = ic_BearerToken sampleConfig" by (simp add: sampleCl_def sampleConfig_def)
  have acks: "case findByUTID (b_firm claimed1) (b_utid claimed1) (sy_irs ?s) of Some x \<Rightarrow> \<not> sub_neverAcknowledges x
      | None \<Rightarrow> accepting (sy_irs ?s) Irs_Idempotence.sampleEnv (length (batchFilings (b_id claimed1) (b_firm claimed1) (sy_db ?s)))"
    using run_recorded [OF t] row by simp
  have key: "(hexEncode (replicate 32 (CHR ''k'')), 1) \<in> set (batchFilings 1 ''acme'' (sy_db ?s))"
    by (simp add: batchFilings_def run_defs sample_defs)
  from batch_settles [OF reach token db tries wk env acks, of 7] obtain now envs d' i' where
    loop: "length envs \<le> 3" "paced (reliableClient sampleCl (\<lambda>e. ''bad'') Irs_Idempotence.sampleEnv now) sampleWorker
      (b_firm claimed1) 7 envs (sy_db ?s, sy_irs ?s)" "firmLoop (reliableClient sampleCl (\<lambda>e. ''bad'') Irs_Idempotence.sampleEnv now) sampleWorker
      (b_firm claimed1) envs (sy_db ?s, sy_irs ?s) = ((d', i'), Inr ())"
    and acked: "\<exists>b' \<in> set (db_batches d'). b_id b' = b_id claimed1 \<and> b_state b' = BAcknowledged"
    and filed: "\<forall>key i. (key, i) \<in> set (batchFilings (b_id claimed1) (b_firm claimed1) (sy_db ?s)) \<longrightarrow>
         (\<exists>f \<in> set (db_filings d'). f_id f = i \<and> f_state f \<in> {FAccepted, FRejected})" by blast
  show ?thesis
    by (rule exI [of _ ?s], rule exI [of _ now], rule exI [of _ envs], rule exI [of _ d'], rule exI [of _ i'])
      (use loop acked filed [rule_format, unfolded row, OF key] row db(1) in simp)
qed

end
