(* ===== verification/Spec2Isabelle.thy ===== *)
theory Spec2Isabelle
  imports Tenants Worker_Run Filed Web_Routes Irs_Process Progress
begin

text \<open>
  A verification library for the 1099-NEC filing service: a Go program that imports a firm's
  payments, decides which payees need a filing, cuts the filings into batches, submits the batches
  to the IRS under a rate limit, and settles every filing with the verdict the IRS gives. A stub of
  the IRS belongs to the repository and is modelled too. The root theory only gathers the library.

  \<^bold>\<open>The program and how its parts interact.\<close> The store (\<open>postgres/internal/store\<close>) keeps everything
  in PostgreSQL; each of its operations is one transaction for one firm. The service
  (\<open>service/internal\<close>) reads the CSV export, calls the store, and runs one worker loop per firm:
  claim a batch under a lease, take a call permit from the rate gate, submit or ask the IRS over
  HTTP, finish the permit, record the outcome under the claim. The stub (\<open>irs/internal/stub\<close>)
  decodes and checks a transmission, records it with a verdict per record, and answers status
  questions after an acknowledgment delay. Crashes, lost messages and expired leases may happen
  between any two of these steps.

  \<^bold>\<open>How the code is modelled.\<close> A Go string or byte slice is a HOL string, one \<open>char\<close> per byte;
  int64 is \<open>int\<close> with \<open>wrap64\<close> where a result may leave the range, and the hash works on 32-bit
  words. Structs are records, enumerations and errors are datatypes or the source's strings, a
  fallible call returns \<open>error + value\<close>. The database is a record of tables (lists of rows); a SQL
  statement is the function on tables it denotes, with the constraints, keys and triggers of the
  migration checked where the statement runs. A store operation takes the clock readings and random
  bytes it uses as arguments and returns the new database, which on an error is the old one unless
  the code commits first. Instants are microseconds, durations nanoseconds.

  \<^bold>\<open>Theories, bottom up.\<close>

  \<^item> \<open>Prelude\<close>: integers, decimal and hexadecimal text, \<open>strings.TrimSpace\<close>, list facts.
    \<open>Sha256\<close>: \<open>crypto/sha256\<close>, executable. \<open>Xml\<close>, \<open>Xml_Reader\<close>, \<open>Xml_Roundtrip\<close>: what the program
    uses of \<open>encoding/xml\<close>, writing, tokenising and reading, and that reading undoes writing.
    \<open>Csv\<close>: what it uses of \<open>encoding/csv\<close>, and that reading undoes writing.
  \<^item> \<open>Lifecycle\<close>: the API of \<open>postgres/internal/app/lifecycle.go\<close>. \<open>Schema\<close>: the tables, constraints
    and update rules of \<open>postgres/db/migrations\<close>. \<open>Store_Base\<close>: \<open>store.go\<close>. \<open>Identity\<close>, \<open>Money\<close>:
    \<open>identity.go\<close> (filing keys, UTIDs, cents, the canonical XML).
  \<^item> \<open>Importing\<close>: \<open>import.go\<close>. \<open>Determination\<close>, \<open>Determination_Facts\<close>: \<open>determination.go\<close>.
    \<open>Planning\<close>, \<open>Planning_Facts\<close>: \<open>PlanBatches\<close> of \<open>filing.go\<close>. \<open>Batches\<close>, \<open>Batch_Lifecycle\<close>: claiming
    and the nine outcome events of \<open>filing.go\<close>. \<open>Rate\<close>: \<open>rate.go\<close>. \<open>Status\<close>: \<open>status.go\<close>.
  \<^item> \<open>Store_Machine\<close>, \<open>Store_Safety\<close>, \<open>Store_Settlement\<close>, \<open>Claims\<close>, \<open>Tenants\<close>: the store as one
    machine, whose runs keep the schema, move batches and filings only forward, spend a claim once,
    settle a batch completely or not at all, respect leases and keep firms apart.
  \<^item> \<open>Irs_Store\<close>, \<open>Irs_Idempotence\<close>: \<open>model.go\<close> of the stub. \<open>Irs_Server\<close>, \<open>Irs_Setup\<close>,
    \<open>Irs_Process\<close>: \<open>server.go\<close>, \<open>config.go\<close> and \<open>cmd/irsstub/main.go\<close>. \<open>Irs_Wire\<close>: the
    stub reads the payload the store rendered as the planned filings.
  \<^item> \<open>Worker\<close>, \<open>Worker_Facts\<close>: \<open>service/internal/filing/worker.go\<close>. \<open>Irs_Client\<close>, \<open>Wire_Facts\<close>:
    \<open>service/internal/irsclient/client.go\<close>, and that client and stub understand each other.
  \<^item> \<open>Payment_Source\<close>: \<open>importer/source.go\<close>. \<open>Service\<close>: \<open>app/app.go\<close>. \<open>Configuration\<close>:
    \<open>config/config.go\<close> and the worker made from it. \<open>Web\<close>: the handlers of
    \<open>web/server.go\<close>. \<open>Commands\<close>: \<open>cmd/readiness/main.go\<close>. \<open>Web_Routes\<close>: the web server as a whole, its
    routes, \<open>web/http.go\<close>, and how the \<open>serve\<close> command ends.
  \<^item> \<open>System\<close>: the composition, a step relation over the database, the stub, the work handed out and
    the decisions not yet recorded, with loss and crashes. \<open>System_Rounds\<close>: every worker loop is a run
    of it. \<open>Worker_Run\<close>: so are the interleaved loops of \<open>Worker.Run\<close>, which reports its first
    failure. \<open>Ledger\<close>: in every reachable state the database's verdicts are the stub's. \<open>Filed\<close>: so a
    client shown as fully filed is filed at the IRS, as far as it was determined. \<open>Samples\<close>,
    \<open>Ledger_Sample\<close>: small databases and one complete run the witnesses evaluate.
  \<^item> \<open>Payloads\<close>, \<open>Reconciliation\<close>: the converse of the ledger. Every batch keeps a payload that decodes
    to its own filings, which wait until it is acknowledged; so whatever the stub holds is the
    transmission of exactly one batch, and every receipt is the one of its submission.
    \<open>Store_Progress\<close>, \<open>Progress\<close>: what the store does not refuse, and from it that no batch is stuck:
    from every reachable state at most three undisturbed rounds of the worker bring an unfinished
    batch to its acknowledgment.

  \<^bold>\<open>Interfaces.\<close> Four contracts are locales, each interpreted on the model: \<open>fenced_events\<close> (an event
  needs a claim and spends it; the outcome events of the store), \<open>idempotent_receiver\<close> (a delivery
  is recorded once under its reference; the stub's intake), \<open>spaced_log\<close> (the rate gate's call log)
  and \<open>row_source\<close> (\<open>PaymentRowSource\<close>: numbered rows and a hash at the end; the CSV source).

  \<^bold>\<open>Bounds and termination.\<close> Loops are structural or have a measure: the CSV and XML readers consume
  bytes, draining a source shortens its unread bytes, planning advances its start index, the backoff
  doubles at most \<open>attempt - 1\<close> times. The only loop that may not end is the stub's search for a
  fresh identifier: the random blocks it may draw are a list, running out of them is \<open>None\<close>, and a list
  with enough fresh blocks is proved to suffice. A worker's loop is run for any number of rounds;
  three are enough to settle a batch once nothing disturbs them: a lookup, a submission and a poll.

  \<^bold>\<open>Over-approximations.\<close> In \<open>System\<close> work and decisions are never removed once they exist, so a
  decision may be recorded late or repeatedly, and a message may be lost in either direction: the
  safety results hold for more behaviours than the code has.

  \<^bold>\<open>Not modelled.\<close> The PostgreSQL engine below the statements (isolation is taken as given by the
  transactions and row locks; losing the connection is left out), the HTTP transport,
  TLS and multipart framing on the wire, gzip decompression and the file system (arguments of the
  model), flag parsing, \<open>time.ParseDuration\<close> and \<open>strconv.ParseFloat\<close> (arguments), fairness
  of goroutine scheduling and the length of timers, HTML templates, the wording of
  logs, process signals, and the rounding of float64 percentages.
\<close>

end
